(* ===== verification/Prelude.thy ===== *)
theory Prelude
  imports Main "HOL-Library.Word" "HOL-Library.Sublist" "HOL-Library.Multiset"
    "HOL-Library.Char_ord"
begin

text \<open>
  What the component theories share: the outcome of code that can panic
  (\<open>run\<close>), the outcome of fallible code (\<open>result\<close>), checked indexing of
  arrays, the loop \<open>while let Some(i) = range.next()\<close> as a fold, facts on
  sorted lists, and the collections of automation the proofs name.
\<close>

section \<open>Collections\<close>

named_theorems run_simps \<open>evaluation of computations that can panic\<close>
named_theorems step_intros \<open>introduction rules of invariants kept by single steps\<close>
named_theorems inv_simps \<open>unfoldings of the well-formedness invariants\<close>

section \<open>Outcomes\<close>

text \<open>A Rust computation either returns a value or panics (a failed
  \<open>assert!\<close>, an index out of range, an \<open>unwrap\<close> of nothing).\<close>

datatype 'a run = Val 'a | Panic

primrec bindR :: "'a run \<Rightarrow> ('a \<Rightarrow> 'b run) \<Rightarrow> 'b run" where
  "bindR (Val x) f = f x"
| "bindR Panic f = Panic"

text \<open>\<open>Result<A, E>\<close>, and the \<open>?\<close> operator.\<close>

datatype ('a, 'e) result = Ok 'a | Err 'e

primrec bindE :: "('a, 'e) result \<Rightarrow> ('a \<Rightarrow> ('b, 'e) result) \<Rightarrow> ('b, 'e) result" where
  "bindE (Ok x) f = f x"
| "bindE (Err e) f = Err e"

primrec is_ok :: "('a, 'e) result \<Rightarrow> bool" where
  "is_ok (Ok x) = True"
| "is_ok (Err e) = False"

primrec ok_or :: "'a option \<Rightarrow> 'e \<Rightarrow> ('a, 'e) result" where
  "ok_or (Some x) e = Ok x"
| "ok_or None e = Err e"

primrec map_err :: "('e \<Rightarrow> 'f) \<Rightarrow> ('a, 'e) result \<Rightarrow> ('a, 'f) result" where
  "map_err f (Ok x) = Ok x"
| "map_err f (Err e) = Err (f e)"

lemma bindR_eq_Val: "bindR m f = Val y \<longleftrightarrow> (\<exists>x. m = Val x \<and> f x = Val y)"
  by (cases m) auto

lemma bindR_eq_Panic: "bindR m f = Panic \<longleftrightarrow> m = Panic \<or> (\<exists>x. m = Val x \<and> f x = Panic)"
  by (cases m) auto

lemma bindR_Val_right [simp]: "bindR m Val = m"
  by (cases m) auto

lemma bindR_assoc: "bindR (bindR m f) g = bindR m (\<lambda>x. bindR (f x) g)"
  by (cases m) auto

lemma bindR_cong [fundef_cong]:
  "m = m' \<Longrightarrow> (\<And>x. m' = Val x \<Longrightarrow> f x = f' x) \<Longrightarrow> bindR m f = bindR m' f'"
  by (cases m') auto

lemma not_Panic_iff: "m \<noteq> Panic \<longleftrightarrow> (\<exists>x. m = Val x)"
  by (cases m) auto

lemma bindE_eq_Ok: "bindE m f = Ok y \<longleftrightarrow> (\<exists>x. m = Ok x \<and> f x = Ok y)"
  by (cases m) auto

lemma bindE_eq_Err: "bindE m f = Err e \<longleftrightarrow> m = Err e \<or> (\<exists>x. m = Ok x \<and> f x = Err e)"
  by (cases m) auto

lemma bindE_cong [fundef_cong]:
  "m = m' \<Longrightarrow> (\<And>x. m' = Ok x \<Longrightarrow> f x = f' x) \<Longrightarrow> bindE m f = bindE m' f'"
  by (cases m') auto

lemma ok_or_eq_Ok [simp]: "ok_or m e = Ok x \<longleftrightarrow> m = Some x"
  by (cases m) auto

declare bindR_eq_Val [run_simps] bindR_eq_Panic [run_simps]

section \<open>Checked indexing\<close>

definition idx :: "'a list \<Rightarrow> nat \<Rightarrow> 'a run" where
  "idx xs i = (if i < length xs then Val (xs ! i) else Panic)"

definition upd :: "'a list \<Rightarrow> nat \<Rightarrow> 'a \<Rightarrow> 'a list run" where
  "upd xs i x = (if i < length xs then Val (xs[i := x]) else Panic)"

lemma idx_Val [simp]: "i < length xs \<Longrightarrow> idx xs i = Val (xs ! i)"
  by (simp add: idx_def)

lemma idx_Panic [simp]: "length xs \<le> i \<Longrightarrow> idx xs i = Panic"
  by (simp add: idx_def)

lemma upd_Val [simp]: "i < length xs \<Longrightarrow> upd xs i x = Val (xs[i := x])"
  by (simp add: upd_def)

lemma upd_Panic [simp]: "length xs \<le> i \<Longrightarrow> upd xs i x = Panic"
  by (simp add: upd_def)

lemma drop_update:
  "j < length xs \<Longrightarrow> drop j (xs[j := y]) = y # drop (Suc j) xs"
  by (simp add: upd_conv_take_nth_drop)

lemma drop_Suc_update:
  "Suc j < length xs \<Longrightarrow> drop (Suc j) (xs[Suc j := y]) = y # drop (Suc (Suc j)) xs"
  by (simp add: upd_conv_take_nth_drop)

section \<open>Bytes\<close>

text \<open>\<open>w as u8\<close>, the low byte of an integer.\<close>

definition byte_of :: "'a::len word \<Rightarrow> char" where
  "byte_of w = char_of (unat w)"

lemma of_char_less_256 [simp]: "(of_char b :: nat) < 256"
  using nat_of_char_less_256 by simp

lemma of_char_nat_inj: "(of_char a :: nat) = of_char b \<Longrightarrow> a = b"
  by (simp add: of_char_eq_iff)

lemma of_char_NUL [simp]: "(of_char (CHR 0x00) :: nat) = 0"
  by simp

lemma of_char_eq_0_iff: "(of_char b :: nat) = 0 \<longleftrightarrow> b = CHR 0x00"
  using of_char_nat_inj[of b "CHR 0x00"] by auto

text \<open>The C string in a buffer: the bytes before the first NUL.\<close>

definition c_str :: "string \<Rightarrow> string" where
  "c_str s = takeWhile (\<lambda>c. c \<noteq> CHR 0x00) s"

definition nul_free :: "string \<Rightarrow> bool" where
  "nul_free s = (CHR 0x00 \<notin> set s)"

lemma c_str_simps [simp]:
  "c_str [] = []" "c_str (c # s) = (if c = CHR 0x00 then [] else c # c_str s)"
  by (simp_all add: c_str_def)

lemma c_str_append [simp]: "nul_free s \<Longrightarrow> c_str (s @ CHR 0x00 # t) = s"
  unfolding c_str_def nul_free_def by (subst takeWhile_append2) auto

lemma c_str_id [simp]: "nul_free s \<Longrightarrow> c_str s = s"
  unfolding c_str_def nul_free_def by (subst takeWhile_eq_all_conv) auto

lemma nul_free_append [simp]: "nul_free (xs @ ys) \<longleftrightarrow> nul_free xs \<and> nul_free ys"
  by (auto simp: nul_free_def)

lemma nul_free_Nil [simp]: "nul_free []"
  by (simp add: nul_free_def)

lemma nul_free_Cons [simp]: "nul_free (c # s) \<longleftrightarrow> c \<noteq> CHR 0x00 \<and> nul_free s"
  by (auto simp: nul_free_def)

section \<open>Loops over a list of indices\<close>

primrec foldR :: "('i \<Rightarrow> 's \<Rightarrow> 's run) \<Rightarrow> 'i list \<Rightarrow> 's \<Rightarrow> 's run" where
  "foldR f [] s = Val s"
| "foldR f (i # is) s = bindR (f i s) (foldR f is)"

lemma foldR_append: "foldR f (xs @ ys) s = bindR (foldR f xs s) (foldR f ys)"
proof (induction xs arbitrary: s)
  case (Cons a xs)
  then show ?case by (cases "f a s") simp_all
qed simp

lemma foldR_Val: "(\<And>i s. i \<in> set is \<Longrightarrow> f i s = Val (g i s)) \<Longrightarrow> foldR f is s = Val (fold g is s)"
  by (induction "is" arbitrary: s) auto

text \<open>The rule for a counting loop: an invariant indexed by the number of
  iterations done, kept by each, holds at the end, and no iteration panics.\<close>

lemma foldR_upt_invariant:
  assumes base: "I a s" and le: "a \<le> b"
    and step: "\<And>i s. a \<le> i \<Longrightarrow> i < b \<Longrightarrow> I i s \<Longrightarrow> \<exists>s'. f i s = Val s' \<and> I (Suc i) s'"
  shows "\<exists>s'. foldR f [a..<b] s = Val s' \<and> I b s'"
  using le base step
proof (induction b arbitrary: s rule: dec_induct)
  case base
  then show ?case by simp
next
  case (step n)
  then obtain s' where "foldR f [a..<n] s = Val s'" "I n s'"
    by (metis less_Suc_eq)
  moreover obtain s'' where "f n s' = Val s''" "I (Suc n) s''"
    using step.prems(2)[of n s'] step.hyps \<open>I n s'\<close> by auto
  ultimately show ?case
    using step.hyps by (auto simp: foldR_append)
qed

section \<open>Counters\<close>

lemma unat_add_one: "(x :: 'a::len word) \<noteq> - 1 \<Longrightarrow> unat (x + 1) = Suc (unat x)"
  using unatSuc[of x] eq_neg_iff_add_eq_0[of x 1] by (simp add: add.commute)

lemma word_less_Suc: "(x :: 'a::len word) \<noteq> - 1 \<Longrightarrow> i < x + 1 \<longleftrightarrow> i \<le> x"
  by (simp add: word_less_nat_alt word_le_nat_alt unat_add_one less_Suc_eq_le)

section \<open>Sorted lists\<close>

lemma strict_sorted_nth_less:
  fixes xs :: "'a::linorder list"
  assumes "sorted_wrt (<) xs" "i < j" "j < length xs"
  shows "xs ! i < xs ! j"
  using assms by (simp add: sorted_wrt_nth_less)

lemma filter_empty_nth: "(\<And>i. i < length xs \<Longrightarrow> \<not> P (xs ! i)) \<Longrightarrow> filter P xs = []"
  by (metis filter_False in_set_conv_nth)

lemma filter_single_nth:
  assumes "i < length xs" "P (xs ! i)"
    and "\<And>j. j < length xs \<Longrightarrow> j \<noteq> i \<Longrightarrow> \<not> P (xs ! j)"
  shows "filter P xs = [xs ! i]"
proof -
  have "filter P (take i xs) = []" "filter P (drop (Suc i) xs) = []"
    using assms by (auto intro!: filter_empty_nth)
  then show ?thesis
    using assms id_take_nth_drop[OF assms(1)]
    by (metis append_Nil filter.simps(2) filter_append)
qed

lemma filter_two_nth:
  assumes "i < j" "j < length xs" "P (xs ! i)" "P (xs ! j)"
  shows "2 \<le> length (filter P xs)"
proof -
  have "{i, j} \<subseteq> {k. k < length xs \<and> P (xs ! k)}"
    using assms by auto
  then have "card {i, j} \<le> length (filter P xs)"
    by (auto simp: length_filter_conv_card intro: card_mono)
  then show ?thesis using assms by simp
qed

end
