(* ===== verification/Int_Lookup.thy ===== *)
theory Int_Lookup
  imports Prelude
begin

text \<open>
  \<open>llib/src/intlookup.rs\<close>: the compile-time table from names to values that
  every command dispatcher uses. Names are packed big-endian into an integer
  of \<open>T_BITS\<close> bits (the macro instantiates the module at u32, u64 and u128;
  here the width is the word length \<open>'a\<close>), the table is sorted by an insertion
  sort that rejects duplicates, and a lookup finds the entry whose name is the
  query or the only entry that has the query as a prefix. Bytes are \<open>char\<close>s.
\<close>

unbundle bit_operations_syntax

section \<open>Ranges\<close>

record const_range =
  cr_start :: nat
  cr_end :: nat

definition const_range_new :: "nat \<Rightarrow> nat \<Rightarrow> const_range run" where
  "const_range_new s e = (if e > s then Val \<lparr>cr_start = s, cr_end = e\<rparr> else Panic)"

definition const_range_next :: "const_range \<Rightarrow> nat option \<times> const_range" where
  "const_range_next r =
     (if cr_start r < cr_end r
      then (Some (cr_start r), r\<lparr>cr_start := cr_start r + 1\<rparr>)
      else (None, r))"

record const_rev_range =
  crr_curr :: nat
  crr_end :: nat

definition const_rev_range_new :: "nat \<Rightarrow> nat \<Rightarrow> const_rev_range run" where
  "const_rev_range_new s e = (if s \<ge> e then Val \<lparr>crr_curr = s, crr_end = e\<rparr> else Panic)"

definition const_rev_range_next :: "const_rev_range \<Rightarrow> nat option \<times> const_rev_range" where
  "const_rev_range_next r =
     (if crr_curr r > crr_end r
      then (Some (crr_curr r), r\<lparr>crr_curr := crr_curr r - 1\<rparr>)
      else (None, r))"

text \<open>The loop \<open>while let Some(i) = range.next() { body }\<close>.\<close>

function range_loop :: "(nat \<Rightarrow> 's \<Rightarrow> 's run) \<Rightarrow> const_range \<Rightarrow> 's \<Rightarrow> 's run" where
  "range_loop body r s =
     (case const_range_next r of
        (None, r') \<Rightarrow> Val s
      | (Some i, r') \<Rightarrow> bindR (body i s) (range_loop body r'))"
  by pat_completeness auto
termination
  by (relation "measure (\<lambda>(_, r, _). cr_end r - cr_start r)")
     (auto simp: const_range_next_def split: if_splits)

declare range_loop.simps [simp del]

section \<open>Choosing the width\<close>

definition keys_max_bits :: "(string \<times> 'v) list \<Rightarrow> nat run" where
  "keys_max_bits arr =
     (if length arr = 0 then Panic else
      bindR (const_range_new 0 (length arr)) (\<lambda>range.
      bindR (range_loop (\<lambda>i max. bindR (idx arr i) (\<lambda>e.
               let len = length (fst e) in Val (if len > max then len else max)))
             range 0) (\<lambda>max.
      if max = 0 then Panic else Val max)))"

definition key_type_bits :: "(string \<times> 'v) list \<Rightarrow> nat run" where
  "key_type_bits arr = bindR (keys_max_bits arr) (\<lambda>m.
     if m \<le> 4 then Val 32 else if m \<le> 8 then Val 64 else if m \<le> 16 then Val 128 else Panic)"

section \<open>Packing names into integers\<close>

definition t_bytes :: "'a::len itself \<Rightarrow> nat" where
  "t_bytes t = LENGTH('a) div 8"

definition pack :: "string \<Rightarrow> 'a::len word run" where
  "pack bytes =
     (let tb = t_bytes TYPE('a) in
      if \<not> length bytes \<le> tb then Panic
      else if bytes = [] then Panic
      else bindR (const_range_new 0 (length bytes)) (\<lambda>range.
           range_loop (\<lambda>i val. bindR (idx bytes i) (\<lambda>b.
             Val (val OR push_bit ((tb - 1 - i) * 8) (of_char b)))) range 0))"

text \<open>\<open>val.trailing_zeros()\<close> of the standard library.\<close>

definition trailing_zeros :: "'a::len word \<Rightarrow> nat" where
  "trailing_zeros w = length (takeWhile (\<lambda>n. \<not> bit w n) [0..<LENGTH('a)])"

definition packed_len :: "'a::len word \<Rightarrow> nat" where
  "packed_len val =
     (if val = 0 then 0
      else let total_bits = t_bytes TYPE('a) * 8;
               unused_bits = trailing_zeros val;
               occupied_bits = total_bits - unused_bits
           in (occupied_bits + 7) div 8)"

definition unpack :: "nat \<Rightarrow> 'a::len word \<Rightarrow> string run" where
  "unpack LEN val =
     (let tb = t_bytes TYPE('a) in
      if \<not> LEN \<le> tb then Panic
      else if LEN \<noteq> packed_len val then Panic
      else bindR (const_range_new 0 LEN) (\<lambda>range.
           range_loop (\<lambda>i out.
             let shift = (tb - 1 - i) * 8;
                 byte = byte_of (drop_bit shift val AND 0xFF)
             in if byte = CHR 0x00 then Panic else upd out i byte)
           range (replicate LEN (CHR 0x00))))"

section \<open>The table\<close>

datatype ('k, 'v) int_lookup = IntLookup (lkeys: "'k list") (lvals: "'v list")

text \<open>The inner loop of the insertion sort: entries greater than \<open>key\<close> move one
  place up, an equal one is a duplicate. The outer loop then stores the entry
  in the hole.\<close>

primrec sort_shift :: "'a::len word \<Rightarrow> nat \<Rightarrow> 'a word list \<Rightarrow> 'v list
    \<Rightarrow> ('a word list \<times> 'v list \<times> nat) run" where
  "sort_shift key 0 ks vs = Val (ks, vs, 0)"
| "sort_shift key (Suc j) ks vs =
     bindR (idx ks j) (\<lambda>prev_key.
     if key = prev_key then Panic
     else if key \<ge> prev_key then Val (ks, vs, Suc j)
     else bindR (upd ks (Suc j) prev_key) (\<lambda>ks'.
          bindR (idx vs j) (\<lambda>prev_val.
          bindR (upd vs (Suc j) prev_val) (\<lambda>vs'.
          sort_shift key j ks' vs'))))"

definition sort_insert :: "nat \<Rightarrow> 'a::len word list \<times> 'v list \<Rightarrow> ('a word list \<times> 'v list) run" where
  "sort_insert i st =
     bindR (idx (fst st) i) (\<lambda>key.
     bindR (idx (snd st) i) (\<lambda>val.
     bindR (sort_shift key i (fst st) (snd st)) (\<lambda>(ks, vs, j).
     bindR (upd ks j key) (\<lambda>ks'.
     bindR (upd vs j val) (\<lambda>vs'. Val (ks', vs'))))))"

definition sort_table :: "('a::len word, 'v) int_lookup \<Rightarrow> ('a word, 'v) int_lookup run" where
  "sort_table t =
     bindR (const_range_new 0 (length (lkeys t))) (\<lambda>range.
     bindR (range_loop sort_insert range (lkeys t, lvals t)) (\<lambda>(ks, vs).
     Val (IntLookup ks vs)))"

definition min_required_len :: "nat \<Rightarrow> nat" where
  "min_required_len tb = (if tb = 16 then 9 else if tb = 8 then 5 else 0)"

definition int_lookup_new :: "nat \<Rightarrow> (string \<times> 'v) list \<Rightarrow> ('a::len word, 'v) int_lookup run" where
  "int_lookup_new N arr =
     (if length arr \<noteq> N then Panic
      else bindR (keys_max_bits arr) (\<lambda>max_len.
      if \<not> max_len \<le> t_bytes TYPE('a) then Panic
      else if \<not> max_len \<ge> min_required_len (t_bytes TYPE('a)) then Panic
      else bindR (idx arr 0) (\<lambda>first.
      bindR (const_range_new 0 N) (\<lambda>range.
      bindR (range_loop (\<lambda>i (keys, vals).
               bindR (idx arr i) (\<lambda>(name, v).
               bindR (pack name) (\<lambda>k.
               bindR (upd keys i k) (\<lambda>keys'.
               bindR (upd vals i v) (\<lambda>vals'. Val (keys', vals'))))))
             range (replicate N 0, replicate N (snd first))) (\<lambda>(keys, vals).
      sort_table (IntLookup keys vals))))))"

section \<open>Lookup\<close>

text \<open>The lower bound of \<open>lookup_shortest_unique_prefix\<close> on the masked keys.\<close>

function lower_bound :: "'a::len word list \<Rightarrow> 'a word \<Rightarrow> 'a word \<Rightarrow> nat \<Rightarrow> nat \<Rightarrow> nat run" where
  "lower_bound ks msk masked_target low high =
     (if low < high
      then let mid = low + (high - low) div 2
           in bindR (idx ks mid) (\<lambda>k.
              if k AND msk < masked_target
              then lower_bound ks msk masked_target (mid + 1) high
              else lower_bound ks msk masked_target low mid)
      else Val low)"
  by pat_completeness auto
termination
  by (relation "measure (\<lambda>(_, _, _, low, high). high - low)") auto

declare lower_bound.simps [simp del]

definition lookup_shortest_unique_prefix ::
    "('a::len word, 'v) int_lookup \<Rightarrow> string \<Rightarrow> 'v option run" where
  "lookup_shortest_unique_prefix t key =
     (if length key > t_bytes TYPE('a) then Val None
      else bindR (pack key) (\<lambda>target.
        let N = length (lkeys t);
            shift = (t_bytes TYPE('a) - length key) * 8;
            msk = push_bit shift (NOT 0);
            masked_target = target AND msk
        in bindR (lower_bound (lkeys t) msk masked_target 0 N) (\<lambda>low.
           if low < N \<and> (lkeys t ! low) AND msk = masked_target
           then if lkeys t ! low = target
                then bindR (idx (lvals t) low) (\<lambda>v. Val (Some v))
                else if low + 1 < N \<and> (lkeys t ! (low + 1)) AND msk = masked_target
                then Val None
                else bindR (idx (lvals t) low) (\<lambda>v. Val (Some v))
           else Val None)))"

primrec linear_from :: "'a word \<Rightarrow> 'v list \<Rightarrow> nat \<Rightarrow> 'a::len word list \<Rightarrow> 'v option run" where
  "linear_from target vs i [] = Val None"
| "linear_from target vs i (k # ks) =
     (if k = target then bindR (idx vs i) (\<lambda>v. Val (Some v)) else linear_from target vs (Suc i) ks)"

definition lookup_linear :: "('a::len word, 'v) int_lookup \<Rightarrow> 'a word \<Rightarrow> 'v option run" where
  "lookup_linear t target = linear_from target (lvals t) 0 (lkeys t)"

function bsearch :: "'a::len word list \<Rightarrow> 'a word \<Rightarrow> nat \<Rightarrow> nat \<Rightarrow> nat run" where
  "bsearch ks target base sz =
     (if sz > 1
      then let half = sz div 2; mid = base + half
           in bindR (idx ks mid) (\<lambda>k.
              bsearch ks target (if k \<le> target then mid else base) (sz - half))
      else Val base)"
  by pat_completeness auto
termination
  by (relation "measure (\<lambda>(_, _, _, sz). sz)") auto

declare bsearch.simps [simp del]

definition lookup_binary_search :: "('a::len word, 'v) int_lookup \<Rightarrow> 'a word \<Rightarrow> 'v option run" where
  "lookup_binary_search t target =
     bindR (bsearch (lkeys t) target 0 (length (lkeys t))) (\<lambda>base.
     bindR (idx (lkeys t) base) (\<lambda>k.
     if k = target then bindR (idx (lvals t) base) (\<lambda>v. Val (Some v)) else Val None))"

definition lookup :: "('a::len word, 'v) int_lookup \<Rightarrow> string \<Rightarrow> 'v option run" where
  "lookup t key =
     (let sz = t_bytes TYPE('a) in
      if length key > sz then Val None
      else bindR (pack key) (\<lambda>target.
        if False
        then if length (lkeys t) \<le> 16 then lookup_linear t target else lookup_binary_search t target
        else lookup_shortest_unique_prefix t key))"

section \<open>Iteration\<close>

record lookup_key =
  key_data :: string
  key_len :: nat

definition key_as_slice :: "lookup_key \<Rightarrow> string" where
  "key_as_slice k = take (key_len k) (key_data k)"

definition to_be_bytes :: "'a::len word \<Rightarrow> string" where
  "to_be_bytes w =
     map (\<lambda>i. byte_of (drop_bit ((t_bytes TYPE('a) - 1 - i) * 8) w)) [0..<t_bytes TYPE('a)]"

text \<open>\<open>packed >> shift\<close> takes the shift amount modulo the width, which matters for
  the packed value 0 only.\<close>

definition get :: "('a::len word, 'v) int_lookup \<Rightarrow> nat \<Rightarrow> (lookup_key \<times> 'v) option run" where
  "get t i =
     (let tb = t_bytes TYPE('a) in
      if i \<ge> length (lkeys t) then Val None
      else bindR (idx (lkeys t) i) (\<lambda>packed.
           bindR (idx (lvals t) i) (\<lambda>v.
        let len = packed_len packed;
            bytes = to_be_bytes (drop_bit ((tb - len) * 8 mod LENGTH('a)) packed)
        in bindR (foldR (\<lambda>j data. bindR (idx bytes (tb - len + j)) (upd data j))
                   [0..<len] (replicate tb (CHR 0x00))) (\<lambda>data.
           Val (Some (\<lparr>key_data = data, key_len = len\<rparr>, v))))))"

definition get_key :: "('a::len word, 'v) int_lookup \<Rightarrow> nat \<Rightarrow> lookup_key option run" where
  "get_key t i = bindR (get t i) (\<lambda>r. Val (map_option fst r))"

record ('k, 'v) table_iter =
  it_table :: "('k, 'v) int_lookup"
  it_idx :: nat

definition iter :: "('a::len word, 'v) int_lookup \<Rightarrow> ('a word, 'v) table_iter" where
  "iter t = \<lparr>it_table = t, it_idx = 0\<rparr>"

definition iter_next ::
    "('a::len word, 'v) table_iter \<Rightarrow> ((lookup_key \<times> 'v) option \<times> ('a word, 'v) table_iter) run" where
  "iter_next it = bindR (get (it_table it) (it_idx it)) (\<lambda>r.
     case r of Some x \<Rightarrow> Val (Some x, it\<lparr>it_idx := it_idx it + 1\<rparr>)
             | None \<Rightarrow> Val (None, it))"

text \<open>What \<open>for (key, val) in table.iter()\<close> visits.\<close>

function iter_collect :: "('a::len word, 'v) table_iter \<Rightarrow> (string \<times> 'v) list run" where
  "iter_collect it = bindR (iter_next it) (\<lambda>(r, it').
     case r of None \<Rightarrow> Val []
             | Some (k, v) \<Rightarrow> bindR (iter_collect it') (\<lambda>rest. Val ((key_as_slice k, v) # rest)))"
  by pat_completeness auto
termination
  by (relation "measure (\<lambda>it. length (lkeys (it_table it)) - it_idx it)")
     (auto simp: iter_next_def get_def bindR_eq_Val Let_def split: option.splits if_splits)

declare iter_collect.simps [simp del]

section \<open>The loop over a range is a fold\<close>

lemma range_loop_fold:
  "range_loop body \<lparr>cr_start = a, cr_end = b\<rparr> s = foldR body [a..<b] s"
proof (induction "b - a" arbitrary: a s)
  case 0
  then show ?case by (simp add: range_loop.simps const_range_next_def)
next
  case (Suc n)
  then have "a < b" "n = b - Suc a" by auto
  then show ?case
    using Suc.hyps(1)[of "Suc a"]
    by (cases "body a s")
       (simp_all add: range_loop.simps[of _ "\<lparr>cr_start = a, cr_end = b\<rparr>"]
          const_range_next_def upt_conv_Cons)
qed

lemma bind_const_range_new [simp]:
  "bindR (const_range_new 0 n) (\<lambda>r. bindR (range_loop body r s) g)
     = (if n = 0 then Panic else bindR (foldR body [0..<n] s) g)"
  "bindR (const_range_new 0 n) (\<lambda>r. range_loop body r s)
     = (if n = 0 then Panic else foldR body [0..<n] s)"
  by (auto simp: const_range_new_def range_loop_fold)

section \<open>Byte strings as numbers in base 256\<close>

primrec bval :: "string \<Rightarrow> nat" where
  "bval [] = 0"
| "bval (b # bs) = of_char b * 256 ^ length bs + bval bs"

lemma bval_less: "bval bs < 256 ^ length bs"
proof (induction bs)
  case (Cons b bs)
  have "(of_char b + 1) * (256::nat) ^ length bs \<le> 256 * 256 ^ length bs"
    using of_char_less_256[of b] by (intro mult_right_mono) linarith+
  then have "of_char b * (256::nat) ^ length bs + 256 ^ length bs \<le> 256 * 256 ^ length bs"
    by (simp only: distrib_right mult_1)
  with Cons have "of_char b * (256::nat) ^ length bs + bval bs < 256 * 256 ^ length bs"
    by linarith
  then show ?case by simp
qed simp

lemma bval_append: "bval (xs @ ys) = bval xs * 256 ^ length ys + bval ys"
  by (induction xs) (auto simp: algebra_simps power_add)

lemma bval_replicate_NUL [simp]: "bval (replicate n (CHR 0x00)) = 0"
  by (induction n) simp_all

lemma base_split_less:
  fixes q :: nat
  assumes "x < q" "y < q"
  shows "a * q + x < b * q + y \<longleftrightarrow> a < b \<or> (a = b \<and> x < y)"
proof -
  have *: "c * q + u < d * q + w" if "c < d" "u < q" for c d u w
  proof -
    have "(c + 1) * q \<le> d * q" using that by (intro mult_right_mono) auto
    then show ?thesis using that by (simp add: algebra_simps)
  qed
  show ?thesis
    using *[of a b x y] *[of b a y x] assms
    by (metis add_less_cancel_left less_asym linorder_less_linear)
qed

lemma bval_less_iff:
  "length xs = length ys \<Longrightarrow> bval xs < bval ys \<longleftrightarrow> ord_class.lexordp xs ys"
proof (induction xs ys rule: list_induct2)
  case (Cons x xs y ys)
  then show ?case
    using base_split_less[of "bval xs" "256 ^ length xs" "bval ys" "of_char x" "of_char y"]
      bval_less[of xs] bval_less[of ys]
    by (auto simp: less_char_def of_char_eq_iff)
qed simp

lemma bval_inj: "length xs = length ys \<Longrightarrow> bval xs = bval ys \<Longrightarrow> xs = ys"
proof (induction xs ys rule: list_induct2)
  case (Cons x xs y ys)
  have b: "bval xs < 256 ^ length xs" "bval ys < 256 ^ length xs"
    using bval_less[of xs] bval_less[of ys] Cons.hyps by auto
  have "of_char x * 256 ^ length xs + bval xs = of_char y * 256 ^ length xs + bval ys"
    using Cons.prems Cons.hyps by simp
  then have "(of_char x :: nat) = of_char y"
    using base_split_less[OF b, of "of_char x" "of_char y"] base_split_less[OF b(2,1), of "of_char y" "of_char x"]
    by (metis less_irrefl linorder_neqE_nat)
  then show ?case using Cons.prems Cons.hyps Cons.IH of_char_nat_inj by simp
qed simp

lemma bval_take_div:
  "n \<le> length bs \<Longrightarrow> bval bs div 256 ^ (length bs - n) = bval (take n bs)"
  using bval_append[of "take n bs" "drop n bs"] bval_less[of "drop n bs"] by simp

lemma t_bytes_bits: "8 dvd LENGTH('a::len) \<Longrightarrow> 8 * t_bytes TYPE('a) = LENGTH('a)"
  by (simp add: t_bytes_def)

lemma t_bytes_pos: "8 dvd LENGTH('a::len) \<Longrightarrow> 0 < t_bytes TYPE('a)"
  using t_bytes_bits[where 'a='a] len_gt_0[where 'a='a] by (cases "t_bytes TYPE('a)") auto

lemma bit_of_char_nat: "bit (of_char b :: nat) n \<Longrightarrow> n < 8"
proof -
  have "take_bit 8 (of_char b :: nat) = of_char b"
    using of_char_less_256[of b] by (simp add: take_bit_nat_eq_self)
  then show "bit (of_char b :: nat) n \<Longrightarrow> n < 8"
    by (metis bit_take_bit_iff)
qed

lemma bit_of_char_word: "bit (of_char b :: 'a::len word) n \<Longrightarrow> n < 8"
  using bit_of_char_nat[of b n] by (metis bit_of_nat_iff of_nat_of_char)

lemma pack_step:
  assumes "i < t_bytes TYPE('a::len)"
  shows "(of_nat v * 2 ^ (8 * (t_bytes TYPE('a) - i)) :: 'a word)
           OR push_bit ((t_bytes TYPE('a) - 1 - i) * 8) (of_char b)
       = of_nat (v * 256 + of_char b) * 2 ^ (8 * (t_bytes TYPE('a) - Suc i))"
proof -
  define k where "k = (t_bytes TYPE('a) - Suc i) * 8"
  have k: "8 * (t_bytes TYPE('a) - i) = k + 8" "(t_bytes TYPE('a) - 1 - i) * 8 = k"
    "8 * (t_bytes TYPE('a) - Suc i) = k"
    using assms by (auto simp: k_def)
  have "(of_nat v * 2 ^ (k + 8) :: 'a word) = push_bit (k + 8) (of_nat v)"
    by (simp add: push_bit_eq_mult)
  moreover have "push_bit (k + 8) (of_nat v :: 'a word) OR push_bit k (of_char b)
      = push_bit (k + 8) (of_nat v) + push_bit k (of_char b)"
  proof (rule disjunctive_add_eq_or [symmetric], rule bit_eqI)
    fix n
    have "\<not> (bit (push_bit (k + 8) (of_nat v :: 'a word)) n \<and> bit (push_bit k (of_char b :: 'a word)) n)"
      using bit_of_char_word[where 'a='a, of b "n - k"] by (simp only: bit_push_bit_iff) linarith
    then show "bit (push_bit (k + 8) (of_nat v :: 'a word) AND push_bit k (of_char b)) n
        \<longleftrightarrow> bit (0 :: 'a word) n"
      by (simp only: bit_and_iff bit_0_eq bot_apply bot_bool_def simp_thms)
  qed
  ultimately show ?thesis
    unfolding k by (simp add: push_bit_eq_mult power_add algebra_simps of_nat_of_char)
qed

lemma pack_loop:
  fixes bs :: string
  assumes "length bs \<le> t_bytes TYPE('a::len)" "bs \<noteq> []"
  shows "pack bs = Val (of_nat (bval bs) * 2 ^ (8 * (t_bytes TYPE('a) - length bs)) :: 'a word)"
proof -
  let ?T = "t_bytes TYPE('a)"
  let ?f = "\<lambda>i val. bindR (idx bs i) (\<lambda>b. Val (val OR push_bit ((?T - 1 - i) * 8) (of_char b :: 'a word)))"
  have "\<exists>s'. foldR ?f [0..<length bs] 0 = Val s' \<and>
      s' = of_nat (bval (take (length bs) bs)) * 2 ^ (8 * (?T - length bs))"
  proof (rule foldR_upt_invariant[where I = "\<lambda>i s. s = of_nat (bval (take i bs)) * 2 ^ (8 * (?T - i))"])
    fix i and s :: "'a word"
    assume "i < length bs" and s: "s = of_nat (bval (take i bs)) * 2 ^ (8 * (?T - i))"
    then show "\<exists>s'. ?f i s = Val s' \<and> s' = of_nat (bval (take (Suc i) bs)) * 2 ^ (8 * (?T - Suc i))"
      using assms pack_step[where 'a='a, of i "bval (take i bs)" "bs ! i"]
      by (simp add: take_Suc_conv_app_nth bval_append)
  qed simp_all
  then show ?thesis
    using assms by (simp add: pack_def Let_def)
qed

lemma pack_bound:
  assumes "8 dvd LENGTH('a::len)" "length bs \<le> t_bytes TYPE('a)"
  shows "bval bs * 256 ^ (t_bytes TYPE('a) - length bs) < 2 ^ LENGTH('a)"
proof -
  have "bval bs * 256 ^ (t_bytes TYPE('a) - length bs)
      < 256 ^ length bs * 256 ^ (t_bytes TYPE('a) - length bs)"
    using bval_less[of bs] by (intro mult_strict_right_mono) auto
  also have "\<dots> = 256 ^ t_bytes TYPE('a)"
    using assms(2) by (simp flip: power_add)
  also have "\<dots> = 2 ^ LENGTH('a)"
    using t_bytes_bits[OF assms(1)] power_mult[of "2::nat" 8 "t_bytes TYPE('a)"] by simp
  finally show ?thesis .
qed

definition pad :: "'a::len itself \<Rightarrow> string \<Rightarrow> string" where
  "pad t bs = bs @ replicate (t_bytes TYPE('a) - length bs) (CHR 0x00)"

lemma length_pad [simp]: "length bs \<le> t_bytes TYPE('a::len) \<Longrightarrow> length (pad TYPE('a) bs) = t_bytes TYPE('a)"
  by (simp add: pad_def)

lemma bval_pad: "bval (pad TYPE('a::len) bs) = bval bs * 256 ^ (t_bytes TYPE('a) - length bs)"
  by (simp add: pad_def bval_append)

lemma pack_Val:
  assumes "8 dvd LENGTH('a::len)" "length bs \<le> t_bytes TYPE('a)" "bs \<noteq> []"
  obtains w :: "'a::len word" where "pack bs = Val w" "unat w = bval (pad TYPE('a) bs)"
proof -
  have "unat (of_nat (bval bs) * 2 ^ (8 * (t_bytes TYPE('a) - length bs)) :: 'a word)
      = unat (of_nat (bval bs * 256 ^ (t_bytes TYPE('a) - length bs)) :: 'a word)"
    by (simp add: power_mult)
  also have "\<dots> = bval (pad TYPE('a) bs)"
    using pack_bound[OF assms(1,2)]
    by (simp only: bval_pad unat_of_nat mod_less)
  finally show ?thesis
    using that pack_loop[OF assms(2,3)] by blast
qed

lemma pack_eq_Panic_iff: "pack bs = (Panic :: 'a::len word run) \<longleftrightarrow> bs = [] \<or> t_bytes TYPE('a) < length bs"
  using pack_loop[where 'a='a, of bs] by (auto simp: pack_def Let_def)

lemma pad_inj:
  assumes "nul_free a" "nul_free b" "pad TYPE('a::len) a = pad TYPE('a) b"
  shows "a = b"
proof -
  have *: "filter (\<lambda>c. c \<noteq> CHR 0x00) (pad TYPE('a) x) = x" if "nul_free x" for x
    using that by (auto simp: pad_def nul_free_def filter_id_conv)
  show ?thesis using *[OF assms(1)] *[OF assms(2)] assms(3) by metis
qed

lemma take_pad_eq_iff:
  assumes "nul_free q" "length q \<le> t_bytes TYPE('a::len)"
  shows "take (length q) (pad TYPE('a) k) = q \<longleftrightarrow> prefix q k"
proof (cases "length q \<le> length k")
  case True
  then show ?thesis
    by (auto simp: pad_def prefix_def) (metis append_take_drop_id)
next
  case False
  then have "take (length q) (pad TYPE('a) k) ! length k = CHR 0x00" and "length k < length q"
    using assms by (auto simp: pad_def nth_append)
  then have "take (length q) (pad TYPE('a) k) \<noteq> q"
    using assms nth_mem[of "length k" q] unfolding nul_free_def by metis
  then show ?thesis using False prefix_length_le by blast
qed

section \<open>Masks\<close>

lemma and_high_mask: "x AND push_bit s (NOT 0) = push_bit s (drop_bit s x)" for x :: "'a::len word"
  by (rule bit_eqI) (auto simp: bit_simps)

lemma unat_and_high_mask: "unat (x AND push_bit s (NOT 0)) = unat x div 2 ^ s * 2 ^ s" for x :: "'a::len word"
proof -
  have "unat x div 2 ^ s * 2 ^ s < 2 ^ LENGTH('a)"
    by (rule le_less_trans[OF div_times_less_eq_dividend unsigned_less])
  then show ?thesis
    unfolding and_high_mask unsigned_push_bit_eq unat_drop_bit_eq
    by (simp only: push_bit_eq_mult drop_bit_eq_div take_bit_nat_eq_self)
qed

lemma packed_mask:
  assumes "8 dvd LENGTH('a::len)" "n \<le> t_bytes TYPE('a)" "length k \<le> t_bytes TYPE('a)"
    and w: "pack k = Val (w :: 'a word)"
  shows "unat (w AND push_bit ((t_bytes TYPE('a) - n) * 8) (NOT 0))
       = bval (take n (pad TYPE('a) k)) * 256 ^ (t_bytes TYPE('a) - n)"
proof -
  have "k \<noteq> []" using w by (auto simp: pack_def Let_def)
  then have "unat w = bval (pad TYPE('a) k)"
    using pack_Val[OF assms(1,3)] w by fastforce
  moreover have "(2::nat) ^ ((t_bytes TYPE('a) - n) * 8) = 256 ^ (t_bytes TYPE('a) - n)"
    using power_mult[of "2::nat" 8 "t_bytes TYPE('a) - n"] by (simp add: mult.commute)
  ultimately show ?thesis
    using bval_take_div[of n "pad TYPE('a) k"] assms(2,3) by (simp only: unat_and_high_mask length_pad)
qed

section \<open>Lower bound\<close>

lemma lower_bound_done: "\<not> low < high \<Longrightarrow> lower_bound ks m t low high = Val low"
  by (simp add: lower_bound.simps)

lemma lower_bound_correct:
  assumes "\<And>i j. i < j \<Longrightarrow> j < length ks \<Longrightarrow> ks ! i AND m \<le> ks ! j AND m"
    and "low \<le> high" "high \<le> length ks"
  shows "\<exists>r. lower_bound ks m t low high = Val r \<and> low \<le> r \<and> r \<le> high
           \<and> (\<forall>i. low \<le> i \<and> i < r \<longrightarrow> ks ! i AND m < t)
           \<and> (\<forall>i. r \<le> i \<and> i < high \<longrightarrow> t \<le> ks ! i AND m)"
  using assms
proof (induction ks m t low high rule: lower_bound.induct)
  case (1 ks m t low high)
  show ?case
  proof (cases "low < high")
    case False
    then show ?thesis using "1.prems"
      by (intro exI[of _ low]) (auto simp: lower_bound_done)
  next
    case True
    define mid where "mid = low + (high - low) div 2"
    have mid: "low \<le> mid" "mid < high" "mid < length ks"
      using True "1.prems" by (auto simp: mid_def)
    note mono = "1.prems"(1)
    show ?thesis
    proof (cases "ks ! mid AND m < t")
      case lt: True
      have below: "ks ! i AND m < t" if "i \<le> mid" for i
        using mono[of i mid] mid that lt by (cases "i = mid") auto
      obtain r where "lower_bound ks m t (mid + 1) high = Val r" "mid + 1 \<le> r" "r \<le> high"
        "\<forall>i. mid + 1 \<le> i \<and> i < r \<longrightarrow> ks ! i AND m < t" "\<forall>i. r \<le> i \<and> i < high \<longrightarrow> t \<le> ks ! i AND m"
        using "1.IH"(1)[OF True mid_def, of "ks ! mid"] mono mid lt "1.prems"(3) by auto
      then show ?thesis
        using below mid True lt
        by (intro exI[of _ r]) (auto simp: lower_bound.simps[of ks m t low high] mid_def[symmetric] Let_def
            not_less_eq_eq Suc_le_eq, metis not_less)
    next
      case ge: False
      have above: "t \<le> ks ! i AND m" if "mid \<le> i" "i < length ks" for i
        using mono[of mid i] mid that ge by (cases "i = mid") auto
      obtain r where "lower_bound ks m t low mid = Val r" "low \<le> r" "r \<le> mid"
        "\<forall>i. low \<le> i \<and> i < r \<longrightarrow> ks ! i AND m < t" "\<forall>i. r \<le> i \<and> i < mid \<longrightarrow> t \<le> ks ! i AND m"
        using "1.IH"(2)[OF True mid_def, of "ks ! mid"] mono mid ge by auto
      then show ?thesis
        using above mid True ge "1.prems"(3)
        by (intro exI[of _ r]) (auto simp: lower_bound.simps[of ks m t low high] mid_def[symmetric] Let_def,
            metis not_less order_less_le_trans)
    qed
  qed
qed

section \<open>Insertion sort\<close>

lemma sort_shift_dup:
  "j < length ks \<Longrightarrow> sorted_wrt (<) (take j ks) \<Longrightarrow> key \<in> set (take j ks) \<Longrightarrow> length vs = length ks
    \<Longrightarrow> sort_shift key j ks vs = Panic"
proof (induction j arbitrary: ks vs)
  case (Suc j)
  have srt: "sorted_wrt (<) (take j ks)" and last: "\<forall>x\<in>set (take j ks). x < ks ! j"
    using Suc.prems(1,2) by (auto simp: take_Suc_conv_app_nth sorted_wrt_append)
  show ?case
  proof (cases "key = ks ! j")
    case False
    then have "key \<in> set (take j ks)" using Suc.prems by (auto simp: take_Suc_conv_app_nth)
    then show ?thesis using Suc.IH[of "ks[Suc j := ks ! j]" "vs[Suc j := vs ! j]"] Suc.prems srt last
      by (auto simp: not_le)
  qed (use Suc.prems in simp)
qed simp

lemma sort_shift_Val:
  "j < length ks \<Longrightarrow> sorted_wrt (<) (take j ks) \<Longrightarrow> key \<notin> set (take j ks) \<Longrightarrow> length vs = length ks \<Longrightarrow>
   \<exists>j' ks' vs'. sort_shift key j ks vs = Val (ks', vs', j') \<and> j' \<le> j
     \<and> length ks' = length ks \<and> length vs' = length ks
     \<and> ks'[j' := key] = take j' ks @ key # drop j' (take j ks) @ drop (Suc j) ks
     \<and> vs'[j' := val] = take j' vs @ val # drop j' (take j vs) @ drop (Suc j) vs
     \<and> (\<forall>x\<in>set (take j' ks). x < key) \<and> (\<forall>x\<in>set (drop j' (take j ks)). key < x)"
proof (induction j arbitrary: ks vs)
  case 0
  then show ?case by (cases ks; cases vs) auto
next
  case (Suc j)
  have srt: "sorted_wrt (<) (take j ks)" and last: "\<forall>x\<in>set (take j ks). x < ks ! j"
    and key: "key \<noteq> ks ! j" "key \<notin> set (take j ks)"
    using Suc.prems(1-3) by (auto simp: take_Suc_conv_app_nth sorted_wrt_append)
  show ?case
  proof (cases "key \<ge> ks ! j")
    case True
    then have "\<forall>x\<in>set (take (Suc j) ks). x < key"
      using last key Suc.prems(1) by (fastforce simp: take_Suc_conv_app_nth)
    then show ?thesis
      using True key Suc.prems
      by (intro exI[of _ "Suc j"] exI[of _ ks] exI[of _ vs]) (simp add: upd_conv_take_nth_drop)
  next
    case False
    let ?ks = "ks[Suc j := ks ! j]" and ?vs = "vs[Suc j := vs ! j]"
    obtain j' ks' vs' where IH: "sort_shift key j ?ks ?vs = Val (ks', vs', j')" "j' \<le> j"
      "length ks' = length ks" "length vs' = length ks"
      "ks'[j' := key] = take j' ?ks @ key # drop j' (take j ?ks) @ drop (Suc j) ?ks"
      "vs'[j' := val] = take j' ?vs @ val # drop j' (take j ?vs) @ drop (Suc j) ?vs"
      "\<forall>x\<in>set (take j' ?ks). x < key" "\<forall>x\<in>set (drop j' (take j ?ks)). key < x"
      using Suc.IH[of ?ks ?vs] Suc.prems srt key by auto
    have drop_take: "drop j' (take (Suc j) ks) = drop j' (take j ks) @ [ks ! j]"
      "drop j' (take (Suc j) vs) = drop j' (take j vs) @ [vs ! j]"
      using Suc.prems IH(2) by (simp_all add: take_Suc_conv_app_nth)
    show ?thesis
      using IH False key Suc.prems drop_take drop_Suc_update[of j ks] drop_Suc_update[of j vs]
      by (intro exI[of _ j'] exI[of _ ks'] exI[of _ vs']) auto
  qed
qed

lemma zip_remove_nth:
  assumes "i < length ks" "length vs = length ks"
  shows "zip ks vs = zip (take i ks) (take i vs) @ (ks ! i, vs ! i) # zip (drop (Suc i) ks) (drop (Suc i) vs)"
proof -
  have "zip ks vs = take i (zip ks vs) @ zip ks vs ! i # drop (Suc i) (zip ks vs)"
    using assms by (intro id_take_nth_drop) simp
  then show ?thesis using assms by (simp add: take_zip drop_zip)
qed

lemma sort_insert_Val:
  assumes "i < length ks" "length vs = length ks" "sorted_wrt (<) (take i ks)" "ks ! i \<notin> set (take i ks)"
  shows "\<exists>ks' vs'. sort_insert i (ks, vs) = Val (ks', vs') \<and> length ks' = length ks \<and> length vs' = length ks
    \<and> sorted_wrt (<) (take (Suc i) ks') \<and> set (take (Suc i) ks') = set (take (Suc i) ks)
    \<and> drop (Suc i) ks' = drop (Suc i) ks \<and> mset (zip ks' vs') = mset (zip ks vs)"
proof -
  obtain j ks' vs' where S: "sort_shift (ks ! i) i ks vs = Val (ks', vs', j)" "j \<le> i"
    "length ks' = length ks" "length vs' = length ks"
    "ks'[j := ks ! i] = take j ks @ ks ! i # drop j (take i ks) @ drop (Suc i) ks"
    "vs'[j := vs ! i] = take j vs @ vs ! i # drop j (take i vs) @ drop (Suc i) vs"
    "\<forall>x\<in>set (take j ks). x < ks ! i" "\<forall>x\<in>set (drop j (take i ks)). ks ! i < x"
    using sort_shift_Val[OF assms(1,3,4,2), of "vs ! i"] by blast
  let ?ks = "ks'[j := ks ! i]" and ?vs = "vs'[j := vs ! i]"
  have split: "take i ks = take j ks @ drop j (take i ks)" "take i vs = take j vs @ drop j (take i vs)"
    using append_take_drop_id[of j "take i ks"] append_take_drop_id[of j "take i vs"] S(2)
    by (simp_all add: min_absorb1)
  have take: "take (Suc i) ?ks = take j ks @ ks ! i # drop j (take i ks)"
    unfolding S(5) using assms(1) S(2) by (simp add: Suc_diff_le)
  have "sorted_wrt (<) (take j ks @ drop j (take i ks))"
    using assms(3) split(1) by simp
  then have "sorted_wrt (<) (take (Suc i) ?ks)"
    unfolding take using S(7,8) by (auto simp: sorted_wrt_append)
  moreover have "set (take (Suc i) ?ks) = set (take (Suc i) ks)"
    unfolding take using arg_cong[OF split(1), of set] assms(1) by (auto simp: take_Suc_conv_app_nth)
  moreover have "drop (Suc i) ?ks = drop (Suc i) ks"
    unfolding S(5) using assms(1) S(2) by (simp add: Suc_diff_le)
  moreover have "zip ?ks ?vs = zip (take j ks) (take j vs) @ (ks ! i, vs ! i)
      # zip (drop j (take i ks)) (drop j (take i vs)) @ zip (drop (Suc i) ks) (drop (Suc i) vs)"
    unfolding S(5,6) using assms(1,2) S(2) by simp
  then have "mset (zip ?ks ?vs) = mset (zip ks vs)"
    using zip_remove_nth[OF assms(1,2)] split assms(1,2) S(2)
    by (metis (no_types, lifting) union_mset_add_mset_right add_mset_add_single append_assoc length_take
        mset.simps(2) mset_append zip_append)
  moreover have "sort_insert i (ks, vs) = Val (?ks, ?vs)"
    using assms(1,2) S(1-4) by (simp add: sort_insert_def)
  ultimately show ?thesis using S(3,4) by (intro exI[of _ ?ks] exI[of _ ?vs]) simp
qed

lemma sort_insert_dup:
  assumes "i < length ks" "length vs = length ks" "sorted_wrt (<) (take i ks)" "ks ! i \<in> set (take i ks)"
  shows "sort_insert i (ks, vs) = Panic"
  using sort_shift_dup[OF assms(1,3,4,2)] assms by (simp add: sort_insert_def)

lemma sort_prefix:
  assumes "length vs0 = length ks0" "n \<le> length ks0" "distinct (take n ks0)"
  shows "\<exists>ks vs. foldR sort_insert [0..<n] (ks0, vs0) = Val (ks, vs) \<and> length ks = length ks0 \<and> length vs = length ks0
    \<and> sorted_wrt (<) (take n ks) \<and> set (take n ks) = set (take n ks0)
    \<and> drop n ks = drop n ks0 \<and> mset (zip ks vs) = mset (zip ks0 vs0)"
  using assms(2,3)
proof (induction n)
  case (Suc n)
  then have d: "distinct (take n ks0)" "ks0 ! n \<notin> set (take n ks0)"
    by (auto simp: take_Suc_conv_app_nth)
  obtain ks vs where IH: "foldR sort_insert [0..<n] (ks0, vs0) = Val (ks, vs)" "length ks = length ks0"
    "length vs = length ks0" "sorted_wrt (<) (take n ks)" "set (take n ks) = set (take n ks0)"
    "drop n ks = drop n ks0" "mset (zip ks vs) = mset (zip ks0 vs0)"
    using Suc d by auto
  have nth: "ks ! n = ks0 ! n" "drop (Suc n) ks = drop (Suc n) ks0"
    using IH(2,6) Suc.prems(1) by (metis Suc_le_lessD hd_drop_conv_nth, metis drop_Suc tl_drop)
  obtain ks' vs' where "sort_insert n (ks, vs) = Val (ks', vs')" "length ks' = length ks" "length vs' = length ks"
    "sorted_wrt (<) (take (Suc n) ks')" "set (take (Suc n) ks') = set (take (Suc n) ks)"
    "drop (Suc n) ks' = drop (Suc n) ks" "mset (zip ks' vs') = mset (zip ks vs)"
    using sort_insert_Val[of n ks vs] IH nth d Suc.prems by auto
  then show ?case
    using IH nth Suc.prems by (simp add: foldR_append take_Suc_conv_app_nth)
qed (use assms(1) in simp)

lemma sort_table_distinct:
  assumes "length vs = length ks" "ks \<noteq> []" "distinct ks"
  obtains ks' vs' where "sort_table (IntLookup ks vs) = Val (IntLookup ks' vs')"
    "sorted_wrt (<) ks'" "length vs' = length ks'" "mset (zip ks' vs') = mset (zip ks vs)"
  using sort_prefix[OF assms(1), of "length ks"] assms that
  by (fastforce simp: sort_table_def)

lemma first_duplicate:
  "\<not> distinct xs \<Longrightarrow> \<exists>n<length xs. distinct (take n xs) \<and> xs ! n \<in> set (take n xs)"
proof (induction xs rule: rev_induct)
  case (snoc x xs)
  then show ?case
  proof (cases "distinct xs")
    case True
    then show ?thesis using snoc.prems by (intro exI[of _ "length xs"]) auto
  next
    case False
    then show ?thesis using snoc.IH by (auto simp: nth_append intro: less_SucI)
  qed
qed simp

lemma sort_table_duplicate:
  assumes "length vs = length ks" "\<not> distinct ks"
  shows "sort_table (IntLookup ks vs) = Panic"
proof -
  obtain n where n: "n < length ks" "distinct (take n ks)" "ks ! n \<in> set (take n ks)"
    using first_duplicate[OF assms(2)] by blast
  obtain ks' vs' where P: "foldR sort_insert [0..<n] (ks, vs) = Val (ks', vs')" "length ks' = length ks"
    "length vs' = length ks" "sorted_wrt (<) (take n ks')" "set (take n ks') = set (take n ks)"
    "drop n ks' = drop n ks"
    using sort_prefix[OF assms(1) _ n(2)] n(1) by auto
  have "ks' ! n = ks ! n" using P(2,6) n(1) by (metis hd_drop_conv_nth)
  then have "sort_insert n (ks', vs') = Panic"
    using sort_insert_dup[of n ks' vs'] P n by auto
  moreover have "[0..<length ks] = [0..<n] @ n # [Suc n..<length ks]"
    using n(1) by (metis append_Cons append_Nil upt_add_eq_append upt_conv_Cons less_imp_le_nat le0 le_add_diff_inverse)
  ultimately have "foldR sort_insert [0..<length ks] (ks, vs) = Panic"
    using P(1) by (simp add: foldR_append)
  then show ?thesis using n by (auto simp: sort_table_def)
qed

section \<open>Building the table\<close>

lemma foldR_upt_nth:
  "foldR (\<lambda>i s. bindR (idx xs i) (\<lambda>x. f x s)) [0..<length xs] s = foldR f xs s"
proof -
  have "foldR (\<lambda>i s. bindR (idx (ys @ xs) i) (\<lambda>x. f x s)) [length ys..<length ys + length xs] s = foldR f xs s" for ys
  proof (induction xs arbitrary: ys s)
    case (Cons x xs)
    have "[length ys..<length ys + length (x # xs)] = length ys # [Suc (length ys)..<Suc (length ys) + length xs]"
      using upt_conv_Cons[of "length ys" "length ys + length (x # xs)"] by (simp del: upt_Suc)
    then show ?case
      using Cons.IH[of "ys @ [x]"] by (cases "f x s") (simp_all add: nth_append)
  qed simp
  from this[of "[]"] show ?thesis by simp
qed

definition longest :: "(string \<times> 'v) list \<Rightarrow> nat" where
  "longest arr = fold (\<lambda>e m. max m (length (fst e))) arr 0"

lemma fold_max_ge: "fold (\<lambda>e m. max m (f e)) arr (a::nat) \<ge> n \<longleftrightarrow> n \<le> a \<or> (\<exists>e\<in>set arr. n \<le> f e)"
  by (induction arr arbitrary: a) (auto simp: le_max_iff_disj)

lemma longest_ge: "n \<le> longest arr \<longleftrightarrow> n = 0 \<or> (\<exists>e\<in>set arr. n \<le> length (fst e))"
  by (simp add: longest_def fold_max_ge)

lemma fold_max_le: "fold (\<lambda>e m. max m (f e)) arr (a::nat) \<le> n \<longleftrightarrow> a \<le> n \<and> (\<forall>e\<in>set arr. f e \<le> n)"
  by (induction arr arbitrary: a) auto

lemma longest_le: "longest arr \<le> n \<longleftrightarrow> (\<forall>e\<in>set arr. length (fst e) \<le> n)"
  by (simp add: longest_def fold_max_le)

lemma keys_max_bits_eq:
  "keys_max_bits arr = (if longest arr = 0 then Panic else Val (longest arr))"
proof (cases "arr = []")
  case False
  have "foldR (\<lambda>i m. bindR (idx arr i) (\<lambda>e. let len = length (fst e) in Val (if len > m then len else m)))
      [0..<length arr] 0 = foldR (\<lambda>e m. Val (max m (length (fst e)))) arr 0"
    by (subst foldR_upt_nth) (auto intro!: arg_cong2[of _ _ _ _ "\<lambda>f. foldR f arr"] ext simp: Let_def max_def)
  also have "\<dots> = Val (longest arr)"
    unfolding longest_def by (rule foldR_Val) simp
  finally show ?thesis using False by (simp add: keys_max_bits_def)
qed (simp add: keys_max_bits_def longest_def)

text \<open>What \<open>new\<close> requires of its entries.\<close>

definition key_ok :: "'a::len itself \<Rightarrow> string \<Rightarrow> bool" where
  "key_ok t k \<longleftrightarrow> k \<noteq> [] \<and> length k \<le> t_bytes TYPE('a) \<and> nul_free k"

definition packed :: "string \<Rightarrow> 'a::len word" where
  "packed k = (case pack k of Val w \<Rightarrow> w | Panic \<Rightarrow> 0)"

lemma pack_packed: "key_ok TYPE('a::len) k \<Longrightarrow> pack k = Val (packed k :: 'a word)"
  using pack_eq_Panic_iff[where 'a='a, of k] by (auto simp: key_ok_def packed_def split: run.splits)

lemma unat_packed:
  assumes "8 dvd LENGTH('a::len)" "key_ok TYPE('a) k"
  shows "unat (packed k :: 'a word) = bval (pad TYPE('a) k)"
  using pack_Val[OF assms(1), of k] assms(2) pack_packed[OF assms(2)] by (auto simp: key_ok_def)

lemma packed_inj:
  assumes "8 dvd LENGTH('a::len)" "key_ok TYPE('a) a" "key_ok TYPE('a) b" "packed a = (packed b :: 'a word)"
  shows "a = b"
proof -
  have "bval (pad TYPE('a) a) = bval (pad TYPE('a) b)"
    using unat_packed[OF assms(1,2)] unat_packed[OF assms(1,3)] assms(4) by simp
  then have "pad TYPE('a) a = pad TYPE('a) b"
    using assms(2,3) by (intro bval_inj) (auto simp: key_ok_def)
  then show ?thesis using assms(2,3) pad_inj[where 'a='a] by (auto simp: key_ok_def)
qed

lemma fill_loop:
  assumes "\<forall>e\<in>set arr. key_ok TYPE('a::len) (fst e)" "length ks0 = length arr" "length vs0 = length arr"
  shows "foldR (\<lambda>i (keys, vals). bindR (idx arr i) (\<lambda>(name, v). bindR (pack name) (\<lambda>k.
      bindR (upd keys i k) (\<lambda>keys'. bindR (upd vals i v) (\<lambda>vals'. Val (keys', vals'))))))
      [0..<length arr] (ks0 :: 'a word list, vs0) = Val (map (packed \<circ> fst) arr, map snd arr)"
    (is "foldR ?f _ _ = _")
proof -
  let ?I = "\<lambda>i (ks, vs). ks = map (packed \<circ> fst) (take i arr) @ drop i ks0 \<and> vs = map snd (take i arr) @ drop i vs0"
  have "\<exists>s. foldR ?f [0..<length arr] (ks0, vs0) = Val s \<and> ?I (length arr) s"
  proof (rule foldR_upt_invariant[where I = ?I])
    fix i s assume i: "i < length arr" and I: "?I i s"
    obtain name v where e: "arr ! i = (name, v)" by (cases "arr ! i")
    then have "pack name = Val (packed name :: 'a word)"
      using assms(1) i pack_packed nth_mem by fastforce
    then show "\<exists>s'. ?f i s = Val s' \<and> ?I (Suc i) s'"
      using i I e assms(2,3)
      by (cases s) (auto simp: take_Suc_conv_app_nth list_update_append Cons_nth_drop_Suc[symmetric])
  qed auto
  then show ?thesis using assms(2,3) by auto
qed

lemma fill_loop_Panic:
  assumes "i < length arr" "fst (arr ! i) = [] \<or> t_bytes TYPE('a::len) < length (fst (arr ! i))"
  shows "foldR (\<lambda>i (keys, vals). bindR (idx arr i) (\<lambda>(name, v). bindR (pack name) (\<lambda>k.
      bindR (upd keys i k) (\<lambda>keys'. bindR (upd vals i v) (\<lambda>vals'. Val (keys', vals'))))))
      [0..<length arr] (ks0 :: 'a word list, vs0) = Panic" (is "foldR ?f _ _ = _")
proof -
  have "?f i s = Panic" for s
    using assms pack_eq_Panic_iff[where 'a='a, of "fst (arr ! i)"]
    by (cases s) (auto simp: split_beta)
  then have "foldR ?f (i # js) s = Panic" for js s by simp
  moreover have "[0..<length arr] = [0..<i] @ i # [Suc i..<length arr]"
    using assms(1) by (metis append_Cons append_Nil upt_add_eq_append upt_conv_Cons less_imp_le_nat le0 le_add_diff_inverse)
  ultimately show ?thesis
    by (simp only: foldR_append) (cases "foldR ?f [0..<i] (ks0, vs0)"; simp)
qed

definition table_ok :: "'a::len itself \<Rightarrow> nat \<Rightarrow> (string \<times> 'v) list \<Rightarrow> bool" where
  "table_ok t N arr \<longleftrightarrow> length arr = N \<and> arr \<noteq> [] \<and> distinct (map fst arr)
     \<and> list_all (\<lambda>k. k \<noteq> [] \<and> length k \<le> t_bytes TYPE('a)) (map fst arr)
     \<and> list_ex (\<lambda>k. min_required_len (t_bytes TYPE('a)) \<le> length k) (map fst arr)"

text \<open>The table \<open>t\<close> holds the entries \<open>es\<close>, in the order of the packed names.\<close>

definition holds :: "('a::len word, 'v) int_lookup \<Rightarrow> (string \<times> 'v) list \<Rightarrow> bool" where
  "holds t es \<longleftrightarrow> t = IntLookup (map (packed \<circ> fst) es) (map snd es)
     \<and> sorted_wrt (<) (lkeys t) \<and> (\<forall>e\<in>set es. key_ok TYPE('a) (fst e))"

lemma table_ok_longest:
  assumes "table_ok TYPE('a::len) N arr"
  shows "longest arr \<noteq> 0" "longest arr \<le> t_bytes TYPE('a)" "min_required_len (t_bytes TYPE('a)) \<le> longest arr"
proof -
  have all: "\<forall>e\<in>set arr. fst e \<noteq> [] \<and> length (fst e) \<le> t_bytes TYPE('a)"
    using assms by (auto simp: table_ok_def list_all_iff)
  have "arr \<noteq> []" using assms by (simp add: table_ok_def)
  then obtain e where "e \<in> set arr" using last_in_set by blast
  then show "longest arr \<noteq> 0" using all longest_ge[of 1 arr] by (metis One_nat_def Suc_leI le_zero_eq length_greater_0_conv zero_neq_one)
  show "longest arr \<le> t_bytes TYPE('a)"
    using all longest_ge[of "Suc (t_bytes TYPE('a))" arr] by (auto simp: not_less_eq_eq[symmetric])
  show "min_required_len (t_bytes TYPE('a)) \<le> longest arr"
    using assms by (auto simp: table_ok_def longest_ge list_ex_iff)
qed

lemma int_lookup_new_holds:
  assumes w: "8 dvd LENGTH('a::len)" and ok: "table_ok TYPE('a) N arr" and nf: "list_all nul_free (map fst arr)"
  obtains t :: "('a::len word, 'v) int_lookup" and es where "int_lookup_new N arr = Val t" "holds t es" "mset es = mset arr"
proof -
  have keys: "\<forall>e\<in>set arr. key_ok TYPE('a) (fst e)"
    using ok nf by (auto simp: table_ok_def key_ok_def list_all_iff)
  have arr: "arr \<noteq> []" "length arr = N" "distinct (map fst arr)"
    using ok by (auto simp: table_ok_def)
  then have N: "0 < N" by auto
  have inj: "inj_on (packed :: string \<Rightarrow> 'a word) (fst ` set arr)"
    using keys packed_inj[OF w] by (auto simp: inj_on_def)
  have d: "distinct (map (packed \<circ> fst :: _ \<Rightarrow> 'a word) arr)"
    using arr(3) inj by (metis distinct_map list.map_comp set_map)
  obtain ks' vs' where S: "sort_table (IntLookup (map (packed \<circ> fst) arr) (map snd arr)) = Val (IntLookup ks' vs')"
    "sorted_wrt (<) (ks' :: 'a word list)" "length vs' = length ks'"
    "mset (zip ks' vs') = mset (zip (map (packed \<circ> fst) arr) (map snd arr))"
    using sort_table_distinct[of "map snd arr" "map (packed \<circ> fst) arr"] arr d by auto
  let ?g = "\<lambda>(k, v). (inv_into (fst ` set arr) packed k, v)"
  let ?es = "map ?g (zip ks' vs')"
  have "zip (map (packed \<circ> fst) arr) (map snd arr) = map (\<lambda>(k, v). (packed k :: 'a word, v)) arr"
    by (induction arr) auto
  then have zs: "mset (zip ks' vs') = image_mset (\<lambda>(k, v). (packed k, v)) (mset arr)"
    using S(4) by simp
  have "mset ?es = image_mset (?g \<circ> (\<lambda>(k, v). (packed k :: 'a word, v))) (mset arr)"
    by (simp only: mset_map zs multiset.map_comp)
  also have "\<dots> = image_mset id (mset arr)"
  proof (rule image_mset_cong)
    fix e assume "e \<in># mset arr"
    then have "fst e \<in> fst ` set arr" by simp
    then show "(?g \<circ> (\<lambda>(k, v). (packed k :: 'a word, v))) e = id e"
      using inv_into_f_f[OF inj] by (cases e) simp
  qed
  finally have es: "mset ?es = mset arr" by simp
  have set_es: "set (zip ks' vs') = (\<lambda>(k, v). (packed k, v)) ` set arr"
    using arg_cong[OF zs, of set_mset] by simp
  have "map (packed \<circ> fst) ?es = ks'"
  proof -
    have "map (packed \<circ> fst) ?es = map fst (zip ks' vs')"
      unfolding map_map
    proof (rule map_cong)
      fix x assume "x \<in> set (zip ks' vs')"
      then have "fst x \<in> packed ` fst ` set arr" by (force simp: set_es)
      then show "((packed \<circ> fst) \<circ> ?g) x = fst x"
        by (cases x) (simp add: f_inv_into_f)
    qed simp
    then show ?thesis using S(3) by simp
  qed
  moreover have "map snd ?es = vs'"
    using S(3) by (simp add: case_prod_beta comp_def)
  moreover have "\<forall>e\<in>set ?es. key_ok TYPE('a) (fst e)"
    using mset_eq_setD[OF es] keys by simp
  ultimately have "holds (IntLookup ks' vs') ?es"
    using S(2) by (simp add: holds_def)
  moreover have "int_lookup_new N arr = Val (IntLookup ks' vs')"
    using table_ok_longest[OF ok] arr N S(1) fill_loop[OF keys, of "replicate N 0" "replicate N (snd (arr ! 0))"]
    by (simp add: int_lookup_new_def keys_max_bits_eq)
  ultimately show ?thesis using that es by blast
qed

lemma int_lookup_new_Panic:
  assumes w: "8 dvd LENGTH('a::len)" and nf: "list_all nul_free (map fst arr)" and bad: "\<not> table_ok TYPE('a) N arr"
  shows "int_lookup_new N arr = (Panic :: ('a word, 'v) int_lookup run)"
proof (rule ccontr)
  assume "int_lookup_new N arr \<noteq> (Panic :: ('a word, 'v) int_lookup run)"
  then have len: "length arr = N" and long: "longest arr \<noteq> 0" "longest arr \<le> t_bytes TYPE('a)"
      "min_required_len (t_bytes TYPE('a)) \<le> longest arr"
    by (auto simp: int_lookup_new_def keys_max_bits_eq split: if_splits)
  have ne: "arr \<noteq> []" using long(1) by (auto simp: longest_def)
  then have N: "0 < N" using len by auto
  have ex: "list_ex (\<lambda>k. min_required_len (t_bytes TYPE('a)) \<le> length k) (map fst arr)"
    using long(3) ne by (cases arr) (auto simp: longest_ge list_ex_iff)
  let ?new = "int_lookup_new N arr :: ('a word, 'v) int_lookup run"
  show False
  proof (cases "\<forall>e\<in>set arr. key_ok TYPE('a) (fst e)")
    case True
    then have dup: "\<not> distinct (map fst arr)"
      using bad len ne ex by (auto simp: table_ok_def key_ok_def list_all_iff)
    then have "\<not> distinct (map (packed \<circ> fst :: _ \<Rightarrow> 'a word) arr)"
      by (metis distinct_map list.map_comp)
    then have "?new = Panic"
      using fill_loop[OF True, of "replicate N 0" "replicate N (snd (arr ! 0))"] len long ne N
        sort_table_duplicate[of "map snd arr" "map (packed \<circ> fst) arr"]
      by (simp add: int_lookup_new_def keys_max_bits_eq)
    then show False using \<open>?new \<noteq> Panic\<close> by simp
  next
    case False
    then obtain i where "i < length arr" "fst (arr ! i) = [] \<or> t_bytes TYPE('a) < length (fst (arr ! i))"
      using nf by (auto simp: key_ok_def list_all_iff in_set_conv_nth)
    then have "?new = Panic"
      using fill_loop_Panic[where 'a='a, of i arr "replicate N 0" "replicate N (snd (arr ! 0))"] len long ne N
      by (simp add: int_lookup_new_def keys_max_bits_eq)
    then show False using \<open>?new \<noteq> Panic\<close> by simp
  qed
qed

section \<open>What a lookup returns\<close>

definition prefix_lookup :: "(string \<times> 'v) list \<Rightarrow> string \<Rightarrow> 'v option" where
  "prefix_lookup es q =
     (case map_of es q of
        Some v \<Rightarrow> Some v
      | None \<Rightarrow> (case filter (\<lambda>e. prefix q (fst e)) es of
                  [e] \<Rightarrow> Some (snd e)
                | _ \<Rightarrow> None))"

lemma filter_single_mset:
  "mset es = mset es' \<Longrightarrow> (case filter P es of [e] \<Rightarrow> Some (f e) | _ \<Rightarrow> None)
     = (case filter P es' of [e] \<Rightarrow> Some (f e) | _ \<Rightarrow> None)"
proof -
  assume "mset es = mset es'"
  then have m: "mset (filter P es) = mset (filter P es')" by simp
  then have "length (filter P es) = length (filter P es')" by (rule mset_eq_length)
  with m show ?thesis
    by (cases "filter P es" rule: remdups_adj.cases; cases "filter P es'" rule: remdups_adj.cases) auto
qed

lemma prefix_lookup_mset:
  "mset es = mset es' \<Longrightarrow> distinct (map fst es) \<Longrightarrow> prefix_lookup es q = prefix_lookup es' q"
proof -
  assume m: "mset es = mset es'" and d: "distinct (map fst es)"
  then have "distinct (map fst es')" by (metis mset_eq_imp_distinct_iff mset_map)
  then have "map_of es = map_of es'"
    using map_of_inject_set[OF d] mset_eq_setD[OF m] by blast
  then show ?thesis
    unfolding prefix_lookup_def by (simp only: filter_single_mset[OF m])
qed

lemma holds_nth:
  assumes "8 dvd LENGTH('a::len)" "holds (t :: ('a word, 'v) int_lookup) es" "i < length es"
  shows "lkeys t ! i = packed (fst (es ! i))" "lvals t ! i = snd (es ! i)" "key_ok TYPE('a) (fst (es ! i))"
    "length (lkeys t) = length es" "length (lvals t) = length es"
  using assms by (auto simp: holds_def)

lemma holds_less:
  assumes "holds (t :: ('a::len word, 'v) int_lookup) es" "i < j" "j < length es"
  shows "lkeys t ! i < lkeys t ! j"
  using assms sorted_wrt_nth_less[of "(<)" "lkeys t" i j] by (auto simp: holds_def)

lemma holds_distinct:
  assumes "8 dvd LENGTH('a::len)" "holds (t :: ('a word, 'v) int_lookup) es"
  shows "distinct (map fst es)"
proof -
  have "distinct (map (packed \<circ> fst :: _ \<Rightarrow> 'a word) es)"
    using assms(2) by (auto simp: holds_def strict_sorted_iff)
  then show ?thesis by (metis distinct_map list.map_comp)
qed

text \<open>A table, its entries, and the packed query with its mask.\<close>

definition probes :: "('a::len word, 'v) int_lookup \<Rightarrow> (string \<times> 'v) list \<Rightarrow> string \<Rightarrow> 'a word \<Rightarrow> 'a word \<Rightarrow> bool" where
  "probes t es q msk tgt \<longleftrightarrow> 8 dvd LENGTH('a) \<and> holds t es \<and> key_ok TYPE('a) q
     \<and> msk = push_bit ((t_bytes TYPE('a) - length q) * 8) (NOT 0) \<and> tgt = packed q"

lemma probesD:
  assumes "probes (t :: ('a::len word, 'v) int_lookup) es q msk tgt"
  shows "8 dvd LENGTH('a)" "holds t es" "key_ok TYPE('a) q"
    "msk = push_bit ((t_bytes TYPE('a) - length q) * 8) (NOT 0)" "tgt = packed q"
  using assms by (auto simp: probes_def)

lemma masked_entry:
  assumes P: "probes (t :: ('a::len word, 'v) int_lookup) es q msk tgt" and i: "i < length es"
  shows "unat (lkeys t ! i AND msk) = bval (take (length q) (pad TYPE('a) (fst (es ! i)))) * 256 ^ (t_bytes TYPE('a) - length q)"
proof -
  note w = probesD(1)[OF P] and t = probesD(2)[OF P] and q = probesD(3)[OF P] and msk = probesD(4)[OF P] and tgt = probesD(5)[OF P]
  show ?thesis
    using packed_mask[OF w, of "length q" "fst (es ! i)"] q pack_packed holds_nth[OF w t i]
    by (auto simp: msk key_ok_def)
qed

lemma masked_target:
  assumes P: "probes (t :: ('a::len word, 'v) int_lookup) es q msk tgt"
  shows "unat (tgt AND msk) = bval q * 256 ^ (t_bytes TYPE('a) - length q)" "tgt AND msk = tgt"
proof -
  note w = probesD(1)[OF P] and t = probesD(2)[OF P] and q = probesD(3)[OF P] and msk = probesD(4)[OF P] and tgt = probesD(5)[OF P]
  have *: "take (length q) (pad TYPE('a) q) = q" by (simp add: pad_def)
  show 1: "unat (tgt AND msk) = bval q * 256 ^ (t_bytes TYPE('a) - length q)"
    using packed_mask[OF w, of "length q" q] q pack_packed[OF q] * by (auto simp: msk tgt key_ok_def)
  have "unat tgt = bval q * 256 ^ (t_bytes TYPE('a) - length q)"
    using unat_packed[OF w q] by (simp add: tgt bval_pad)
  then show "tgt AND msk = tgt" using 1 by (metis word_unat_eq_iff)
qed

lemma masked_eq_iff_prefix:
  assumes P: "probes (t :: ('a::len word, 'v) int_lookup) es q msk tgt" and i: "i < length es"
  shows "lkeys t ! i AND msk = tgt AND msk \<longleftrightarrow> prefix q (fst (es ! i))"
proof -
  note w = probesD(1)[OF P] and t = probesD(2)[OF P] and q = probesD(3)[OF P] and msk = probesD(4)[OF P] and tgt = probesD(5)[OF P]
  let ?k = "fst (es ! i)"
  have "lkeys t ! i AND msk = tgt AND msk \<longleftrightarrow> unat (lkeys t ! i AND msk) = unat (tgt AND msk)"
    by (metis word_unat_eq_iff)
  also have "\<dots> \<longleftrightarrow> bval (take (length q) (pad TYPE('a) ?k)) = bval q"
    by (simp add: masked_entry[OF P i] masked_target(1)[OF P])
  also have "\<dots> \<longleftrightarrow> take (length q) (pad TYPE('a) ?k) = q"
    using bval_inj[of "take (length q) (pad TYPE('a) ?k)" q] q holds_nth(3)[OF w t i]
    by (auto simp: key_ok_def)
  also have "\<dots> \<longleftrightarrow> prefix q ?k"
    using q by (intro take_pad_eq_iff) (auto simp: key_ok_def)
  finally show ?thesis .
qed

lemma masked_mono:
  assumes P: "probes (t :: ('a::len word, 'v) int_lookup) es q msk tgt" and ij: "i < j" "j < length (lkeys t)"
  shows "lkeys t ! i AND msk \<le> lkeys t ! j AND msk"
proof -
  note w = probesD(1)[OF P] and t = probesD(2)[OF P] and q = probesD(3)[OF P] and msk = probesD(4)[OF P] and tgt = probesD(5)[OF P]
  have "lkeys t ! i < lkeys t ! j"
    using t ij holds_less[OF t, of i j] by (auto simp: holds_def)
  then have "unat (lkeys t ! i) \<le> unat (lkeys t ! j)"
    by (simp add: word_less_nat_alt)
  then show ?thesis
    by (simp only: msk word_le_nat_alt unat_and_high_mask) (intro mult_right_mono div_le_mono, auto)
qed

lemma target_eq_iff:
  assumes P: "probes (t :: ('a::len word, 'v) int_lookup) es q msk tgt" and i: "i < length es"
  shows "lkeys t ! i = tgt \<longleftrightarrow> fst (es ! i) = q"
proof -
  note w = probesD(1)[OF P] and t = probesD(2)[OF P] and q = probesD(3)[OF P] and msk = probesD(4)[OF P] and tgt = probesD(5)[OF P]
  show ?thesis using packed_inj[OF w _ q] holds_nth(1,3)[OF w t i] by (auto simp: tgt)
qed

lemma target_least:
  assumes P: "probes (t :: ('a::len word, 'v) int_lookup) es q msk tgt" and i: "i < length es" "prefix q (fst (es ! i))"
  shows "tgt \<le> lkeys t ! i"
proof -
  have "tgt = lkeys t ! i AND msk" using masked_eq_iff_prefix[OF P i(1)] i(2) masked_target(2)[OF P] by simp
  then show ?thesis by (metis word_and_le2)
qed

lemma lookup_prefix_holds:
  assumes P: "probes (t :: ('a::len word, 'v) int_lookup) es q msk tgt"
  shows "lookup_shortest_unique_prefix t q = Val (prefix_lookup es q)"
proof -
  note w = probesD(1)[OF P] and t = probesD(2)[OF P] and q = probesD(3)[OF P] and msk = probesD(4)[OF P] and tgt = probesD(5)[OF P]
  note masked_eq_iff_prefix = masked_eq_iff_prefix[OF P] and masked_mono = masked_mono[OF P]
    and target_eq_iff = target_eq_iff[OF P] and target_least = target_least[OF P]
  have len: "length (lkeys t) = length es" "length (lvals t) = length es" using t by (auto simp: holds_def)
  obtain low where low: "lower_bound (lkeys t) msk (tgt AND msk) 0 (length es) = Val low" "low \<le> length es"
    and below: "\<And>i. i < low \<Longrightarrow> lkeys t ! i AND msk < tgt AND msk"
    and above: "\<And>i. low \<le> i \<Longrightarrow> i < length es \<Longrightarrow> tgt AND msk \<le> lkeys t ! i AND msk"
    using lower_bound_correct[of "lkeys t" msk 0 "length es" "tgt AND msk", OF masked_mono] len by auto
  have no_below: "\<not> prefix q (fst (es ! i))" if "i < low" for i
    using below[OF that] masked_eq_iff_prefix[of i] that low(2) by auto
  let ?hit = "\<lambda>i. i < length es \<and> prefix q (fst (es ! i))"
  have after: "prefix q (fst (es ! Suc low))" if "?hit i" "low < i" for i
  proof -
    have "Suc low < length es" using that by auto
    moreover have "lkeys t ! Suc low AND msk \<le> lkeys t ! i AND msk"
      using that masked_mono[of "Suc low" i] len by (cases "Suc low = i") auto
    ultimately show ?thesis
      using that above[of "Suc low"] masked_eq_iff_prefix[of i] masked_eq_iff_prefix[of "Suc low"] by auto
  qed
  have run: "lookup_shortest_unique_prefix t q =
    (if low < length es \<and> lkeys t ! low AND msk = tgt AND msk
     then if lkeys t ! low = tgt then Val (Some (lvals t ! low))
          else if Suc low < length es \<and> lkeys t ! Suc low AND msk = tgt AND msk then Val None
          else Val (Some (lvals t ! low))
     else Val None)"
  proof -
    have "\<not> t_bytes TYPE('a) < length q" using q by (simp add: key_ok_def)
    then have "lookup_shortest_unique_prefix t q = bindR (lower_bound (lkeys t) msk (tgt AND msk) 0 (length es)) (\<lambda>low.
        if low < length es \<and> lkeys t ! low AND msk = tgt AND msk
        then if lkeys t ! low = tgt then bindR (idx (lvals t) low) (\<lambda>v. Val (Some v))
             else if low + 1 < length es \<and> lkeys t ! (low + 1) AND msk = tgt AND msk then Val None
             else bindR (idx (lvals t) low) (\<lambda>v. Val (Some v))
        else Val None)"
      unfolding lookup_shortest_unique_prefix_def Let_def pack_packed[OF q] bindR.simps
        msk[symmetric] tgt[symmetric] len by (simp only: if_False)
    then show ?thesis using len by (simp add: low(1))
  qed
  show ?thesis
  proof (cases "?hit low")
    case False
    have none: "filter (\<lambda>e. prefix q (fst e)) es = []"
    proof (rule filter_empty_nth)
      fix i assume "i < length es"
      then show "\<not> prefix q (fst (es ! i))"
        using False no_below[of i] after[of i] above[of low] masked_mono[of low i] len masked_eq_iff_prefix[of low] masked_eq_iff_prefix[of i]
        by (cases "i = low"; cases "i < low") auto
    qed
    then have "map_of es q = None"
      by (auto simp: map_of_eq_None_iff filter_empty_conv)
    then show ?thesis using False none run masked_eq_iff_prefix[of low] by (auto simp: prefix_lookup_def)
  next
    case True
    note hit = True
    show ?thesis
    proof (cases "fst (es ! low) = q")
      case True
      then have "map_of es q = Some (snd (es ! low))"
        using holds_distinct[OF w t] hit by (metis map_of_eq_Some_iff nth_mem prod.collapse)
      then show ?thesis
        using True hit run masked_eq_iff_prefix target_eq_iff holds_nth(2)[OF w t, of low] by (simp add: prefix_lookup_def)
    next
      case False
      have "fst (es ! i) \<noteq> q" if "i < length es" for i
      proof
        assume eq: "fst (es ! i) = q"
        then have "i \<noteq> low" "\<not> i < low" using False no_below[of i] by auto
        then have "lkeys t ! low < lkeys t ! i"
          using holds_less[OF t, of low i] that by auto
        then show False using target_least[of low] hit eq target_eq_iff[OF that] by auto
      qed
      then have mo: "map_of es q = None" by (auto simp: map_of_eq_None_iff in_set_conv_nth) (metis fst_conv)
      show ?thesis
      proof (cases "?hit (Suc low)")
        case True
        then have "2 \<le> length (filter (\<lambda>e. prefix q (fst e)) es)"
          using hit filter_two_nth[of low "Suc low" es "\<lambda>e. prefix q (fst e)"] by auto
        then have "(case filter (\<lambda>e. prefix q (fst e)) es of [e] \<Rightarrow> Some (snd e) | _ \<Rightarrow> None) = None"
          by (auto split: list.splits)
        then show ?thesis
          using True hit False mo run masked_eq_iff_prefix target_eq_iff by (simp add: prefix_lookup_def)
      next
        case no: False
        have "filter (\<lambda>e. prefix q (fst e)) es = [es ! low]"
        proof (rule filter_single_nth)
          fix j assume "j < length es" "j \<noteq> low"
          then show "\<not> prefix q (fst (es ! j))"
            using no no_below[of j] after[of j] by (cases "j < low") auto
        qed (use hit in auto)
        then show ?thesis
          using no hit False mo run masked_eq_iff_prefix target_eq_iff holds_nth(2)[OF w t, of low]
          by (auto simp: prefix_lookup_def)
      qed
    qed
  qed
qed

lemma lookup_holds:
  assumes "8 dvd LENGTH('a::len)" "holds (t :: ('a word, 'v) int_lookup) es" "q \<noteq> []" "nul_free q"
  shows "lookup t q = Val (prefix_lookup es q)"
proof (cases "length q \<le> t_bytes TYPE('a)")
  case True
  then have q: "key_ok TYPE('a) q" using assms by (simp add: key_ok_def)
  then have "probes t es q (push_bit ((t_bytes TYPE('a) - length q) * 8) (NOT 0)) (packed q)"
    using assms by (simp add: probes_def)
  then show ?thesis
    using True lookup_prefix_holds pack_packed[OF q] by (simp add: lookup_def)
next
  case False
  then have "\<not> prefix q (fst e)" if "e \<in> set es" for e
    using assms(2) that prefix_length_le[of q "fst e"] by (auto simp: holds_def key_ok_def)
  then have "filter (\<lambda>e. prefix q (fst e)) es = []" "map_of es q = None"
    by (auto simp: filter_empty_conv map_of_eq_None_iff)
  then show ?thesis using False by (simp add: lookup_def prefix_lookup_def)
qed

section \<open>Binary and linear search\<close>

lemma bsearch_correct:
  assumes "sorted_wrt (<) ks" "0 < sz" "base + sz \<le> length ks"
  shows "\<exists>b. bsearch ks tgt base sz = Val b \<and> base \<le> b \<and> b < base + sz
           \<and> (\<forall>j. b < j \<and> j < base + sz \<longrightarrow> tgt < ks ! j) \<and> (b = base \<or> ks ! b \<le> tgt)"
  using assms
proof (induction ks tgt base sz rule: bsearch.induct)
  case (1 ks tgt base sz)
  show ?case
  proof (cases "sz > 1")
    case False
    then have "sz = 1" using "1.prems" by simp
    then show ?thesis by (auto simp: bsearch.simps)
  next
    case True
    define half where "half = sz div 2"
    have h: "0 < half" "half \<le> sz - half" "base + half < length ks"
      using True "1.prems" by (auto simp: half_def)
    define b' where "b' = (if ks ! (base + half) \<le> tgt then base + half else base)"
    have step: "bsearch ks tgt base sz = bsearch ks tgt b' (sz - half)"
      using True h by (simp add: bsearch.simps[of ks tgt base sz] half_def[symmetric] b'_def)
    have "b' + (sz - half) \<le> length ks" "0 < sz - half"
      using h "1.prems" True by (auto simp: b'_def half_def)
    then obtain b where b: "bsearch ks tgt b' (sz - half) = Val b" "b' \<le> b" "b < b' + (sz - half)"
      "\<forall>j. b < j \<and> j < b' + (sz - half) \<longrightarrow> tgt < ks ! j" "b = b' \<or> ks ! b \<le> tgt"
      using "1.IH"[OF True half_def refl, of "ks ! (base + half)"] "1.prems" h by (auto simp: b'_def)
    have "tgt < ks ! j" if j: "b < j" "j < base + sz" for j
    proof (cases "j < b' + (sz - half)")
      case False
      then have "\<not> ks ! (base + half) \<le> tgt" "base + half \<le> j"
        using j h(2) True by (auto simp: b'_def half_def split: if_splits)
      moreover have "ks ! (base + half) \<le> ks ! j"
        using \<open>base + half \<le> j\<close> j "1.prems" sorted_wrt_nth_less[of "(<)" ks "base + half" j]
        by (cases "base + half = j") auto
      ultimately show ?thesis by auto
    qed (use b(4) j in blast)
    then show ?thesis
      using b step h by (intro exI[of _ b]) (auto simp: b'_def split: if_splits)
  qed
qed

lemma linear_from_map_of:
  "i + length ks \<le> length vs \<Longrightarrow> linear_from tgt vs i ks = Val (map_of (zip ks (drop i vs)) tgt)"
proof (induction ks arbitrary: i)
  case (Cons k ks)
  then have "drop i vs = vs ! i # drop (Suc i) vs" by (simp add: Cons_nth_drop_Suc)
  then show ?case using Cons by simp
qed simp

lemma lookup_linear_map_of:
  "length (lkeys t) = length (lvals t) \<Longrightarrow> lookup_linear t tgt = Val (map_of (zip (lkeys t) (lvals t)) tgt)"
  by (simp add: lookup_linear_def linear_from_map_of)

lemma lookup_binary_map_of:
  assumes "length (lkeys t) = length (lvals t)" "sorted_wrt (<) (lkeys t)" "lkeys t \<noteq> []"
  shows "lookup_binary_search t tgt = Val (map_of (zip (lkeys t) (lvals t)) tgt)"
proof -
  let ?ks = "lkeys t" and ?vs = "lvals t"
  obtain b where b: "bsearch ?ks tgt 0 (length ?ks) = Val b" "b < length ?ks"
    "\<And>j. b < j \<Longrightarrow> j < length ?ks \<Longrightarrow> tgt < ?ks ! j" "b = 0 \<or> ?ks ! b \<le> tgt"
    using bsearch_correct[OF assms(2), of "length ?ks" 0 tgt] assms(3) by auto
  have d: "distinct (map fst (zip ?ks ?vs))"
    using assms(1,2) strict_sorted_iff[of ?ks] by simp
  show ?thesis
  proof (cases "?ks ! b = tgt")
    case True
    then have "(tgt, ?vs ! b) \<in> set (zip ?ks ?vs)"
      using b(2) assms(1) by (auto simp: in_set_zip)
    then show ?thesis using True b(1,2) assms(1) d by (simp add: lookup_binary_search_def)
  next
    case False
    have "?ks ! j \<noteq> tgt" if "j < length ?ks" for j
    proof (cases "j < b")
      case True
      then have "?ks ! j < ?ks ! b" using b(2) assms(2) sorted_wrt_nth_less by blast
      then show ?thesis using True b(4) by auto
    next
      case nb: False
      then show ?thesis using False b(3)[of j] that by (cases "j = b") auto
    qed
    then have "map_of (zip ?ks ?vs) tgt = None"
      using assms(1) by (auto simp: map_of_eq_None_iff in_set_conv_nth)
    then show ?thesis using False b(1,2) by (simp add: lookup_binary_search_def)
  qed
qed

section \<open>Iteration\<close>

lemma trailing_zeros_ge:
  "m \<le> LENGTH('a) \<Longrightarrow> (\<And>i. i < m \<Longrightarrow> \<not> bit w i) \<Longrightarrow> m \<le> trailing_zeros (w :: 'a::len word)"
proof (rule ccontr)
  let ?P = "\<lambda>n. \<not> bit w n"
  assume m: "m \<le> LENGTH('a)" and *: "\<And>i. i < m \<Longrightarrow> \<not> bit w i" and "\<not> m \<le> trailing_zeros w"
  then have l: "length (takeWhile ?P [0..<LENGTH('a)]) < m" by (simp add: trailing_zeros_def)
  then have "\<not> ?P ([0..<LENGTH('a)] ! length (takeWhile ?P [0..<LENGTH('a)]))"
    using m by (intro nth_length_takeWhile) simp
  then show False using * l m by simp
qed

lemma trailing_zeros_less:
  assumes "bit (w :: 'a::len word) i"
  shows "trailing_zeros w \<le> i"
proof (rule ccontr)
  let ?P = "\<lambda>n. \<not> bit w n"
  have i: "i < LENGTH('a)" using assms bit_imp_le_length by blast
  assume "\<not> trailing_zeros w \<le> i"
  then have l: "i < length (takeWhile ?P [0..<LENGTH('a)])" by (simp add: trailing_zeros_def)
  then have "takeWhile ?P [0..<LENGTH('a)] ! i = i" using i by (simp add: takeWhile_nth)
  moreover have "?P (takeWhile ?P [0..<LENGTH('a)] ! i)" 
    using set_takeWhileD[OF nth_mem[OF l]] by (rule conjunct2)
  ultimately show False using assms by simp
qed

lemma bval_mod_256: "bval (bs @ [c]) mod 256 = of_char c"
  by (simp add: bval_append)

lemma packed_len_packed:
  assumes w: "8 dvd LENGTH('a::len)" and k: "key_ok TYPE('a) k"
  shows "packed_len (packed k :: 'a word) = length k"
proof -
  let ?m = "8 * (t_bytes TYPE('a) - length k)" and ?w = "packed k :: 'a word"
  obtain ks c where kc: "k = ks @ [c]" using k by (cases k rule: rev_cases) (auto simp: key_ok_def)
  have c: "c \<noteq> CHR 0x00" using k kc by (auto simp: key_ok_def nul_free_def)
  have len: "length k \<le> t_bytes TYPE('a)" "0 < length k" using k by (auto simp: key_ok_def)
  have u: "unat ?w = push_bit ?m (bval k)"
    using unat_packed[OF w k] by (simp add: bval_pad push_bit_eq_mult power_mult)
  have bits: "bit ?w i \<longleftrightarrow> ?m \<le> i \<and> bit (bval k) (i - ?m)" for i
    using arg_cong[OF u, of "\<lambda>n. bit n i"] by (auto simp: bit_simps dest: bit_imp_le_length)
  have "?m \<le> trailing_zeros ?w"
    using t_bytes_bits[OF w] bits by (intro trailing_zeros_ge) auto
  moreover have "\<exists>i<8. bit (bval k) i"
  proof (rule ccontr)
    assume "\<not> ?thesis"
    then have "take_bit 8 (bval k) = 0" by (intro bit_eqI) (auto simp: bit_simps)
    then have "(of_char c :: nat) = 0"
      using bval_mod_256[of ks c] by (simp add: take_bit_eq_mod kc)
    then show False using c of_char_eq_0_iff by blast
  qed
  then obtain i where "i < 8" "bit ?w (?m + i)" using bits by auto
  then have "trailing_zeros ?w < ?m + 8" "?w \<noteq> 0" using trailing_zeros_less[of ?w "?m + i"] by auto
  ultimately show ?thesis
    using len by (simp add: packed_len_def)
qed

lemma packed_shifted:
  assumes w: "8 dvd LENGTH('a::len)" and k: "key_ok TYPE('a) k"
  shows "unat (drop_bit ((t_bytes TYPE('a) - length k) * 8) (packed k :: 'a word)) = bval k"
proof -
  have "(2::nat) ^ ((t_bytes TYPE('a) - length k) * 8) = 256 ^ (t_bytes TYPE('a) - length k)"
    using power_mult[of "2::nat" 8 "t_bytes TYPE('a) - length k"] by (simp add: mult.commute)
  then show ?thesis
    unfolding unat_drop_bit_eq unat_packed[OF w k] by (simp add: drop_bit_eq_div bval_pad)
qed

lemma to_be_bytes_nth:
  assumes w: "8 dvd LENGTH('a::len)" and k: "length k \<le> t_bytes TYPE('a)" and u: "unat (x :: 'a word) = bval k"
    and j: "j < length k"
  shows "to_be_bytes x ! (t_bytes TYPE('a) - length k + j) = k ! j"
proof -
  let ?n = "length k - Suc j"
  have idx: "t_bytes TYPE('a) - Suc (t_bytes TYPE('a) - length k + j) = ?n" using k j by simp
  have "(2::nat) ^ (?n * 8) = 256 ^ ?n"
    using power_mult[of "2::nat" 8 ?n] by (simp add: mult.commute)
  then have "unat (drop_bit (?n * 8) x) = bval (take (Suc j) k)"
    using bval_take_div[of "Suc j" k] j unfolding unat_drop_bit_eq u by (simp add: drop_bit_eq_div)
  then have "unat (drop_bit (?n * 8) x) mod 256 = of_char (k ! j)"
    using bval_mod_256[of "take j k" "k ! j"] j by (simp add: take_Suc_conv_app_nth)
  then have "byte_of (drop_bit (?n * 8) x) = k ! j"
    unfolding byte_of_def by (metis char_of_char char_of_mod_256 of_char_mod_256)
  then show ?thesis using idx k j by (simp add: to_be_bytes_def)
qed

lemma get_holds:
  assumes w: "8 dvd LENGTH('a::len)" and t: "holds (t :: ('a word, 'v) int_lookup) es" and i: "i < length es"
  obtains kd where "get t i = Val (Some (kd, snd (es ! i)))" "key_as_slice kd = fst (es ! i)"
proof -
  let ?k = "fst (es ! i)" and ?T = "t_bytes TYPE('a)"
  note h = holds_nth[OF w t i]
  have len: "length ?k \<le> ?T" "0 < length ?k" using h(3) by (auto simp: key_ok_def)
  have "(?T - length ?k) * 8 < LENGTH('a)"
    using t_bytes_bits[OF w] len by linarith
  then have shift: "(?T - length ?k) * 8 mod LENGTH('a) = (?T - length ?k) * 8" by simp
  let ?bytes = "to_be_bytes (drop_bit ((?T - length ?k) * 8) (packed ?k :: 'a word))"
  have "\<exists>d. foldR (\<lambda>j data. bindR (idx ?bytes (?T - length ?k + j)) (upd data j)) [0..<length ?k]
      (replicate ?T (CHR 0x00)) = Val d \<and> d = take (length ?k) ?k @ replicate (?T - length ?k) (CHR 0x00)"
  proof (rule foldR_upt_invariant[where I = "\<lambda>j d. d = take j ?k @ replicate (?T - j) (CHR 0x00)"])
    fix j d assume j: "0 \<le> j" "j < length ?k" and d: "d = take j ?k @ replicate (?T - j) (CHR 0x00)"
    have "?bytes ! (?T - length ?k + j) = ?k ! j"
      using to_be_bytes_nth[OF w len(1) packed_shifted[OF w h(3)] j(2)] .
    moreover have "length ?bytes = ?T" by (simp add: to_be_bytes_def)
    moreover have "replicate (?T - j) (CHR 0x00) = CHR 0x00 # replicate (?T - Suc j) (CHR 0x00)"
      using j len by (metis Suc_diff_Suc less_le_trans replicate_Suc)
    ultimately show "\<exists>s'. bindR (idx ?bytes (?T - length ?k + j)) (upd d j) = Val s'
        \<and> s' = take (Suc j) ?k @ replicate (?T - Suc j) (CHR 0x00)"
      using j len d by (simp add: take_Suc_conv_app_nth list_update_append)
  qed (use len in auto)
  then have "get t i = Val (Some (\<lparr>key_data = ?k @ replicate (?T - length ?k) (CHR 0x00), key_len = length ?k\<rparr>, snd (es ! i)))"
    using h i shift packed_len_packed[OF w h(3)] by (simp add: get_def Let_def)
  then show ?thesis using that by (simp add: key_as_slice_def)
qed

lemma iter_collect_from:
  assumes w: "8 dvd LENGTH('a::len)" and t: "holds (t :: ('a word, 'v) int_lookup) es"
  shows "i \<le> length es \<Longrightarrow> iter_collect \<lparr>it_table = t, it_idx = i\<rparr> = Val (drop i es)"
proof (induction "length es - i" arbitrary: i)
  case 0
  then show ?case
    using t by (simp add: iter_collect.simps iter_next_def get_def holds_def)
next
  case (Suc n)
  then have i: "i < length es" "n = length es - Suc i" by auto
  obtain kd where "get t i = Val (Some (kd, snd (es ! i)))" "key_as_slice kd = fst (es ! i)"
    using get_holds[OF w t i(1)] by blast
  then show ?case
    using Suc.hyps(1)[OF i(2)] i(1)
    by (subst iter_collect.simps) (simp add: iter_next_def Cons_nth_drop_Suc[symmetric])
qed

lemma holds_lex_sorted:
  assumes w: "8 dvd LENGTH('a::len)" and t: "holds (t :: ('a word, 'v) int_lookup) es"
  shows "sorted_wrt (\<lambda>a b. bval (pad TYPE('a) (fst a)) < bval (pad TYPE('a) (fst b))) es"
  using holds_less[OF t] holds_nth[OF w t] unat_packed[OF w]
  by (auto simp: sorted_wrt_iff_nth_less word_less_nat_alt)

lemma NUL_less: "c \<noteq> CHR 0x00 \<Longrightarrow> CHR 0x00 < c"
  using of_char_eq_0_iff[of c] by (simp add: less_char_def)

lemma pad_lexordp_mono:
  assumes "ord_class.lexordp a b" "nul_free b" "length a \<le> t_bytes TYPE('a::len)" "length b \<le> t_bytes TYPE('a)"
  shows "ord_class.lexordp (pad TYPE('a) a) (pad TYPE('a) b)"
  using assms(1) unfolding lexordp_iff[of a b]
proof (elim disjE exE conjE)
  fix x vs assume b: "b = a @ x # vs"
  then have "t_bytes TYPE('a) - length a = Suc (t_bytes TYPE('a) - Suc (length a))" using assms(4) by simp
  moreover have "CHR 0x00 < x" using assms(2) b by (intro NUL_less) (auto simp: nul_free_def)
  ultimately show ?thesis
    by (simp add: pad_def b lexordp_append_leftI)
next
  fix us c d vs ws assume "c < d" "a = us @ c # vs" "b = us @ d # ws"
  then show ?thesis by (simp add: pad_def lexordp_append_leftI)
qed

lemma pad_lexordp_iff:
  assumes "nul_free a" "nul_free b" "length a \<le> t_bytes TYPE('a::len)" "length b \<le> t_bytes TYPE('a)"
  shows "ord_class.lexordp (pad TYPE('a) a) (pad TYPE('a) b) \<longleftrightarrow> ord_class.lexordp a b"
proof
  assume l: "ord_class.lexordp (pad TYPE('a) a) (pad TYPE('a) b)"
  show "ord_class.lexordp a b"
  proof (rule ccontr)
    assume "\<not> ord_class.lexordp a b"
    then have "a = b \<or> ord_class.lexordp b a" using lexordp_linear by blast
    then have "pad TYPE('a) a = pad TYPE('a) b \<or> ord_class.lexordp (pad TYPE('a) b) (pad TYPE('a) a)"
      using pad_lexordp_mono[of b a] assms by blast
    then show False using l lexordp_irreflexive' lexordp_antisym by metis
  qed
qed (use pad_lexordp_mono assms in blast)

lemma holds_sorted_names:
  assumes w: "8 dvd LENGTH('a::len)" and t: "holds (t :: ('a word, 'v) int_lookup) es"
  shows "sorted_wrt ord_class.lexordp (map fst es)"
proof -
  have "ord_class.lexordp (fst (es ! i)) (fst (es ! j))" if "i < j" "j < length es" for i j
  proof -
    have k: "key_ok TYPE('a) (fst (es ! i))" "key_ok TYPE('a) (fst (es ! j))"
      using holds_nth(3)[OF w t] that by auto
    have "bval (pad TYPE('a) (fst (es ! i))) < bval (pad TYPE('a) (fst (es ! j)))"
      using sorted_wrt_nth_less[OF holds_lex_sorted[OF w t] that] .
    then show ?thesis
      using k bval_less_iff[of "pad TYPE('a) (fst (es ! i))" "pad TYPE('a) (fst (es ! j))"]
        pad_lexordp_iff[where 'a='a, of "fst (es ! i)" "fst (es ! j)"]
      by (auto simp: key_ok_def)
  qed
  then show ?thesis by (auto simp: sorted_wrt_iff_nth_less)
qed

section \<open>The interface: the trait \<open>Lookup\<close>\<close>

text \<open>A table of names answers as \<open>prefix_lookup\<close> does on the entries it holds.\<close>

locale name_table =
  fixes find_name :: "'t \<Rightarrow> string \<Rightarrow> 'v option run"
    and entries :: "'t \<Rightarrow> (string \<times> 'v) list \<Rightarrow> bool"
  assumes entries_distinct: "entries t es \<Longrightarrow> distinct (map fst es)"
    and find_prefix: "entries t es \<Longrightarrow> q \<noteq> [] \<Longrightarrow> nul_free q \<Longrightarrow> find_name t q = Val (prefix_lookup es q)"
    and find_empty: "find_name t [] = Panic"
begin

lemma find_exact:
  assumes "entries t es" "(q, v) \<in> set es" "q \<noteq> []" "nul_free q"
  shows "find_name t q = Val (Some v)"
  using assms entries_distinct[OF assms(1)] find_prefix[OF assms(1,3,4)] by (simp add: prefix_lookup_def)

lemma find_unknown:
  assumes "entries t es" "q \<noteq> []" "nul_free q" "\<forall>e\<in>set es. \<not> prefix q (fst e)"
  shows "find_name t q = Val None"
proof -
  have "filter (\<lambda>e. prefix q (fst e)) es = []" "map_of es q = None"
    using assms(4) by (auto simp: filter_empty_conv map_of_eq_None_iff)
  then show ?thesis using find_prefix[OF assms(1,2,3)] by (simp add: prefix_lookup_def)
qed

lemma find_abbreviation:
  assumes "entries t es" "q \<noteq> []" "nul_free q" "(k, v) \<in> set es" "prefix q k"
    "\<forall>e\<in>set es. prefix q (fst e) \<longrightarrow> fst e = k"
  shows "find_name t q = Val (Some v)"
proof (cases "q = k")
  case True
  then show ?thesis using find_exact assms by blast
next
  case False
  have d: "distinct (map fst es)" by (rule entries_distinct[OF assms(1)])
  have "filter (\<lambda>e. prefix q (fst e)) es = [(k, v)]"
  proof -
    obtain i where i: "i < length es" "es ! i = (k, v)" using assms(4) by (metis in_set_conv_nth)
    have "filter (\<lambda>e. prefix q (fst e)) es = [es ! i]"
    proof (rule filter_single_nth)
      fix j assume j: "j < length es" "j \<noteq> i"
      then have "fst (es ! j) \<noteq> k" using d i by (metis fst_conv length_map nth_eq_iff_index_eq nth_map)
      then show "\<not> prefix q (fst (es ! j))" using assms(6) j by auto
    qed (simp_all add: i assms(5))
    then show ?thesis using i by simp
  qed
  moreover have "map_of es q = None" using False assms(6) by (force simp: map_of_eq_None_iff)
  ultimately show ?thesis using find_prefix[OF assms(1,2,3)] by (simp add: prefix_lookup_def)
qed

lemma find_ambiguous:
  assumes "entries t es" "q \<noteq> []" "nul_free q" "(k, v) \<in> set es" "(k', v') \<in> set es" "k \<noteq> k'"
    "prefix q k" "prefix q k'" "q \<notin> fst ` set es"
  shows "find_name t q = Val None"
proof -
  let ?f = "filter (\<lambda>e. prefix q (fst e)) es"
  have "{(k, v), (k', v')} \<subseteq> set ?f" using assms by auto
  then have "card {(k, v), (k', v')} \<le> length ?f"
    by (metis List.finite_set card_length card_mono le_trans)
  then have "2 \<le> length ?f" using assms(6) by auto
  then have "(case ?f of [e] \<Rightarrow> Some (snd e) | _ \<Rightarrow> None) = None"
    by (auto split: list.splits)
  moreover have "map_of es q = None" using assms(9) by (simp add: map_of_eq_None_iff)
  ultimately show ?thesis using find_prefix[OF assms(1,2,3)] by (simp add: prefix_lookup_def)
qed

end

lemma lookup_empty: "lookup (t :: ('a::len word, 'v) int_lookup) [] = Panic"
  by (simp add: lookup_def pack_def Let_def)

lemma lookup_name_table:
  "8 dvd LENGTH('a::len) \<Longrightarrow> name_table (lookup :: ('a word, 'v) int_lookup \<Rightarrow> string \<Rightarrow> 'v option run) holds"
  by unfold_locales (erule (1) holds_distinct, erule (3) lookup_holds, rule lookup_empty)

text \<open>The three instances of \<open>define_functions!\<close>.\<close>

interpretation u32: name_table "lookup :: (32 word, 'v) int_lookup \<Rightarrow> string \<Rightarrow> 'v option run" holds
  by (rule lookup_name_table) simp

interpretation u64: name_table "lookup :: (64 word, 'v) int_lookup \<Rightarrow> string \<Rightarrow> 'v option run" holds
  by (rule lookup_name_table) simp

interpretation u128: name_table "lookup :: (128 word, 'v) int_lookup \<Rightarrow> string \<Rightarrow> 'v option run" holds
  by (rule lookup_name_table) simp

section \<open>Properties\<close>

lemma int_lookup_new_obtains:
  assumes "8 dvd LENGTH('a::len)" "list_all nul_free (map fst arr)"
    "int_lookup_new N arr = Val (t :: ('a word, 'v) int_lookup)"
  obtains es where "holds t es" "mset es = mset arr" "table_ok TYPE('a) N arr"
proof -
  have ok: "table_ok TYPE('a) N arr"
    using int_lookup_new_Panic[OF assms(1,2)] assms(3) by force
  obtain t' :: "('a word, 'v) int_lookup" and es where t': "int_lookup_new N arr = Val t'" "holds t' es" "mset es = mset arr"
    using int_lookup_new_holds[OF assms(1) ok assms(2)] .
  then have "t' = t" using assms(3) by simp
  then show ?thesis using that t' ok by simp
qed

text \<open>
  C1: A query to a table built by \<open>new\<close> returns the value of the entry of that name
  if there is one, otherwise the value of the only entry whose name the query
  abbreviates, and nothing when the abbreviation is ambiguous or unknown.
\<close>

theorem lookup_refines_prefix_lookup:
  assumes "8 dvd LENGTH('a::len)"
    and "int_lookup_new N arr = Val (t :: ('a word, 'v) int_lookup)"
    and "list_all nul_free (map fst arr)" "q \<noteq> []" "nul_free q"
  shows "lookup t q = Val (prefix_lookup arr q)"
proof -
  obtain es where es: "holds t es" "mset es = mset arr"
    using int_lookup_new_obtains[OF assms(1,3,2)] .
  then show ?thesis
    using lookup_holds[OF assms(1) es(1) assms(4,5)]
      prefix_lookup_mset[OF es(2) holds_distinct[OF assms(1) es(1)]] by simp
qed

definition demo_entries :: "(string \<times> nat) list" where
  "demo_entries = [(''set'', 1), (''lock'', 2), (''list'', 3), (''se'', 4)]"

definition demo_table :: "(32 word, nat) int_lookup" where
  "demo_table = (case int_lookup_new 4 demo_entries of Val t \<Rightarrow> t | Panic \<Rightarrow> IntLookup [] [])"

lemma demo_table_eq: "int_lookup_new 4 demo_entries = Val demo_table"
  by code_simp

theorem lookup_refines_prefix_lookup_witness:
  "lookup demo_table ''se'' = Val (Some 4) \<and> lookup demo_table ''li'' = Val (Some 3)
     \<and> lookup demo_table ''l'' = Val None \<and> lookup demo_table ''x'' = Val None"
  using lookup_refines_prefix_lookup[OF _ demo_table_eq, of "''se''"]
    lookup_refines_prefix_lookup[OF _ demo_table_eq, of "''li''"]
    lookup_refines_prefix_lookup[OF _ demo_table_eq, of "''l''"]
    lookup_refines_prefix_lookup[OF _ demo_table_eq, of "''x''"]
  by (simp add: demo_entries_def nul_free_def prefix_lookup_def)

text \<open>
  C28: \<open>new\<close> builds a table exactly when the entries are as many as declared, the
  names are distinct, non-empty and fit the integer, and one of them needs
  this integer rather than a smaller one; in every other case it panics.
\<close>

theorem int_lookup_new_Val_iff:
  assumes "8 dvd LENGTH('a::len)" "list_all nul_free (map fst arr)"
  shows "(int_lookup_new N arr :: ('a word, 'v) int_lookup run) \<noteq> Panic \<longleftrightarrow>
     length arr = N \<and> arr \<noteq> [] \<and> distinct (map fst arr)
       \<and> list_all (\<lambda>k. k \<noteq> [] \<and> length k \<le> LENGTH('a) div 8) (map fst arr)
       \<and> list_ex (\<lambda>k. min_required_len (LENGTH('a) div 8) \<le> length k) (map fst arr)"
  using int_lookup_new_Panic[OF assms, of N] int_lookup_new_holds[OF assms(1) _ assms(2), of N]
  by (fastforce simp: table_ok_def t_bytes_def)

theorem int_lookup_new_Val_iff_witness:
  "(int_lookup_new 2 [(''lock'', 0), (''lock'', 1)] :: (32 word, nat) int_lookup run) = Panic"
  using int_lookup_new_Val_iff[where 'a = 32 and N = 2 and arr = "[(''lock'', 0), (''lock'', 1 :: nat)]"]
  by (simp add: nul_free_def)

text \<open>
  C29: On a table built by \<open>new\<close> the linear scan and the branch-reduced binary
  search return the same answer for every key, and neither indexes out of range.
\<close>

theorem linear_eq_binary_search:
  assumes "8 dvd LENGTH('a::len)"
    and "int_lookup_new N arr = Val (t :: ('a word, 'v) int_lookup)"
    and "list_all nul_free (map fst arr)"
  shows "lookup_linear t target = lookup_binary_search t target \<and> lookup_linear t target \<noteq> Panic"
proof -
  obtain es where es: "holds t es" "mset es = mset arr" "table_ok TYPE('a) N arr"
    using int_lookup_new_obtains[OF assms(1,3,2)] .
  then have "length (lkeys t) = length (lvals t)" "sorted_wrt (<) (lkeys t)" "lkeys t \<noteq> []"
    by (auto simp: holds_def table_ok_def)
  then show ?thesis by (simp add: lookup_linear_map_of lookup_binary_map_of)
qed

theorem linear_eq_binary_search_witness:
  "lookup_linear demo_table 0x6c6f636b = lookup_binary_search demo_table 0x6c6f636b"
  using linear_eq_binary_search[OF _ demo_table_eq, of "0x6c6f636b"]
  by (simp add: demo_entries_def nul_free_def)

text \<open>
  Iterating over a table built by \<open>new\<close> visits each entry once, with its name
  unpacked from the integer, in the lexicographic order of the names.
\<close>

lemma iter_sorted_entries:
  assumes "8 dvd LENGTH('a::len)"
    and "int_lookup_new N arr = Val (t :: ('a word, 'v) int_lookup)"
    and "list_all nul_free (map fst arr)"
  shows "\<exists>es. iter_collect (iter t) = Val es \<and> mset es = mset arr \<and> sorted_wrt ord_class.lexordp (map fst es)"
proof -
  obtain es where es: "holds t es" "mset es = mset arr"
    using int_lookup_new_obtains[OF assms(1,3,2)] .
  then show ?thesis
    using iter_collect_from[OF assms(1) es(1), of 0] holds_sorted_names[OF assms(1) es(1)]
    by (auto simp: iter_def)
qed

lemma iter_sorted_entries_witness:
  "\<exists>es. iter_collect (iter demo_table) = Val es \<and> mset es = mset demo_entries"
  using iter_sorted_entries[OF _ demo_table_eq]
  by (auto simp: demo_entries_def nul_free_def)

text \<open>
  The width \<open>key_type_bits\<close> picks is the one, and the only one of the three,
  at which \<open>new\<close> accepts the table.
\<close>

lemma key_type_bits_accepted:
  assumes "LENGTH('a::len) = 32 \<or> LENGTH('a) = 64 \<or> LENGTH('a) = 128"
    and "key_type_bits arr = Val b"
    and "list_all (\<lambda>k. k \<noteq> [] \<and> nul_free k) (map fst arr)" "distinct (map fst arr)"
  shows "(int_lookup_new (length arr) arr :: ('a word, 'v) int_lookup run) \<noteq> Panic \<longleftrightarrow> LENGTH('a) = b"
proof -
  have w: "8 dvd LENGTH('a)" using assms(1) by auto
  have "arr \<noteq> []" using assms(2) by (auto simp: key_type_bits_def keys_max_bits_def)
  moreover have "list_all (\<lambda>k. k \<noteq> [] \<and> length k \<le> n) (map fst arr) \<longleftrightarrow> longest arr \<le> n" for n
    using assms(3) by (auto simp: list_all_iff longest_le)
  moreover have "list_ex (\<lambda>k. n \<le> length k) (map fst arr) \<longleftrightarrow> n \<le> longest arr" for n
    using \<open>arr \<noteq> []\<close> by (cases arr) (auto simp: longest_ge list_ex_iff)
  moreover have "list_all nul_free (map fst arr)" using assms(3) by (simp add: list_all_iff)
  ultimately have "(int_lookup_new (length arr) arr :: ('a word, 'v) int_lookup run) \<noteq> Panic
      \<longleftrightarrow> longest arr \<le> LENGTH('a) div 8 \<and> min_required_len (LENGTH('a) div 8) \<le> longest arr"
    using int_lookup_new_Panic[OF w, of arr "length arr"] int_lookup_new_holds[OF w, of "length arr" arr] assms(4)
    by (auto simp: table_ok_def t_bytes_def)
  then show ?thesis
    using assms(1,2) by (auto simp: key_type_bits_def keys_max_bits_eq min_required_len_def split: if_splits)
qed

lemma key_type_bits_accepted_witness:
  "key_type_bits [(''barrier'', 0::nat)] = Val 64
     \<and> (int_lookup_new 1 [(''barrier'', 0)] :: (64 word, nat) int_lookup run) \<noteq> Panic"
proof -
  have "key_type_bits [(''barrier'', 0::nat)] = Val 64" by code_simp
  then show ?thesis
    using key_type_bits_accepted[where 'a = 64 and arr = "[(''barrier'', 0::nat)]" and b = 64]
    by (simp add: nul_free_def)
qed

text \<open>
  Unpacking the integer of a name without NUL bytes gives the name back.
\<close>

lemma unpack_pack:
  assumes "8 dvd LENGTH('a::len)" "pack k = Val (w :: 'a word)" "nul_free k"
  shows "unpack (length k) w = Val k"
proof -
  let ?T = "t_bytes TYPE('a)"
  have k: "key_ok TYPE('a) k"
    using assms pack_eq_Panic_iff[where 'a='a, of k] by (force simp: key_ok_def)
  then have len: "length k \<le> ?T" "k \<noteq> []" by (auto simp: key_ok_def)
  have w: "w = packed k" using pack_packed[OF k] assms(2) by simp
  have byte: "byte_of (drop_bit ((?T - 1 - i) * 8) w AND 0xFF) = k ! i" if i: "i < length k" for i
  proof -
    have p: "(2::nat) ^ ((?T - Suc i) * 8) = 256 ^ (?T - Suc i)"
      using power_mult[of "2::nat" 8 "?T - Suc i"] by (simp add: mult.commute)
    have "unat (drop_bit ((?T - 1 - i) * 8) w) = bval (take (Suc i) (pad TYPE('a) k))"
      using bval_take_div[of "Suc i" "pad TYPE('a) k"] len i
      unfolding unat_drop_bit_eq w unat_packed[OF assms(1) k] by (simp add: drop_bit_eq_div p)
    then have "unat (drop_bit ((?T - 1 - i) * 8) w) mod 256 = of_char (k ! i)"
      using bval_mod_256[of "take i (pad TYPE('a) k)" "k ! i"] len i
      by (simp add: take_Suc_conv_app_nth pad_def nth_append)
    moreover have "unat (x AND 0xFF) = unat x mod 256" for x :: "'a word"
    proof -
      have "x AND 0xFF = take_bit 8 x" by (simp add: take_bit_eq_mask mask_eq_exp_minus_1)
      then show ?thesis by (simp only: unsigned_take_bit_eq) (simp add: take_bit_eq_mod)
    qed
    ultimately have "unat (drop_bit ((?T - 1 - i) * 8) w AND 0xFF) = of_char (k ! i)" by simp
    then show ?thesis by (simp add: byte_of_def)
  qed
  have nz: "k ! i \<noteq> CHR 0x00" if "i < length k" for i
    using assms(3) that by (auto simp: nul_free_def) (metis nth_mem)
  let ?body = "\<lambda>i out. let byte = byte_of (drop_bit ((?T - 1 - i) * 8) w AND 0xFF)
      in if byte = CHR 0x00 then Panic else upd out i byte"
  have "\<exists>s. foldR ?body [0..<length k] (replicate (length k) (CHR 0x00)) = Val s
      \<and> s = take (length k) k @ replicate (length k - length k) (CHR 0x00)"
  proof (rule foldR_upt_invariant[where I = "\<lambda>i s. s = take i k @ replicate (length k - i) (CHR 0x00)"])
    fix i s assume i: "i < length k" and s: "s = take i k @ replicate (length k - i) (CHR 0x00)"
    have "replicate (length k - i) (CHR 0x00) = CHR 0x00 # replicate (length k - Suc i) (CHR 0x00)"
      using i by (metis Suc_diff_Suc replicate_Suc)
    then show "\<exists>s'. ?body i s = Val s' \<and> s' = take (Suc i) k @ replicate (length k - Suc i) (CHR 0x00)"
      using i nz[OF i] byte[OF i] s by (simp add: take_Suc_conv_app_nth list_update_append)
  qed simp_all
  then show ?thesis
    using len packed_len_packed[OF assms(1) k] by (simp add: unpack_def w Let_def)
qed

lemma unpack_pack_witness: "unpack 3 (0x73657400 :: 32 word) = Val ''set''"
proof -
  have "pack ''set'' = Val (0x73657400 :: 32 word)" by code_simp
  then show ?thesis using unpack_pack[of "''set''" "0x73657400 :: 32 word"]
    by (simp add: nul_free_def numeral_3_eq_3)
qed

end
