(* ===== verification/Rust_Std.thy ===== *)
theory Rust_Std
  imports Prelude "HOL-Library.Signed_Division"
begin

text \<open>
  The parts of Rust's standard library that the sources use on byte strings:
  UTF-8 validation (\<open>std::str::from_utf8\<close>), integer parsing
  (\<open>from_str_radix\<close> and \<open>parse\<close>, which accept a leading plus sign) and decimal
  printing, with the facts that relate them.
\<close>

section \<open>UTF-8\<close>

definition in_range :: "nat \<Rightarrow> nat \<Rightarrow> char \<Rightarrow> bool" where
  "in_range lo hi c \<longleftrightarrow> lo \<le> of_char c \<and> of_char c \<le> hi"

definition utf8_cont :: "char \<Rightarrow> bool" where
  "utf8_cont c = in_range 0x80 0xBF c"

text \<open>The second byte of three- and four-byte sequences is restricted, so that no
  overlong form, surrogate or value above U+10FFFF is accepted.\<close>

definition utf8_second3 :: "char \<Rightarrow> char \<Rightarrow> bool" where
  "utf8_second3 a b = (if (of_char a :: nat) = 0xE0 then in_range 0xA0 0xBF b
     else if (of_char a :: nat) = 0xED then in_range 0x80 0x9F b else utf8_cont b)"

definition utf8_second4 :: "char \<Rightarrow> char \<Rightarrow> bool" where
  "utf8_second4 a b = (if (of_char a :: nat) = 0xF0 then in_range 0x90 0xBF b
     else if (of_char a :: nat) = 0xF4 then in_range 0x80 0x8F b else utf8_cont b)"

fun utf8_valid :: "string \<Rightarrow> bool" where
  "utf8_valid [] = True"
| "utf8_valid (a # s) =
     (if in_range 0 0x7F a then utf8_valid s
      else if in_range 0xC2 0xDF a
      then (case s of b # s' \<Rightarrow> utf8_cont b \<and> utf8_valid s' | _ \<Rightarrow> False)
      else if in_range 0xE0 0xEF a
      then (case s of b # c # s' \<Rightarrow> utf8_second3 a b \<and> utf8_cont c \<and> utf8_valid s' | _ \<Rightarrow> False)
      else if in_range 0xF0 0xF4 a
      then (case s of b # c # d # s' \<Rightarrow> utf8_second4 a b \<and> utf8_cont c \<and> utf8_cont d \<and> utf8_valid s' | _ \<Rightarrow> False)
      else False)"

definition from_utf8 :: "string \<Rightarrow> string option" where
  "from_utf8 s = (if utf8_valid s then Some s else None)"

definition is_ascii :: "string \<Rightarrow> bool" where
  "is_ascii s = list_all (in_range 0 0x7F) s"

lemma utf8_valid_ascii: "is_ascii s \<Longrightarrow> utf8_valid s"
  by (induction s) (auto simp: is_ascii_def)

lemma from_utf8_eq_Some: "from_utf8 s = Some t \<longleftrightarrow> utf8_valid s \<and> t = s"
  by (auto simp: from_utf8_def)

section \<open>Reading integers\<close>

definition to_digit :: "nat \<Rightarrow> char \<Rightarrow> nat option" where
  "to_digit radix c =
     (let n = of_char c :: nat;
          d = (if 48 \<le> n \<and> n \<le> 57 then n - 48
               else if 97 \<le> n \<and> n \<le> 122 then n - 87
               else if 65 \<le> n \<and> n \<le> 90 then n - 55
               else 36)
      in if d < radix then Some d else None)"

fun digits_value :: "nat \<Rightarrow> nat \<Rightarrow> string \<Rightarrow> nat option" where
  "digits_value radix acc [] = Some acc"
| "digits_value radix acc (c # cs) =
     (case to_digit radix c of None \<Rightarrow> None | Some d \<Rightarrow> digits_value radix (acc * radix + d) cs)"

text \<open>An unsigned type with the largest value \<open>mx\<close>. A value that overflows on
  the way is above \<open>mx\<close> at the end, and both are errors.\<close>

definition parse_unsigned :: "nat \<Rightarrow> nat \<Rightarrow> string \<Rightarrow> nat option" where
  "parse_unsigned radix mx s =
     (let ds = (case s of c # cs \<Rightarrow> if c = CHR ''+'' then cs else s | [] \<Rightarrow> [])
      in if ds = [] then None
         else case digits_value radix 0 ds of None \<Rightarrow> None | Some n \<Rightarrow> if n \<le> mx then Some n else None)"

text \<open>A signed type of \<open>w\<close> bits.\<close>

definition parse_signed :: "nat \<Rightarrow> nat \<Rightarrow> string \<Rightarrow> int option" where
  "parse_signed radix w s =
     (let neg = (case s of c # cs \<Rightarrow> c = CHR ''-'' | [] \<Rightarrow> False);
          ds = (case s of c # cs \<Rightarrow> if c = CHR ''+'' \<or> c = CHR ''-'' then cs else s | [] \<Rightarrow> [])
      in if ds = [] then None
         else case digits_value radix 0 ds of None \<Rightarrow> None
              | Some n \<Rightarrow> if neg then (if n \<le> 2 ^ (w - 1) then Some (- int n) else None)
                         else (if n < 2 ^ (w - 1) then Some (int n) else None))"

section \<open>Printing integers\<close>

definition digit_char :: "nat \<Rightarrow> char" where
  "digit_char d = char_of (48 + d)"

text \<open>The digits of a positive number; nothing for zero.\<close>

fun digs :: "nat \<Rightarrow> string" where
  "digs n = (if n = 0 then [] else digs (n div 10) @ [digit_char (n mod 10)])"

declare digs.simps [simp del]

definition dec :: "nat \<Rightarrow> string" where
  "dec n = (if n = 0 then ''0'' else digs n)"

definition dec_int :: "int \<Rightarrow> string" where
  "dec_int i = (if i < 0 then CHR ''-'' # dec (nat (- i)) else dec (nat i))"

lemmas dec_eval = dec_def dec_int_def digs.simps digit_char_def char_of_def bit_Suc_0_iff

lemma digs_0 [simp]: "digs 0 = []"
  by (simp add: digs.simps)

lemma digs_pos: "0 < n \<Longrightarrow> digs n = digs (n div 10) @ [digit_char (n mod 10)]"
  by (subst digs.simps) simp

lemma of_char_digit: "d < 10 \<Longrightarrow> (of_char (digit_char d) :: nat) = 48 + d"
  by (simp add: digit_char_def)

lemma to_digit_digit_char: "d < 10 \<Longrightarrow> to_digit 10 (digit_char d) = Some d"
  by (simp add: to_digit_def of_char_digit Let_def)

lemma digits_value_append:
  "digits_value r a (xs @ ys) = (case digits_value r a xs of None \<Rightarrow> None | Some n \<Rightarrow> digits_value r n ys)"
  by (induction xs arbitrary: a) (auto split: option.splits)

lemma digits_value_digs: "digits_value 10 0 (digs n) = Some n"
proof (induction n rule: digs.induct)
  case (1 n)
  then show ?case
    by (cases "n = 0") (simp_all add: digs_pos digits_value_append to_digit_digit_char)
qed

lemma digs_set: "c \<in> set (digs n) \<Longrightarrow> \<exists>d<10. c = digit_char d"
proof (induction n rule: digs.induct)
  case (1 n)
  show ?case
  proof (cases "n = 0")
    case False
    then consider "c \<in> set (digs (n div 10))" | "c = digit_char (n mod 10)"
      using "1.prems" by (auto simp: digs_pos)
    then show ?thesis
    proof cases
      case 2
      then show ?thesis by (intro exI[of _ "n mod 10"]) simp
    qed (use 1 False in blast)
  qed (use "1.prems" in simp)
qed

lemma digs_not_Nil: "0 < n \<Longrightarrow> digs n \<noteq> []"
  by (simp add: digs_pos)

lemma digit_char_ne_sign: "d < 10 \<Longrightarrow> digit_char d \<noteq> CHR ''+'' \<and> digit_char d \<noteq> CHR ''-''"
  using of_char_digit[of d] by auto

lemma digs_ne_sign:
  assumes "digs n = c # cs"
  shows "c \<noteq> CHR ''+'' \<and> c \<noteq> CHR ''-''"
proof -
  obtain d where "d < 10" "c = digit_char d" using digs_set[of c n] assms by auto
  then show ?thesis using digit_char_ne_sign[of d] by metis
qed

lemma length_digs_le: "n < 10 ^ k \<Longrightarrow> length (digs n) \<le> k"
proof (induction k arbitrary: n)
  case (Suc k)
  then have "n div 10 < 10 ^ k" by (simp add: less_mult_imp_div_less mult.commute)
  then have "length (digs (n div 10)) \<le> k" by (rule Suc.IH)
  then show ?case by (cases "n = 0") (simp_all add: digs_pos)
qed simp

lemma dec_nul_free [simp]: "nul_free (dec n)"
proof -
  have "CHR 0x00 \<noteq> digit_char d" if "d < 10" for d
  proof
    assume "CHR 0x00 = digit_char d"
    then have "(of_char (CHR 0x00) :: nat) = 48 + d" using of_char_digit[OF that] by metis
    then show False by simp
  qed
  then show ?thesis using digs_set[of "CHR 0x00" n] by (auto simp: dec_def nul_free_def)
qed

lemma dec_int_nul_free [simp]: "nul_free (dec_int i)"
  by (simp add: dec_int_def)

lemma digs_nul_free [simp]: "nul_free (digs n)"
  using dec_nul_free[of n] by (cases "n = 0") (simp_all add: dec_def)

lemma parse_unsigned_dec: "n \<le> mx \<Longrightarrow> parse_unsigned 10 mx (dec n) = Some n"
proof (cases "n = 0")
  case True
  then show ?thesis by (simp add: dec_def parse_unsigned_def to_digit_def Let_def)
next
  case False
  assume "n \<le> mx"
  obtain c cs where c: "digs n = c # cs" using False digs_not_Nil[of n] by (cases "digs n") auto
  then show ?thesis
    using digs_ne_sign[OF c] digits_value_digs[of n] \<open>n \<le> mx\<close> False
    by (simp add: dec_def parse_unsigned_def Let_def del: digits_value.simps)
qed

lemma parse_signed_dec_int:
  assumes "- (2 ^ (w - 1)) \<le> i" "i < 2 ^ (w - 1)"
  shows "parse_signed 10 w (dec_int i) = Some i"
proof -
  consider "i = 0" | "0 < i" | "i < 0" by linarith
  then show ?thesis
  proof cases
    case 1
    then show ?thesis by (simp add: dec_int_def dec_def parse_signed_def to_digit_def Let_def)
  next
    case 2
    obtain c cs where c: "digs (nat i) = c # cs" using 2 digs_not_Nil[of "nat i"] by (cases "digs (nat i)") auto
    have "nat i < 2 ^ (w - 1)" using 2 assms by (simp add: nat_less_iff)
    then show ?thesis
      using digs_ne_sign[OF c] digits_value_digs[of "nat i"] 2 c
      by (simp add: dec_int_def dec_def parse_signed_def Let_def del: digits_value.simps)
  next
    case 3
    have "nat (- i) \<le> 2 ^ (w - 1)" using 3 assms(1) by (simp add: nat_le_iff)
    then show ?thesis
      using digits_value_digs[of "nat (- i)"] digs_not_Nil[of "nat (- i)"] 3
      by (simp add: dec_int_def dec_def parse_signed_def Let_def del: digits_value.simps)
  qed
qed

lemma dec_ascii: "is_ascii (dec n)"
proof -
  have "is_ascii (digs n)"
    unfolding is_ascii_def list_all_iff
  proof
    fix c assume "c \<in> set (digs n)"
    then obtain d where "d < 10" "c = digit_char d" using digs_set by blast
    then show "in_range 0 0x7F c" by (simp add: in_range_def of_char_digit)
  qed
  moreover have "is_ascii ''0''" by (simp add: is_ascii_def in_range_def)
  ultimately show ?thesis by (simp add: dec_def)
qed

end
