(* ===== verification/Int_Str.thy ===== *)
theory Int_Str
  imports Rust_Std
begin

text \<open>
  \<open>llib/src/intstr.rs\<close> and the integer part of \<open>l_builtin/src/bprint_bytes.rs\<close>:
  decimal printing into fixed buffers, from the end backwards, for unsigned
  and signed integers of any width \<open>'a\<close>. \<open>IntStr\<close> stops at the start of the
  buffer; \<open>bwrite\<close> has no such guard and would panic. Division and remainder
  of signed integers truncate towards zero.
\<close>

section \<open>Definitions\<close>

definition max_str_len_for_bits :: "nat \<Rightarrow> nat" where
  "max_str_len_for_bits bits = (bits * 30103) div 100000 + 3"

record int_str =
  is_buf :: string
  is_start :: nat

definition as_bytes :: "int_str \<Rightarrow> string" where
  "as_bytes s = drop (is_start s) (take (length (is_buf s) - 1) (is_buf s))"

text \<open>The C string at \<open>as_ptr\<close>: the bytes up to the first NUL.\<close>

definition as_ptr :: "int_str \<Rightarrow> string" where
  "as_ptr s = c_str (drop (is_start s) (is_buf s))"

definition signed_rem10 :: "'a::len word \<Rightarrow> nat" where
  "signed_rem10 v = nat \<bar>sint v smod 10\<bar>"

definition signed_div10 :: "'a::len word \<Rightarrow> 'a word" where
  "signed_div10 v = word_of_int (sint v sdiv 10)"

primrec unsigned_digits :: "string \<Rightarrow> nat \<Rightarrow> 'a::len word \<Rightarrow> (string \<times> nat) run" where
  "unsigned_digits buf 0 v = Val (buf, 0)"
| "unsigned_digits buf (Suc i) v =
     (if 0 < v
      then bindR (upd buf i (digit_char (unat (v mod 10)))) (\<lambda>buf'. unsigned_digits buf' i (v div 10))
      else Val (buf, Suc i))"

primrec signed_digits :: "string \<Rightarrow> nat \<Rightarrow> 'a::len word \<Rightarrow> (string \<times> nat) run" where
  "signed_digits buf 0 v = Val (buf, 0)"
| "signed_digits buf (Suc i) v =
     (if v \<noteq> 0
      then bindR (upd buf i (digit_char (signed_rem10 v))) (\<lambda>buf'. signed_digits buf' i (signed_div10 v))
      else Val (buf, Suc i))"

definition unsigned_to_intstr :: "'a::len word \<Rightarrow> int_str run" where
  "unsigned_to_intstr v =
     (let n = max_str_len_for_bits LENGTH('a); i = n - 1 in
      bindR (upd (replicate n (CHR 0x00)) i (CHR 0x00)) (\<lambda>buf.
      bindR (if v = 0
             then bindR (upd buf (i - 1) (CHR ''0'')) (\<lambda>buf'. Val (buf', i - 1))
             else unsigned_digits buf i v) (\<lambda>(buf', j).
      Val \<lparr>is_buf = buf', is_start = j\<rparr>)))"

definition signed_to_intstr :: "'a::len word \<Rightarrow> int_str run" where
  "signed_to_intstr v =
     (let n = max_str_len_for_bits LENGTH('a); i = n - 1; is_negative = sint v < 0 in
      bindR (upd (replicate n (CHR 0x00)) i (CHR 0x00)) (\<lambda>buf.
      bindR (if v = 0
             then bindR (upd buf (i - 1) (CHR ''0'')) (\<lambda>buf'. Val (buf', i - 1))
             else signed_digits buf i v) (\<lambda>(buf', j).
      if is_negative \<and> j > 0
      then bindR (upd buf' (j - 1) (CHR ''-'')) (\<lambda>buf''. Val \<lparr>is_buf = buf'', is_start = j - 1\<rparr>)
      else Val \<lparr>is_buf = buf', is_start = j\<rparr>)))"

text \<open>The loops of \<open>BDisplay\<close>: decrementing the index 0 panics.\<close>

primrec bwrite_unsigned_loop :: "string \<Rightarrow> nat \<Rightarrow> 'a::len word \<Rightarrow> (string \<times> nat) run" where
  "bwrite_unsigned_loop buf 0 n = (if n > 0 then Panic else Val (buf, 0))"
| "bwrite_unsigned_loop buf (Suc i) n =
     (if n > 0
      then bindR (upd buf i (digit_char (unat (n mod 10)))) (\<lambda>buf'. bwrite_unsigned_loop buf' i (n div 10))
      else Val (buf, Suc i))"

primrec bwrite_signed_loop :: "string \<Rightarrow> nat \<Rightarrow> 'a::len word \<Rightarrow> (string \<times> nat) run" where
  "bwrite_signed_loop buf 0 n = (if n \<noteq> 0 then Panic else Val (buf, 0))"
| "bwrite_signed_loop buf (Suc i) n =
     (if n \<noteq> 0
      then bindR (upd buf i (digit_char (signed_rem10 n))) (\<lambda>buf'. bwrite_signed_loop buf' i (signed_div10 n))
      else Val (buf, Suc i))"

text \<open>What is written to the stream.\<close>

definition bwrite_unsigned :: "'a::len word \<Rightarrow> string run" where
  "bwrite_unsigned n =
     (let buf = replicate 39 (CHR 0x00) in
      if n = 0 then Val ''0''
      else bindR (bwrite_unsigned_loop buf (length buf) n) (\<lambda>(buf', i). Val (drop i buf')))"

definition bwrite_signed :: "'a::len word \<Rightarrow> string run" where
  "bwrite_signed n =
     (let buf = replicate 40 (CHR 0x00); is_negative = sint n < 0 in
      if n = 0 then Val ''0''
      else bindR (bwrite_signed_loop buf (length buf) n) (\<lambda>(buf', i).
        if is_negative
        then if i = 0 then Panic
             else bindR (upd buf' (i - 1) (CHR ''-'')) (\<lambda>buf''. Val (drop (i - 1) buf''))
        else Val (drop i buf')))"

section \<open>The loops write the decimal digits\<close>

definition write_digs :: "string \<Rightarrow> nat \<Rightarrow> nat \<Rightarrow> string \<times> nat" where
  "write_digs buf i n =
     (take (i - length (digs n)) buf @ digs n @ drop i buf, i - length (digs n))"

lemma write_digs_0 [simp]: "write_digs buf i 0 = (buf, i)"
  by (simp add: write_digs_def)

lemma write_digs_step:
  assumes "0 < n" "n < 10 ^ Suc i" "Suc i \<le> length buf"
  shows "write_digs (buf[i := digit_char (n mod 10)]) i (n div 10) = write_digs buf (Suc i) n"
proof -
  have "n div 10 < 10 ^ i" using assms(2) by (simp add: less_mult_imp_div_less mult.commute)
  then have "length (digs (n div 10)) \<le> i" by (rule length_digs_le)
  then show ?thesis
    using assms by (simp add: write_digs_def digs_pos drop_Suc_update Cons_nth_drop_Suc[symmetric])
qed

lemma unat_10: "4 \<le> LENGTH('a::len) \<Longrightarrow> unat (10 :: 'a word) = 10"
proof -
  assume "4 \<le> LENGTH('a)"
  then have "(2::nat) ^ 4 \<le> 2 ^ LENGTH('a)" by (intro power_increasing) auto
  then show ?thesis by (simp add: unat_numeral take_bit_nat_eq_self)
qed

lemma unsigned_div_mod_10:
  assumes "4 \<le> LENGTH('a::len)"
  shows "unat (v div 10 :: 'a word) = unat v div 10" "unat (v mod 10 :: 'a word) = unat v mod 10"
  unfolding unat_div unat_mod unat_10[OF assms] by (rule refl)+

lemma unsigned_loops:
  assumes "4 \<le> LENGTH('a::len)"
  shows "unat (v :: 'a word) < 10 ^ i \<Longrightarrow> i \<le> length buf \<Longrightarrow>
     unsigned_digits buf i v = Val (write_digs buf i (unat v)) \<and>
     bwrite_unsigned_loop buf i v = Val (write_digs buf i (unat v))"
proof (induction i arbitrary: v buf)
  case 0
  then have "v = 0" by (simp add: unat_eq_0)
  then show ?case by simp
next
  case (Suc i)
  show ?case
  proof (cases "v = 0")
    case False
    then have pos: "0 < v" "0 < unat v" by (simp_all add: word_neq_0_conv unat_gt_0)
    have "unat (v div 10) < 10 ^ i"
      using Suc.prems(1) unfolding unsigned_div_mod_10[OF assms]
      by (simp add: less_mult_imp_div_less mult.commute)
    then show ?thesis
      using Suc.IH[of "v div 10" "buf[i := digit_char (unat v mod 10)]"] Suc.prems pos
        write_digs_step[OF pos(2) Suc.prems]
      by (simp add: unsigned_div_mod_10[OF assms])
  qed simp
qed

definition magnitude :: "'a::len word \<Rightarrow> nat" where
  "magnitude v = nat \<bar>sint v\<bar>"

lemma magnitude_eq_0 [simp]: "magnitude v = 0 \<longleftrightarrow> v = 0"
  by (simp add: magnitude_def) (metis sint_0 signed_eq_0_iff)

lemma magnitude_0 [simp]: "magnitude 0 = 0"
  by (simp add: magnitude_def)

lemma magnitude_le: "magnitude (v :: 'a::len word) \<le> 2 ^ (LENGTH('a) - 1)"
  using sint_ge[of v] sint_lt[of v] by (simp add: magnitude_def nat_le_iff abs_le_iff)

lemma signed_rem10_magnitude: "signed_rem10 v = magnitude v mod 10"
proof -
  have "\<bar>sint v smod 10\<bar> = \<bar>sint v\<bar> mod 10"
    by (cases "sint v = 0") (simp_all add: signed_modulo_int_def abs_mult)
  then show ?thesis by (simp add: signed_rem10_def magnitude_def nat_mod_distrib)
qed

lemma signed_div10_magnitude: "magnitude (signed_div10 (v :: 'a::len word)) = magnitude v div 10"
proof -
  have a: "\<bar>sint v sdiv 10\<bar> = \<bar>sint v\<bar> div 10"
    by (cases "sint v = 0") (simp_all add: signed_divide_int_def abs_mult)
  have le: "\<bar>sint v sdiv 10\<bar> \<le> \<bar>sint v\<bar>" unfolding a by (simp add: zdiv_mono2[of _ 1 10, simplified])
  have "- (2 ^ (LENGTH('a) - 1)) \<le> sint v sdiv 10" "sint v sdiv 10 < 2 ^ (LENGTH('a) - 1)"
  proof -
    have b: "- (2 ^ (LENGTH('a) - 1)) \<le> sint v" "sint v < 2 ^ (LENGTH('a) - 1)"
      using sint_ge[of v] sint_lt[of v] by auto
    show "- (2 ^ (LENGTH('a) - 1)) \<le> sint v sdiv 10" using b le by linarith
    show "sint v sdiv 10 < 2 ^ (LENGTH('a) - 1)"
    proof (cases "0 < sint v")
      case False
      then have "sint v sdiv 10 \<le> 0"
        by (simp add: signed_divide_int_def sgn_if pos_imp_zdiv_nonneg_iff)
      also have "0 < (2::int) ^ (LENGTH('a) - 1)" by simp
      finally show ?thesis .
    qed (use b le in linarith)
  qed
  then have "sint (signed_div10 v) = sint v sdiv 10"
    by (simp add: signed_div10_def sint_sbintrunc' signed_take_bit_int_eq_self)
  then show ?thesis by (simp add: magnitude_def a nat_div_distrib)
qed

lemma signed_loops:
  "magnitude (v :: 'a::len word) < 10 ^ i \<Longrightarrow> i \<le> length buf \<Longrightarrow>
     signed_digits buf i v = Val (write_digs buf i (magnitude v)) \<and>
     bwrite_signed_loop buf i v = Val (write_digs buf i (magnitude v))"
proof (induction i arbitrary: v buf)
  case 0
  then have "magnitude v = 0" by simp
  then have "v = 0" by (simp only: magnitude_eq_0)
  then show ?case using magnitude_eq_0[of "0 :: 'a word"] by simp
next
  case (Suc i)
  show ?case
  proof (cases "v = 0")
    case True
    then show ?thesis using magnitude_eq_0[of v] by simp
  next
    case False
    then have pos: "0 < magnitude v" by (metis magnitude_eq_0 neq0_conv)
    have "magnitude (signed_div10 v) < 10 ^ i"
      using Suc.prems(1) unfolding signed_div10_magnitude
      by (simp add: less_mult_imp_div_less mult.commute)
    then show ?thesis
      using Suc.IH[of "signed_div10 v" "buf[i := digit_char (magnitude v mod 10)]"] Suc.prems False
        write_digs_step[OF pos Suc.prems]
      by (simp add: signed_div10_magnitude signed_rem10_magnitude)
  qed
qed

section \<open>Properties\<close>

text \<open>The widths the macros instantiate: one digit of the buffer is left for the sign.\<close>

lemma intstr_room:
  assumes "LENGTH('a::len) = 8 \<or> LENGTH('a) = 16 \<or> LENGTH('a) = 32 \<or> LENGTH('a) = 64"
  shows "(2::nat) ^ LENGTH('a) < 10 ^ (max_str_len_for_bits LENGTH('a) - 2)" "4 \<le> LENGTH('a)"
    "3 \<le> max_str_len_for_bits LENGTH('a)"
  using assms by (elim disjE; simp add: max_str_len_for_bits_def)+

lemma unsigned_to_intstr_text:
  assumes "LENGTH('a::len) = 8 \<or> LENGTH('a) = 16 \<or> LENGTH('a) = 32 \<or> LENGTH('a) = 64"
  shows "\<exists>s. unsigned_to_intstr (v :: 'a word) = Val s \<and> as_bytes s = dec (unat v) \<and> as_ptr s = dec (unat v)
    \<and> length (is_buf s) = max_str_len_for_bits LENGTH('a)"
proof -
  note room = intstr_room[OF assms]
  define m where "m = max_str_len_for_bits LENGTH('a) - 1"
  have m: "max_str_len_for_bits LENGTH('a) = Suc m" "2 \<le> m" using room(3) by (auto simp: m_def)
  let ?buf = "replicate (Suc m) (CHR 0x00)"
  have buf: "upd ?buf m (CHR 0x00) = Val ?buf"
    by (simp add: list_update_same_conv del: replicate_Suc)
  have last: "?buf = replicate m (CHR 0x00) @ [CHR 0x00]"
    by (simp add: replicate_append_same)
  show ?thesis
  proof (cases "v = 0")
    case True
    have "?buf = replicate (m - 1) (CHR 0x00) @ [CHR 0x00, CHR 0x00]"
      using m(2) replicate_add[of "m - 1" 2 "CHR 0x00"] by (simp add: numeral_2_eq_2 del: replicate_add)
    then have "upd ?buf (m - 1) (CHR ''0'') = Val (replicate (m - 1) (CHR 0x00) @ [CHR ''0'', CHR 0x00])"
      by (simp add: list_update_append del: replicate_Suc)
    then show ?thesis
      using True m buf by (simp add: unsigned_to_intstr_def Let_def as_bytes_def as_ptr_def dec_def del: replicate_Suc)
  next
    case False
    have "unat v < 2 ^ LENGTH('a)" by (rule unsigned_less)
    also have "\<dots> < 10 ^ (m - 1)" using room(1) m by simp
    finally have lt: "unat v < 10 ^ (m - 1)" .
    then have lt': "unat v < 10 ^ m"
      by (rule less_le_trans) (auto intro: power_increasing)
    have "unsigned_digits ?buf m v = Val (write_digs ?buf m (unat v))"
      using unsigned_loops[OF room(2) lt'] by (simp del: replicate_Suc)
    moreover have "length (digs (unat v)) \<le> m" using length_digs_le[OF lt'] .
    ultimately show ?thesis
      using False m buf last
      by (simp add: unsigned_to_intstr_def Let_def write_digs_def as_bytes_def as_ptr_def dec_def unat_eq_0
          del: replicate_Suc)
  qed
qed

text \<open>
  Printing an unsigned integer of 8 to 64 bits never indexes outside the
  buffer and leaves its decimal digits before a terminating NUL byte, so the C
  string and the byte slice both are the number in decimal.
\<close>

lemma unsigned_to_intstr_dec:
  assumes "LENGTH('a::len) = 8 \<or> LENGTH('a) = 16 \<or> LENGTH('a) = 32 \<or> LENGTH('a) = 64"
  shows "\<exists>s. unsigned_to_intstr (v :: 'a word) = Val s \<and> as_bytes s = dec (unat v) \<and> as_ptr s = dec (unat v)
    \<and> length (is_buf s) = max_str_len_for_bits LENGTH('a)"
  using unsigned_to_intstr_text[OF assms] .

lemma unsigned_to_intstr_dec_witness:
  "\<exists>s. unsigned_to_intstr (65535 :: 16 word) = Val s \<and> as_ptr s = ''65535''"
proof -
  have "dec 65535 = ''65535''" by (simp add: dec_eval)
  moreover have "unat (65535 :: 16 word) = 65535" by simp
  ultimately show ?thesis using unsigned_to_intstr_dec[where 'a = 16, of 65535] by force
qed

lemma signed_to_intstr_text:
  assumes "LENGTH('a::len) = 8 \<or> LENGTH('a) = 16 \<or> LENGTH('a) = 32 \<or> LENGTH('a) = 64"
  shows "\<exists>s. signed_to_intstr (v :: 'a word) = Val s \<and> as_bytes s = dec_int (sint v) \<and> as_ptr s = dec_int (sint v)
    \<and> length (is_buf s) = max_str_len_for_bits LENGTH('a)"
proof -
  note room = intstr_room[OF assms]
  define m where "m = max_str_len_for_bits LENGTH('a) - 1"
  have m: "max_str_len_for_bits LENGTH('a) = Suc m" "2 \<le> m" using room(3) by (auto simp: m_def)
  let ?buf = "replicate (Suc m) (CHR 0x00)"
  have buf: "upd ?buf m (CHR 0x00) = Val ?buf"
    by (simp add: list_update_same_conv del: replicate_Suc)
  have last: "?buf = replicate m (CHR 0x00) @ [CHR 0x00]"
    by (simp add: replicate_append_same)
  show ?thesis
  proof (cases "v = 0")
    case True
    have "?buf = replicate (m - 1) (CHR 0x00) @ [CHR 0x00, CHR 0x00]"
      using m(2) replicate_add[of "m - 1" 2 "CHR 0x00"] by (simp add: numeral_2_eq_2 del: replicate_add)
    then have "upd ?buf (m - 1) (CHR ''0'') = Val (replicate (m - 1) (CHR 0x00) @ [CHR ''0'', CHR 0x00])"
      by (simp add: list_update_append del: replicate_Suc)
    then show ?thesis
      using True m buf by (simp add: signed_to_intstr_def Let_def as_bytes_def as_ptr_def dec_int_def dec_def del: replicate_Suc)
  next
    case False
    let ?ds = "digs (magnitude v)"
    have "magnitude v \<le> 2 ^ (LENGTH('a) - 1)" by (rule magnitude_le)
    also have "\<dots> \<le> 2 ^ LENGTH('a)" by (intro power_increasing) auto
    also have "\<dots> < 10 ^ (m - 1)" using room(1) m by simp
    finally have lt: "magnitude v < 10 ^ (m - 1)" .
    then have lt': "magnitude v < 10 ^ m"
      by (rule less_le_trans) (auto intro: power_increasing)
    have run: "signed_digits ?buf m v = Val (write_digs ?buf m (magnitude v))"
      using signed_loops[OF lt'] by (simp del: replicate_Suc)
    have len: "length ?ds \<le> m - 1" using length_digs_le[OF lt] .
    define z where "z = m - 1 - length ?ds"
    have z: "m - length ?ds = Suc z" using len m by (simp add: z_def)
    have w: "write_digs ?buf m (magnitude v) = (replicate (Suc z) (CHR 0x00) @ ?ds @ [CHR 0x00], Suc z)"
      using z last by (simp add: write_digs_def del: replicate_Suc)
    have sgn: "dec_int (sint v) = (if sint v < 0 then [CHR ''-''] else []) @ ?ds"
      using False signed_eq_0_iff[of v] by (auto simp: dec_int_def dec_def magnitude_def)
    have "upd (replicate (Suc z) (CHR 0x00) @ ?ds @ [CHR 0x00]) z (CHR ''-'')
        = Val (replicate z (CHR 0x00) @ CHR ''-'' # ?ds @ [CHR 0x00])"
      by (simp add: list_update_append nth_append flip: replicate_append_same)
    then show ?thesis
      using False m buf run w sgn z
      by (auto simp: signed_to_intstr_def Let_def as_bytes_def as_ptr_def drop_Cons' simp del: replicate_Suc)
  qed
qed

text \<open>
  C30: Printing a signed integer of 8 to 64 bits, the smallest one included, never
  indexes outside the buffer and yields its decimal form with a minus sign.
\<close>

theorem signed_to_intstr_dec:
  assumes "LENGTH('a::len) = 8 \<or> LENGTH('a) = 16 \<or> LENGTH('a) = 32 \<or> LENGTH('a) = 64"
  shows "\<exists>s. signed_to_intstr (v :: 'a word) = Val s \<and> as_bytes s = dec_int (sint v) \<and> as_ptr s = dec_int (sint v)
    \<and> length (is_buf s) = max_str_len_for_bits LENGTH('a)"
  by (rule signed_to_intstr_text[OF assms])

theorem signed_to_intstr_dec_witness:
  "\<exists>s. signed_to_intstr (0x80 :: 8 word) = Val s \<and> as_ptr s = ''-128''"
proof -
  have "dec_int (- 128) = ''-128''" by (simp add: dec_eval)
  moreover have "sint (0x80 :: 8 word) = - 128" by simp
  ultimately show ?thesis using signed_to_intstr_dec[where 'a = 8, of "0x80"] by force
qed

text \<open>
  What \<open>bwrite\<close> prints for an integer of at most 128 bits, read back by the
  standard parser at that width, is the integer: the buffers of 39 and 40 bytes
  never overflow, although the loops have no guard.
\<close>

lemma bwrite_parse:
  assumes "4 \<le> LENGTH('a::len)" "LENGTH('a) \<le> 128"
  shows "(\<exists>s. bwrite_unsigned (v :: 'a word) = Val s \<and> parse_unsigned 10 (2 ^ LENGTH('a) - 1) s = Some (unat v))
       \<and> (\<exists>s. bwrite_signed v = Val s \<and> parse_signed 10 LENGTH('a) s = Some (sint v))"
proof -
  have le: "(2::nat) ^ LENGTH('a) \<le> 2 ^ 128" using assms(2) by (intro power_increasing) auto
  have v: "unat v < 2 ^ LENGTH('a)" by (rule unsigned_less)
  also note le
  also have "(2::nat) ^ 128 < 10 ^ 39" by simp
  finally have u: "unat v < 10 ^ 39" .
  have "magnitude v \<le> 2 ^ (LENGTH('a) - 1)" by (rule magnitude_le)
  also have "\<dots> \<le> 2 ^ 127" using assms(2) by (intro power_increasing) auto
  also have "\<dots> < (10::nat) ^ 39" by simp
  finally have s: "magnitude v < 10 ^ 39" .
  have len: "length (digs (unat v)) \<le> 39" "length (digs (magnitude v)) \<le> 39"
    using length_digs_le[OF u] length_digs_le[OF s] by auto
  have bu: "bwrite_unsigned v = Val (dec (unat v))"
    using unsigned_loops[OF assms(1) u, of "replicate 39 (CHR 0x00)"] len
    by (auto simp: bwrite_unsigned_def Let_def dec_def write_digs_def unat_eq_0)
  have "magnitude v < 10 ^ 40" using s by simp
  note loop = signed_loops[OF this, of "replicate 40 (CHR 0x00)"]
  define z where "z = 39 - length (digs (magnitude v))"
  have z: "40 - length (digs (magnitude v)) = Suc z" using len by (simp add: z_def)
  have "upd (replicate (Suc z) (CHR 0x00) @ digs (magnitude v)) z (CHR ''-'')
      = Val (replicate z (CHR 0x00) @ CHR ''-'' # digs (magnitude v))"
    by (simp add: list_update_append nth_append flip: replicate_append_same)
  moreover have "write_digs (replicate 40 (CHR 0x00)) 40 (magnitude v)
      = (replicate (Suc z) (CHR 0x00) @ digs (magnitude v), Suc z)"
    using z by (simp add: write_digs_def min_def del: replicate_Suc)
  moreover have "v \<noteq> 0 \<Longrightarrow> dec_int (sint v) = (if sint v < 0 then [CHR ''-''] else []) @ digs (magnitude v)"
    using signed_eq_0_iff[of v] by (auto simp: dec_int_def dec_def magnitude_def)
  ultimately have bs: "bwrite_signed v = Val (dec_int (sint v))"
    using loop z
    by (cases "v = 0") (auto simp: bwrite_signed_def Let_def dec_int_def dec_def simp del: replicate_Suc)
  have "unat v \<le> 2 ^ LENGTH('a) - 1"
    using v by linarith
  then show ?thesis
    using bu bs parse_unsigned_dec[of "unat v"] parse_signed_dec_int[of "LENGTH('a)" "sint v"]
      sint_ge[of v] sint_lt[of v] by simp
qed

lemma bwrite_parse_witness:
  "\<exists>s. bwrite_signed (- 1 :: 128 word) = Val s \<and> parse_signed 10 128 s = Some (- 1)"
  using bwrite_parse[where 'a = 128, of "- 1"] by simp

end
