(* ===== verification/Io_Common.thy ===== *)
theory Io_Common
  imports Rust_Std
begin

text \<open>
  \<open>llib/src/io_common.rs\<close>: the \<open>-f raw|hex\<close> option of the transfer commands and
  the hexadecimal encoding that carries binary data through bash strings.
\<close>

unbundle bit_operations_syntax

section \<open>Definitions\<close>

datatype format = Raw | Hex

datatype format_error =
    Invalid_format string
  | Utf8_error string

text \<open>The argument is the C string of a bash word (\<open>Cpnt::as_str\<close>).\<close>

definition parse_format :: "string \<Rightarrow> (format, format_error) result" where
  "parse_format cptr =
     (case from_utf8 cptr of
        Some s \<Rightarrow> if s = ''hex'' then Ok Hex else if s = ''raw'' then Ok Raw else Err (Invalid_format s)
      | None \<Rightarrow> Err (Utf8_error cptr))"

definition hex_chars :: string where
  "hex_chars = ''0123456789abcdef''"

fun hex_pairs :: "string \<Rightarrow> string option" where
  "hex_pairs (a # b # rest) =
     (case from_utf8 [a, b] of
        Some s \<Rightarrow> (case parse_unsigned 16 255 s of
                     Some byte \<Rightarrow> map_option (\<lambda>out. char_of byte # out) (hex_pairs rest)
                   | None \<Rightarrow> None)
      | None \<Rightarrow> None)"
| "hex_pairs _ = Some []"

definition hex_decode :: "string \<Rightarrow> string option" where
  "hex_decode hex = (if length hex mod 2 \<noteq> 0 then None else hex_pairs hex)"

definition hex_byte :: "char \<Rightarrow> string" where
  "hex_byte c = (let byte = (of_char c :: 8 word) in
     [hex_chars ! unat (drop_bit 4 byte), hex_chars ! unat (byte AND 0x0f)])"

definition hex_encode :: "string \<Rightarrow> string" where
  "hex_encode data = concat (map hex_byte data) @ [CHR 0x00]"

section \<open>One byte\<close>

lemma hex_byte_nat:
  "hex_byte c = [hex_chars ! (of_char c div 16), hex_chars ! (of_char c mod 16)]"
proof -
  have u: "unat (of_char c :: 8 word) = of_char c"
  proof -
    have "unat (of_nat (of_char c) :: 8 word) = of_char c"
      using nat_of_char_less_256[of c] by (simp only: unat_of_nat) simp
    then show ?thesis by (simp only: of_nat_of_char)
  qed
  have "unat (drop_bit 4 (of_char c :: 8 word)) = of_char c div 16"
    unfolding unat_drop_bit_eq u by (simp add: drop_bit_eq_div)
  moreover have "(of_char c :: 8 word) AND 0x0f = take_bit 4 (of_char c)"
    by (simp add: take_bit_eq_mask mask_eq_exp_minus_1)
  then have "unat ((of_char c :: 8 word) AND 0x0f) = of_char c mod 16"
    by (simp only: unsigned_take_bit_eq u) (simp add: take_bit_eq_mod)
  ultimately show ?thesis by (simp add: hex_byte_def Let_def)
qed

definition hex_digit_ok :: "nat \<Rightarrow> bool" where
  "hex_digit_ok d \<longleftrightarrow> to_digit 16 (hex_chars ! d) = Some d \<and> in_range 0 0x7F (hex_chars ! d)
     \<and> hex_chars ! d \<noteq> CHR 0x00 \<and> hex_chars ! d \<noteq> CHR ''+''
     \<and> \<not> in_range 65 90 (hex_chars ! d)"

lemma hex_digits_ok: "d < 16 \<Longrightarrow> hex_digit_ok d"
proof -
  have "list_all hex_digit_ok [0..<16]" by code_simp
  then show "d < 16 \<Longrightarrow> hex_digit_ok d" by (simp add: list_all_iff)
qed

lemma hex_byte_digits:
  assumes "i < 16" "j < 16"
  shows "parse_unsigned 16 255 [hex_chars ! i, hex_chars ! j] = Some (i * 16 + j)"
    "utf8_valid [hex_chars ! i, hex_chars ! j]" "nul_free [hex_chars ! i, hex_chars ! j]"
  using hex_digits_ok[OF assms(1)] hex_digits_ok[OF assms(2)] assms
  by (simp_all add: hex_digit_ok_def parse_unsigned_def)

lemma hex_byte_decode:
  "hex_pairs (hex_byte c @ s) = map_option (\<lambda>out. c # out) (hex_pairs s)" "nul_free (hex_byte c)" "length (hex_byte c) = 2"
proof -
  have d: "of_char c div 16 < (16::nat)" "of_char c mod 16 < (16::nat)"
    using of_char_less_256[of c] by (simp_all add: less_mult_imp_div_less)
  note h = hex_byte_digits[OF d, folded hex_byte_nat]
  have "of_char c div 16 * 16 + of_char c mod 16 = (of_char c :: nat)" by simp
  then show "hex_pairs (hex_byte c @ s) = map_option (\<lambda>out. c # out) (hex_pairs s)"
    using h(1,2) by (simp add: hex_byte_nat from_utf8_def del: utf8_valid.simps)
  show "nul_free (hex_byte c)" by (rule h(3))
  show "length (hex_byte c) = 2" by (simp add: hex_byte_nat)
qed

definition ascii_lower :: "char \<Rightarrow> char" where
  "ascii_lower c = (if in_range 65 90 c then char_of (of_char c + 32 :: nat) else c)"

lemma to_digit_lower_code:
  "to_digit 16 c = Some x \<Longrightarrow> \<not> in_range 65 90 c \<Longrightarrow> of_char c = (if x < 10 then 48 + x else 87 + x)"
  by (auto simp: to_digit_def in_range_def Let_def split: if_splits)

lemma to_digit_ascii_lower:
  assumes "to_digit 16 c = Some x"
  shows "to_digit 16 (ascii_lower c) = Some x" "\<not> in_range 65 90 (ascii_lower c)"
proof -
  have "of_char (char_of (of_char c + 32 :: nat)) = (of_char c + 32 :: nat)" if "in_range 65 90 c"
    using that by (simp add: in_range_def)
  then show "to_digit 16 (ascii_lower c) = Some x" "\<not> in_range 65 90 (ascii_lower c)"
    using assms by (auto simp: ascii_lower_def to_digit_def in_range_def Let_def split: if_splits)
qed

lemma to_digit_16_lower:
  assumes "to_digit 16 a = Some x"
  shows "hex_chars ! x = ascii_lower a"
proof -
  have "x < 16" using assms by (auto simp: to_digit_def Let_def split: if_splits)
  then have "of_char (hex_chars ! x) = (of_char (ascii_lower a) :: nat)"
    using hex_digits_ok[of x] to_digit_lower_code[of "hex_chars ! x" x]
      to_digit_lower_code[OF to_digit_ascii_lower[OF assms]] by (simp add: hex_digit_ok_def)
  then show ?thesis by (rule of_char_nat_inj)
qed

lemma to_digit_less: "to_digit r a = Some x \<Longrightarrow> x < r"
  by (auto simp: to_digit_def Let_def split: if_splits)

lemma hex_byte_of_pair:
  assumes "parse_unsigned 16 255 [a, b] = Some n" "a \<noteq> CHR ''+''"
  shows "hex_byte (char_of n) = [ascii_lower a, ascii_lower b]"
proof -
  obtain x y where xy: "to_digit 16 a = Some x" "to_digit 16 b = Some y" "n = x * 16 + y"
    using assms by (auto simp: parse_unsigned_def split: option.splits if_splits)
  then have "x < 16" "y < 16" using to_digit_less by auto
  then show ?thesis
    using xy to_digit_16_lower[OF xy(1)] to_digit_16_lower[OF xy(2)] by (simp add: hex_byte_nat)
qed

section \<open>Properties\<close>

lemma hex_pairs_encoded: "hex_pairs (concat (map hex_byte d)) = Some d"
  by (induction d) (simp_all add: hex_byte_decode)

lemma encoded_nul_free: "nul_free (concat (map hex_byte d))"
  by (induction d) (simp_all add: hex_byte_decode)

lemma encoded_length: "length (concat (map hex_byte d)) = 2 * length d"
  by (induction d) (simp_all add: hex_byte_decode)

lemma c_str_hex_encode: "c_str (hex_encode d) = concat (map hex_byte d)"
  by (simp add: hex_encode_def encoded_nul_free)

text \<open>
  Any data, NUL bytes included, survives the trip through a bash string: the C
  string of its hexadecimal form has two bytes per byte, no NUL, and decodes
  to the data.
\<close>

lemma hex_roundtrip:
  "hex_decode (c_str (hex_encode d)) = Some d \<and> length (c_str (hex_encode d)) = 2 * length d
     \<and> hex_encode d = c_str (hex_encode d) @ [CHR 0x00]"
  by (simp add: c_str_hex_encode hex_decode_def hex_pairs_encoded encoded_length) (simp add: hex_encode_def)

lemma hex_pairs_lower:
  "hex_pairs s = Some d \<Longrightarrow> CHR ''+'' \<notin> set s \<Longrightarrow> even (length s) \<Longrightarrow> concat (map hex_byte d) = map ascii_lower s"
proof (induction s arbitrary: d rule: hex_pairs.induct)
  case (1 a b rest)
  then show ?case
    by (auto simp: from_utf8_def hex_byte_of_pair split: option.splits if_splits simp del: utf8_valid.simps)
qed auto

text \<open>
  A hexadecimal string without plus signs that decodes is, up to the case of its
  letters, the encoding of what it decodes to; so two different spellings of the
  same data differ in letter case only.
\<close>

lemma hex_decode_canonical:
  assumes "hex_decode s = Some d" "CHR ''+'' \<notin> set s"
  shows "c_str (hex_encode d) = map ascii_lower s"
  using assms hex_pairs_lower[of s d] by (simp add: c_str_hex_encode hex_decode_def even_iff_mod_2_eq_zero split: if_splits)

lemma hex_decode_canonical_witness:
  "c_str (hex_encode [CHR 0x00, CHR 0xFF]) = map ascii_lower ''00Ff''"
proof -
  have "hex_decode ''00Ff'' = Some [CHR 0x00, CHR 0xFF]" by code_simp
  then show ?thesis by (rule hex_decode_canonical) simp
qed

text \<open>
  The decoder takes a plus sign followed by one digit as a byte, because the
  integer parser it calls accepts a sign, so a string that is not hexadecimal
  is not always rejected.
\<close>

lemma hex_decode_accepts_plus:
  assumes "to_digit 16 c = Some n"
  shows "hex_decode [CHR ''+'', c] = Some [char_of n]"
proof -
  have "in_range 0 0x7F c"
    using assms by (auto simp: to_digit_def in_range_def Let_def split: if_splits)
  moreover have "n < 16" using assms by (rule to_digit_less)
  ultimately show ?thesis
    using assms by (simp add: hex_decode_def from_utf8_def parse_unsigned_def in_range_def[of _ _ "CHR ''+''"])
qed

lemma hex_decode_accepts_plus_witness: "hex_decode ''+f'' = Some [CHR 0x0F]"
proof -
  have "to_digit 16 (CHR ''f'') = Some 15" by code_simp
  then have "hex_decode [CHR ''+'', CHR ''f''] = Some [char_of (15::nat)]" by (rule hex_decode_accepts_plus)
  moreover have "char_of (15::nat) = CHR 0x0F" by (simp add: char_of_def bit_Suc_0_iff)
  ultimately show ?thesis by simp
qed

end
