(* ===== verification/Variadic.thy ===== *)
theory Variadic
  imports Prelude
begin

text \<open>
  \<open>llib/src/variadic.rs\<close>: the compile-time check of C format strings. An iterator
  finds the conversion specifications of a format, and \<open>assert_spec_meta\<close>
  panics unless they are the ones the arguments need. The calls themselves go
  to C and are not modelled.
\<close>

section \<open>Definitions\<close>

fun str_eq_from :: "string \<Rightarrow> string \<Rightarrow> nat \<Rightarrow> nat \<Rightarrow> bool run" where
  "str_eq_from a b i 0 = Val True"
| "str_eq_from a b i (Suc n) =
     bindR (idx a i) (\<lambda>x. bindR (idx b i) (\<lambda>y.
     if x \<noteq> y then Val False else str_eq_from a b (Suc i) n))"

definition str_eq :: "string \<Rightarrow> string \<Rightarrow> bool run" where
  "str_eq a b = (if length a \<noteq> length b then Val False else str_eq_from a b 0 (length a))"

record spec_iter =
  si_fmt :: string
  si_idx :: nat

definition spec_iter_new :: "string \<Rightarrow> spec_iter" where
  "spec_iter_new fmt = \<lparr>si_fmt = fmt, si_idx = 0\<rparr>"

text \<open>\<open>while j < bytes.len() && p(bytes[j]) { j += 1 }\<close>\<close>

function skip_while :: "(char \<Rightarrow> bool) \<Rightarrow> string \<Rightarrow> nat \<Rightarrow> nat" where
  "skip_while p bytes j = (if j < length bytes \<and> p (bytes ! j) then skip_while p bytes (j + 1) else j)"
  by pat_completeness auto
termination
  by (relation "measure (\<lambda>(_, bytes, j). length bytes - j)") auto

declare skip_while.simps [simp del]

definition is_flag_char :: "char \<Rightarrow> bool" where
  "is_flag_char c \<longleftrightarrow> c = CHR ''-'' \<or> c = CHR ''+'' \<or> c = CHR ''0'' \<or> c = CHR '' '' \<or> c = CHR ''#''"

definition is_ascii_digit :: "char \<Rightarrow> bool" where
  "is_ascii_digit c \<longleftrightarrow> 48 \<le> (of_char c :: nat) \<and> (of_char c :: nat) \<le> 57"

definition is_length_char :: "char \<Rightarrow> bool" where
  "is_length_char c \<longleftrightarrow> c = CHR ''h'' \<or> c = CHR ''l'' \<or> c = CHR ''z'' \<or> c = CHR ''j'' \<or> c = CHR ''t'' \<or> c = CHR ''L''"

text \<open>Width: a star, or digits. Precision: a dot and then the same.\<close>

definition scan_width :: "string \<Rightarrow> nat \<Rightarrow> bool \<times> nat" where
  "scan_width bytes j =
     (if j < length bytes \<and> bytes ! j = CHR ''*'' then (True, j + 1)
      else (False, skip_while is_ascii_digit bytes j))"

definition scan_prec :: "string \<Rightarrow> nat \<Rightarrow> bool \<times> nat" where
  "scan_prec bytes j =
     (if j < length bytes \<and> bytes ! j = CHR ''.'' then scan_width bytes (j + 1) else (False, j))"

text \<open>From the byte after the percent sign to the conversion character.\<close>

definition scan_spec :: "string \<Rightarrow> nat \<Rightarrow> bool \<times> bool \<times> nat" where
  "scan_spec bytes j =
     (let j = skip_while is_flag_char bytes j;
          (dynamic_width, j) = scan_width bytes j;
          (dynamic_prec, j) = scan_prec bytes j;
          j = skip_while is_length_char bytes j
      in (dynamic_width, dynamic_prec, j))"

definition slice :: "string \<Rightarrow> nat \<Rightarrow> nat \<Rightarrow> string" where
  "slice bytes a b = take (b - a) (drop a bytes)"

function spec_scan :: "string \<Rightarrow> nat \<Rightarrow> (bool \<times> bool \<times> string) option \<times> nat" where
  "spec_scan bytes i =
     (if i < length bytes
      then if bytes ! i = CHR ''%''
           then if i + 1 < length bytes \<and> bytes ! (i + 1) = CHR ''%'' then spec_scan bytes (i + 2)
                else (case scan_spec bytes (i + 1) of (dynamic_width, dynamic_prec, j) \<Rightarrow>
                        if j < length bytes
                        then (Some (dynamic_width, dynamic_prec, slice bytes i (j + 1)), j + 1)
                        else spec_scan bytes (i + 1))
           else spec_scan bytes (i + 1)
      else (None, i))"
  by pat_completeness auto
termination
  by (relation "measure (\<lambda>(bytes, i). length bytes - i)") auto

declare spec_scan.simps [simp del]

definition spec_next :: "spec_iter \<Rightarrow> (bool \<times> bool \<times> string) option \<times> spec_iter" where
  "spec_next it = (case spec_scan (si_fmt it) (si_idx it) of (r, i) \<Rightarrow> (r, it\<lparr>si_idx := i\<rparr>))"

fun assert_metas :: "spec_iter \<Rightarrow> (bool \<times> bool \<times> string) list \<Rightarrow> spec_iter run" where
  "assert_metas it [] = Val it"
| "assert_metas it ((has_w, has_p, expected) # metas) =
     (case spec_next it of
        (Some (w, p, spec), it') \<Rightarrow>
          bindR (str_eq spec expected) (\<lambda>eq.
          if w = has_w \<and> p = has_p \<and> eq then assert_metas it' metas else Panic)
      | (None, it') \<Rightarrow> Panic)"

definition assert_spec_meta :: "string \<Rightarrow> (bool \<times> bool \<times> string) list \<Rightarrow> unit run" where
  "assert_spec_meta fmt metas =
     bindR (assert_metas (spec_iter_new fmt) metas) (\<lambda>it.
     if fst (spec_next it) \<noteq> None then Panic else Val ())"

section \<open>Progress\<close>

lemma skip_while_bounds: "j \<le> skip_while p bytes j \<and> (j \<le> length bytes \<longrightarrow> skip_while p bytes j \<le> length bytes)"
proof (induction p bytes j rule: skip_while.induct)
  case (1 p bytes j)
  then show ?case by (subst (1 2) skip_while.simps) auto
qed

lemma scan_width_ge: "j \<le> snd (scan_width bytes j)"
  using skip_while_bounds by (auto simp: scan_width_def)

lemma scan_prec_ge: "j \<le> snd (scan_prec bytes j)"
  using scan_width_ge[of "j + 1" bytes] by (auto simp: scan_prec_def)

lemma skip_while_ge: "j \<le> skip_while p bytes j"
  using skip_while_bounds by blast

lemma scan_spec_ge: "scan_spec bytes j = (w, p, k) \<Longrightarrow> j \<le> k"
proof -
  let ?a = "skip_while is_flag_char bytes j"
  let ?b = "snd (scan_width bytes ?a)"
  let ?c = "snd (scan_prec bytes ?b)"
  assume "scan_spec bytes j = (w, p, k)"
  then have "k = skip_while is_length_char bytes ?c"
    by (simp add: scan_spec_def Let_def split_beta)
  moreover have "j \<le> ?a" by (rule skip_while_ge)
  moreover have "?a \<le> ?b" by (rule scan_width_ge)
  moreover have "?b \<le> ?c" by (rule scan_prec_ge)
  moreover have "?c \<le> skip_while is_length_char bytes ?c" by (rule skip_while_ge)
  ultimately show "j \<le> k" by linarith
qed

definition spec_at :: "string \<Rightarrow> nat \<Rightarrow> nat \<Rightarrow> bool \<times> bool \<times> string \<Rightarrow> bool" where
  "spec_at bytes i j s \<longleftrightarrow> i + 1 < j \<and> j \<le> length bytes \<and> bytes ! i = CHR ''%'' \<and> snd (snd s) = slice bytes i j"

lemma spec_scan_Some:
  "spec_scan bytes i = (Some s, j) \<Longrightarrow> \<exists>k. i \<le> k \<and> spec_at bytes k j s"
proof (induction bytes i rule: spec_scan.induct)
  case (1 bytes i)
  obtain w p k where sc: "scan_spec bytes (i + 1) = (w, p, k)" by (cases "scan_spec bytes (i + 1)") auto
  have k: "i + 1 \<le> k" using scan_spec_ge[OF sc] .
  note scan = "1.prems"[unfolded spec_scan.simps[of bytes i] sc, simplified]
  consider "i < length bytes" "bytes ! i = CHR ''%''" "Suc i < length bytes" "bytes ! Suc i = CHR ''%''"
    | "i < length bytes" "bytes ! i = CHR ''%''" "\<not> (Suc i < length bytes \<and> bytes ! Suc i = CHR ''%'')" "k < length bytes"
    | "i < length bytes" "bytes ! i = CHR ''%''" "\<not> (Suc i < length bytes \<and> bytes ! Suc i = CHR ''%'')" "\<not> k < length bytes"
    | "i < length bytes" "bytes ! i \<noteq> CHR ''%''"
    using scan by (cases "i < length bytes") auto
  then show ?case
  proof cases
    case 1
    then have "spec_scan bytes (Suc (Suc i)) = (Some s, j)" using scan by simp
    then show ?thesis using "1.IH"(1) 1 Suc_leD by (metis Suc_eq_plus1 add_2_eq_Suc')
  next
    case 2
    then have "s = (w, p, slice bytes i (Suc k))" "j = Suc k" using scan by auto
    then show ?thesis using 2 k by (auto simp: spec_at_def)
  next
    case 3
    then have "spec_scan bytes (Suc i) = (Some s, j)" using scan by auto
    then show ?thesis using "1.IH"(2)[OF 3(1,2) _ sc[symmetric] refl] 3 Suc_leD by (metis Suc_eq_plus1)
  next
    case 4
    then have "spec_scan bytes (Suc i) = (Some s, j)" using scan by simp
    then show ?thesis using "1.IH"(3)[OF 4] Suc_leD by (metis Suc_eq_plus1)
  qed
qed

lemma spec_next_Some:
  assumes "spec_next it = (Some s, it')"
  shows "si_idx it < si_idx it' \<and> si_idx it' \<le> length (si_fmt it) \<and> si_fmt it' = si_fmt it"
  using assms spec_scan_Some by (fastforce simp: spec_next_def spec_at_def split: prod.splits)

text \<open>All the specifications of a format.\<close>

function specs :: "spec_iter \<Rightarrow> (bool \<times> bool \<times> string) list" where
  "specs it = (case spec_next it of (None, _) \<Rightarrow> [] | (Some s, it') \<Rightarrow> s # specs it')"
  by pat_completeness auto
termination
proof (relation "measure (\<lambda>it. length (si_fmt it) - si_idx it)", goal_cases)
  case (2 it r it' s)
  then show ?case using spec_next_Some[of it s it'] by auto
qed simp

declare specs.simps [simp del]

section \<open>Properties\<close>

lemma str_eq_from_eq: "length a = i + n \<Longrightarrow> length b = i + n \<Longrightarrow> str_eq_from a b i n = Val (drop i a = drop i b)"
proof (induction a b i n rule: str_eq_from.induct)
  case (2 a b i n)
  then show ?case by (simp add: Cons_nth_drop_Suc[symmetric])
qed simp

lemma str_eq_eq [simp]: "str_eq a b = Val (a = b)"
  using str_eq_from_eq[of a 0 "length a" b] by (auto simp: str_eq_def)

lemma assert_metas_specs:
  "bindR (assert_metas it metas) (\<lambda>it. if fst (spec_next it) \<noteq> None then Panic else Val ())
     = (if specs it = metas then Val () else Panic)"
proof (induction metas arbitrary: it)
  case Nil
  then show ?case by (auto simp: specs.simps[of it] split: prod.splits option.splits)
next
  case (Cons m metas)
  obtain has_w has_p e where m: "m = (has_w, has_p, e)" by (cases m)
  show ?case
  proof (cases "spec_next it")
    case (Pair r it')
    then show ?thesis
      using Cons.IH[of it'] m
    proof (cases r)
      case (Some x)
      obtain w p sp where x: "x = (w, p, sp)" by (cases x)
      show ?thesis
        using Cons.IH[of it'] Pair Some x m
        by (cases "w = has_w \<and> p = has_p \<and> sp = e") (auto simp: specs.simps[of it])
    qed (simp add: specs.simps[of it])
  qed
qed

text \<open>
  The check of a format string against the argument types passes exactly when
  the list of its conversion specifications, with their star widths and
  precisions, is the expected list; it panics in every other case.
\<close>

lemma assert_spec_meta_iff:
  "assert_spec_meta fmt metas = (if specs (spec_iter_new fmt) = metas then Val () else Panic)"
  by (simp only: assert_spec_meta_def assert_metas_specs)

text \<open>
  Each call of the iterator that finds a specification moves it forward and
  returns a part of the format of at least two bytes that starts with a
  percent sign and ends where the next search begins.
\<close>

lemma spec_next_progress:
  assumes "spec_next it = (Some (w, p, spec), it')"
  shows "si_fmt it' = si_fmt it \<and> si_idx it < si_idx it' \<and> si_idx it' \<le> length (si_fmt it)
    \<and> hd spec = CHR ''%'' \<and> 2 \<le> length spec
    \<and> (\<exists>k. si_idx it \<le> k \<and> spec = slice (si_fmt it) k (si_idx it'))"
proof -
  obtain k where k: "si_idx it \<le> k" "spec_at (si_fmt it) k (si_idx it') (w, p, spec)"
    using assms spec_scan_Some[of "si_fmt it" "si_idx it" "(w, p, spec)" "si_idx it'"]
    by (auto simp: spec_next_def split: prod.splits)
  then have "spec = slice (si_fmt it) k (si_idx it')" "k + 1 < si_idx it'" "si_idx it' \<le> length (si_fmt it)"
    "si_fmt it ! k = CHR ''%''" by (auto simp: spec_at_def)
  then show ?thesis
    using spec_next_Some[OF assms] k(1) by (auto simp: slice_def hd_drop_conv_nth)
qed

lemma spec_next_progress_witness:
  "spec_next (spec_iter_new ''a%%%-5.*lu'') = (Some (False, True, ''%-5.*lu''), \<lparr>si_fmt = ''a%%%-5.*lu'', si_idx = 10\<rparr>)
     \<and> hd ''%-5.*lu'' = CHR ''%''"
proof -
  have "spec_next (spec_iter_new ''a%%%-5.*lu'') = (Some (False, True, ''%-5.*lu''), \<lparr>si_fmt = ''a%%%-5.*lu'', si_idx = 10\<rparr>)"
    by code_simp
  then show ?thesis using spec_next_progress by blast
qed

end
