(* ===== verification/Cmd_Args.thy ===== *)
theory Cmd_Args
  imports Int_Str
begin

text \<open>
  The argument parser of every subcommand: the word-list iterator of
  \<open>l_builtin/src/bash_api.rs\<close>, the run-time support of \<open>l_builtin/src/cmdargs.rs\<close>
  and the code that the derive macro of \<open>cmdargs-derive/src/lib.rs\<close> generates.
  The generated code is modelled once, as an interpreter of the list of
  fields with their attributes. A word list is the list of its words, \<open>None\<close>
  for a node without a word. Error messages are not modelled, exit codes are.
  Bash's option scanner and variable functions are parameters.
\<close>

section \<open>Exit codes\<close>

text \<open>The named codes come from bash's headers; \<open>Code\<close> is a number a command
  computes, \<open>Code 0\<close> the result of showing help.\<close>

datatype exit_code = EXECUTION_FAILURE | EX_USAGE | EX_NOTFOUND | EX_RETRYFAIL | Code int

type_synonym cmd_result = "(unit, exit_code) result"

section \<open>Word lists\<close>

type_synonym word_list = "string option list"

definition iter_current :: "word_list \<Rightarrow> string option" where
  "iter_current ws = (case ws of [] \<Rightarrow> None | w # _ \<Rightarrow> w)"

definition iter_advance :: "word_list \<Rightarrow> word_list" where
  "iter_advance ws = (case ws of [] \<Rightarrow> [] | _ # ws' \<Rightarrow> ws')"

definition words_next :: "word_list \<Rightarrow> string option \<times> word_list" where
  "words_next ws = (iter_current ws, iter_advance ws)"

text \<open>\<open>while let Some(x) = iter.next()\<close>, collected.\<close>

fun words_collect :: "word_list \<Rightarrow> string list" where
  "words_collect (Some w # ws) = w # words_collect ws"
| "words_collect _ = []"

definition is_ascii_alphabetic :: "char \<Rightarrow> bool" where
  "is_ascii_alphabetic c \<longleftrightarrow> in_range 65 90 c \<or> in_range 97 122 c"

definition is_valid_var_name :: "string \<Rightarrow> bool" where
  "is_valid_var_name name =
     (case name of
        [] \<Rightarrow> False
      | first # rest \<Rightarrow>
          if \<not> is_ascii_alphabetic first \<and> first \<noteq> CHR ''_'' then False
          else list_all (\<lambda>ch. is_ascii_alphabetic ch \<or> in_range 48 57 ch \<or> ch = CHR ''_'') rest)"

section \<open>Conversions of one word\<close>

definition int_from_cpnt :: "nat \<Rightarrow> string \<Rightarrow> int option" where
  "int_from_cpnt bits s = (case from_utf8 s of Some s' \<Rightarrow> parse_signed 10 bits s' | None \<Rightarrow> None)"

definition uint_from_cpnt :: "nat \<Rightarrow> string \<Rightarrow> nat option" where
  "uint_from_cpnt bits s = (case from_utf8 s of Some s' \<Rightarrow> parse_unsigned 10 (2 ^ bits - 1) s' | None \<Rightarrow> None)"

definition str_from_cpnt :: "string \<Rightarrow> string option" where
  "str_from_cpnt s = from_utf8 s"

definition bytes_from_cpnt :: "string \<Rightarrow> string option" where
  "bytes_from_cpnt s = Some s"

text \<open>A duration in nanoseconds. \<open>parse_duration\<close> and the floating-point
  operations are not under the sources: the parser of human-readable
  durations, \<open>parse::<f64>\<close>, the test for a negative value and
  \<open>from_secs_f64\<close>, which panics on a value that no duration holds.\<close>

record 'f duration_ops =
  parse_duration :: "string \<Rightarrow> nat option"
  parse_f64 :: "string \<Rightarrow> 'f option"
  f64_negative :: "'f \<Rightarrow> bool"
  from_secs_f64 :: "'f \<Rightarrow> nat run"

definition duration_from_cpnt :: "'f duration_ops \<Rightarrow> string \<Rightarrow> nat option run" where
  "duration_from_cpnt ops cptr =
     (case from_utf8 cptr of
        None \<Rightarrow> Val None
      | Some s \<Rightarrow>
          (case parse_duration ops s of
             Some d \<Rightarrow> Val (Some d)
           | None \<Rightarrow> (case parse_f64 ops s of
                        None \<Rightarrow> Val None
                      | Some secs \<Rightarrow> if f64_negative ops secs then Val None
                                    else bindR (from_secs_f64 ops secs) (\<lambda>d. Val (Some d)))))"

section \<open>Shell variables\<close>

text \<open>Bash's variable functions over its state \<open>'w\<close>: \<open>var_readonly\<close> is
  \<open>find_variable\<close> with \<open>readonly_p\<close>, \<open>bind_variable\<close> fails with a null pointer.\<close>

record 'w bash_vars =
  legal_identifier :: "string \<Rightarrow> bool"
  var_readonly :: "'w \<Rightarrow> string \<Rightarrow> bool"
  bind_variable :: "string \<Rightarrow> string \<Rightarrow> 'w \<Rightarrow> bool \<times> 'w"

definition bash_var_validate :: "'w bash_vars \<Rightarrow> 'w \<Rightarrow> string \<Rightarrow> string option" where
  "bash_var_validate ops w name =
     (if \<not> legal_identifier ops name then None
      else if var_readonly ops w name then None
      else Some name)"

definition l_bind_variable_check :: "'w bash_vars \<Rightarrow> string \<Rightarrow> string \<Rightarrow> 'w \<Rightarrow> cmd_result \<times> 'w" where
  "l_bind_variable_check ops name val w =
     (if var_readonly ops w name then (Err EXECUTION_FAILURE, w)
      else case bind_variable ops name val w of
             (False, w') \<Rightarrow> (Err EXECUTION_FAILURE, w')
           | (True, w') \<Rightarrow> (Ok (), w'))"

definition bash_var_set :: "'w bash_vars \<Rightarrow> string \<Rightarrow> string \<Rightarrow> 'w \<Rightarrow> cmd_result \<times> 'w" where
  "bash_var_set ops name val w = l_bind_variable_check ops name val w"

text \<open>\<open>set_int\<close> for an unsigned and a signed integer type.\<close>

definition bash_var_set_unsigned :: "'w bash_vars \<Rightarrow> string \<Rightarrow> 'a::len word \<Rightarrow> 'w \<Rightarrow> (cmd_result \<times> 'w) run" where
  "bash_var_set_unsigned ops name v w =
     bindR (unsigned_to_intstr v) (\<lambda>s. Val (bash_var_set ops name (as_ptr s) w))"

definition bash_var_set_signed :: "'w bash_vars \<Rightarrow> string \<Rightarrow> 'a::len word \<Rightarrow> 'w \<Rightarrow> (cmd_result \<times> 'w) run" where
  "bash_var_set_signed ops name v w =
     bindR (signed_to_intstr v) (\<lambda>s. Val (bash_var_set ops name (as_ptr s) w))"

section \<open>The fields of an argument struct\<close>

text \<open>A field has its kind, with the default of the attribute, and its
  converter (\<open>FromCpnt\<close> or the expression of \<open>#[parse]\<close>), which gives \<open>None\<close>
  after printing an error.\<close>

datatype 'v field = Field (field_name: string) "'v field_kind" "string \<Rightarrow> 'v option"
and 'v field_kind =
    Opt_kind char "'v option"
  | Flag_kind char
  | Positional_kind 'v
  | Optional_kind "'v option"
  | Rest_view_kind
  | Rest_vec_kind
  | Flatten_kind "'v field list"

datatype 'v field_value =
    Absent
  | Value 'v
  | Boolean bool
  | Words word_list
  | Values "'v list"
  | Nested "'v field_value list"

fun field_default :: "'v field \<Rightarrow> 'v field_value" where
  "field_default (Field n (Opt_kind ch (Some d)) conv) = Value d"
| "field_default (Field n (Opt_kind ch None) conv) = Absent"
| "field_default (Field n (Flag_kind ch) conv) = Boolean False"
| "field_default (Field n (Positional_kind d) conv) = Value d"
| "field_default (Field n (Optional_kind (Some d)) conv) = Value d"
| "field_default (Field n (Optional_kind None) conv) = Absent"
| "field_default (Field n Rest_view_kind conv) = Words []"
| "field_default (Field n Rest_vec_kind conv) = Values []"
| "field_default (Field n (Flatten_kind fs) conv) = Nested (map field_default fs)"

definition new_default :: "'v field list \<Rightarrow> 'v field_value list" where
  "new_default fs = map field_default fs"

fun own_optstring :: "'v field \<Rightarrow> string" where
  "own_optstring (Field n (Opt_kind ch d) conv) = [ch, CHR '':'']"
| "own_optstring (Field n (Flag_kind ch) conv) = [ch]"
| "own_optstring _ = []"

fun inherit_optstring :: "'v field list \<Rightarrow> string"
and flatten_optstring :: "'v field \<Rightarrow> string" where
  "inherit_optstring fs = concat (map own_optstring fs) @ concat (map flatten_optstring fs)"
| "flatten_optstring (Field n (Flatten_kind fs) conv) = inherit_optstring fs"
| "flatten_optstring _ = []"

definition optstring :: "'v field list \<Rightarrow> string" where
  "optstring fs = inherit_optstring fs @ ''h''"

fun is_rest :: "'v field \<Rightarrow> bool" where
  "is_rest (Field n Rest_view_kind conv) = True"
| "is_rest (Field n Rest_vec_kind conv) = True"
| "is_rest _ = False"

definition has_rest :: "'v field list \<Rightarrow> bool" where
  "has_rest fs = list_ex is_rest fs"

section \<open>Applying an option\<close>

fun apply_own :: "char \<Rightarrow> string \<Rightarrow> 'v field \<Rightarrow> 'v field_value \<Rightarrow> ('v field_value, exit_code) result" where
  "apply_own c p (Field n (Opt_kind ch d) conv) v =
     (if c = ch then (case conv p of Some x \<Rightarrow> Ok (Value x) | None \<Rightarrow> Err EX_USAGE) else Ok v)"
| "apply_own c p (Field n (Flag_kind ch) conv) v = (if c = ch then Ok (Boolean True) else Ok v)"
| "apply_own c p _ v = Ok v"

fun apply_owns :: "char \<Rightarrow> string \<Rightarrow> 'v field list \<Rightarrow> 'v field_value list \<Rightarrow> ('v field_value list, exit_code) result" where
  "apply_owns c p (f # fs) (v # vs) =
     bindE (apply_own c p f v) (\<lambda>v'. bindE (apply_owns c p fs vs) (\<lambda>vs'. Ok (v' # vs')))"
| "apply_owns c p _ _ = Ok []"

text \<open>First the struct's own options, then the flattened structs.\<close>

function (sequential) apply_opt ::
    "char \<Rightarrow> string \<Rightarrow> 'v field list \<Rightarrow> 'v field_value list \<Rightarrow> ('v field_value list, exit_code) result"
and apply_flattens ::
    "char \<Rightarrow> string \<Rightarrow> 'v field list \<Rightarrow> 'v field_value list \<Rightarrow> ('v field_value list, exit_code) result"
and apply_nested ::
    "char \<Rightarrow> string \<Rightarrow> 'v field \<Rightarrow> 'v field_value \<Rightarrow> ('v field_value, exit_code) result" where
  "apply_opt c p fs vs = bindE (apply_owns c p fs vs) (\<lambda>vs'. apply_flattens c p fs vs')"
| "apply_flattens c p (f # fs) (v # vs) =
     bindE (apply_nested c p f v) (\<lambda>v'. bindE (apply_flattens c p fs vs) (\<lambda>vs'. Ok (v' # vs')))"
| "apply_flattens c p _ _ = Ok []"
| "apply_nested c p (Field n (Flatten_kind gs) conv) (Nested us) =
     bindE (apply_opt c p gs us) (\<lambda>us'. Ok (Nested us'))"
| "apply_nested c p f v = Ok v"
  by pat_completeness auto
termination
  by (relation "measure (\<lambda>x. case x of
         Inl (c, p, fs, vs) \<Rightarrow> 3 * size_list size fs + 2
       | Inr (Inl (c, p, fs, vs)) \<Rightarrow> 3 * size_list size fs + 1
       | Inr (Inr (c, p, f, v)) \<Rightarrow> 3 * size f)") auto

section \<open>Binding the positional words\<close>

fun take_rest :: "(string \<Rightarrow> 'v option) \<Rightarrow> word_list \<Rightarrow> ('v list \<times> word_list, exit_code) result" where
  "take_rest conv (Some w # ws) =
     (case conv w of
        Some x \<Rightarrow> bindE (take_rest conv ws) (\<lambda>(xs, ws'). Ok (x # xs, ws'))
      | None \<Rightarrow> Err EX_USAGE)"
| "take_rest conv ws = Ok ([], iter_advance ws)"

fun fill_rests :: "'v field list \<Rightarrow> 'v field_value list \<Rightarrow> word_list \<Rightarrow> ('v field_value list \<times> word_list, exit_code) result" where
  "fill_rests (Field n Rest_vec_kind conv # fs) (v # vs) ws =
     bindE (take_rest conv ws) (\<lambda>(xs, ws'). bindE (fill_rests fs vs ws') (\<lambda>(vs', ws''). Ok (Values xs # vs', ws'')))"
| "fill_rests (Field n Rest_view_kind conv # fs) (v # vs) ws =
     bindE (fill_rests fs vs ws) (\<lambda>(vs', ws'). Ok (Words ws # vs', ws'))"
| "fill_rests (f # fs) (v # vs) ws = bindE (fill_rests fs vs ws) (\<lambda>(vs', ws'). Ok (v # vs', ws'))"
| "fill_rests _ _ ws = Ok ([], ws)"

fun fill_one :: "'v field \<Rightarrow> 'v field_value \<Rightarrow> word_list \<Rightarrow> ('v field_value \<times> word_list, exit_code) result" where
  "fill_one (Field n (Positional_kind d) conv) v ws =
     (case words_next ws of
        (None, ws') \<Rightarrow> Err EX_USAGE
      | (Some w, ws') \<Rightarrow> (case conv w of Some x \<Rightarrow> Ok (Value x, ws') | None \<Rightarrow> Err EX_USAGE))"
| "fill_one (Field n (Optional_kind d) conv) v ws =
     (case words_next ws of
        (Some w, ws') \<Rightarrow> (case conv w of Some x \<Rightarrow> Ok (Value x, ws') | None \<Rightarrow> Err EX_USAGE)
      | (None, ws') \<Rightarrow> (case d of Some x \<Rightarrow> Ok (Value x, ws') | None \<Rightarrow> Ok (v, ws')))"
| "fill_one _ v ws = Ok (v, ws)"

text \<open>The positional fields in declaration order, flattened structs in their
  place, and the rest field after all of them.\<close>

function (sequential) fill_positionals ::
    "'v field list \<Rightarrow> 'v field_value list \<Rightarrow> word_list \<Rightarrow> ('v field_value list \<times> word_list, exit_code) result"
and fill_stmts ::
    "'v field list \<Rightarrow> 'v field_value list \<Rightarrow> word_list \<Rightarrow> ('v field_value list \<times> word_list, exit_code) result"
and fill_stmt ::
    "'v field \<Rightarrow> 'v field_value \<Rightarrow> word_list \<Rightarrow> ('v field_value \<times> word_list, exit_code) result" where
  "fill_positionals fs vs ws = bindE (fill_stmts fs vs ws) (\<lambda>(vs', ws'). fill_rests fs vs' ws')"
| "fill_stmts (f # fs) (v # vs) ws =
     bindE (fill_stmt f v ws) (\<lambda>(v', ws'). bindE (fill_stmts fs vs ws') (\<lambda>(vs', ws''). Ok (v' # vs', ws'')))"
| "fill_stmts _ _ ws = Ok ([], ws)"
| "fill_stmt (Field n (Flatten_kind gs) conv) (Nested us) ws =
     bindE (fill_positionals gs us ws) (\<lambda>(us', ws'). Ok (Nested us', ws'))"
| "fill_stmt f v ws = fill_one f v ws"
  by pat_completeness auto
termination
  by (relation "measure (\<lambda>x. case x of
         Inl (fs, vs, ws) \<Rightarrow> 3 * size_list size fs + 2
       | Inr (Inl (fs, vs, ws)) \<Rightarrow> 3 * size_list size fs + 1
       | Inr (Inr (f, v, ws)) \<Rightarrow> 3 * size f)") auto

section \<open>The parser\<close>

text \<open>Bash's \<open>internal_getopt\<close>: its state after \<open>reset_internal_getopt\<close>, and one
  call with the words and the option string. At the end it leaves the
  remaining words in \<open>loptend\<close>.\<close>

datatype getopt_event =
    Getopt_end word_list
  | Getopt_help
  | Getopt_bad
  | Getopt_opt char string

record 'g getopt =
  getopt_reset :: 'g
  getopt_call :: "'g \<Rightarrow> word_list \<Rightarrow> string \<Rightarrow> getopt_event \<times> 'g"

text \<open>The loop of \<open>parse\<close>; \<open>None\<close> when it does not end.\<close>

partial_function (option) parse_opts ::
    "'g getopt \<Rightarrow> word_list \<Rightarrow> 'v field list \<Rightarrow> 'g \<Rightarrow> 'v field_value list
     \<Rightarrow> ('v field_value list \<times> word_list, exit_code) result option" where
  "parse_opts ops list fs g vs =
     (case getopt_call ops g list (optstring fs) of
        (Getopt_end loptend, g') \<Rightarrow> Some (Ok (vs, loptend))
      | (Getopt_help, g') \<Rightarrow> Some (Err (Code 0))
      | (Getopt_bad, g') \<Rightarrow> Some (Err EX_USAGE)
      | (Getopt_opt c p, g') \<Rightarrow>
          (if c = CHR ''h'' then Some (Err (Code 0))
           else if c = CHR ''?'' \<or> c = CHR '':'' then Some (Err EX_USAGE)
           else case apply_opt c p fs vs of
                  Err e \<Rightarrow> Some (Err e)
                | Ok vs' \<Rightarrow> parse_opts ops list fs g' vs'))"

text \<open>\<open>post\<close> of the trait. The generic \<open>parse\<close> is compiled against the trait, so
  this default is what it calls for every struct.\<close>

definition post :: "'v field_value list \<Rightarrow> (unit, exit_code) result" where
  "post vs = Ok ()"

definition parse :: "'g getopt \<Rightarrow> 'v field list \<Rightarrow> word_list \<Rightarrow> ('v field_value list, exit_code) result option" where
  "parse ops fs list =
     (case parse_opts ops list fs (getopt_reset ops) (new_default fs) of
        None \<Rightarrow> None
      | Some r \<Rightarrow> Some (bindE r (\<lambda>(vs, loptend).
          bindE (fill_positionals fs vs loptend) (\<lambda>(vs', iter).
          if \<not> has_rest fs \<and> fst (words_next iter) \<noteq> None then Err EX_USAGE
          else bindE (post vs') (\<lambda>_. Ok vs')))))"

section \<open>What bash's scanner returns\<close>

text \<open>From state \<open>g\<close> the scanner returns the options \<open>evs\<close>, then the end with the
  words \<open>rest\<close>.\<close>

inductive getopt_yields :: "'g getopt \<Rightarrow> word_list \<Rightarrow> string \<Rightarrow> 'g \<Rightarrow> (char \<times> string) list \<Rightarrow> word_list \<Rightarrow> bool"
  for ops list os where
  yields_end: "getopt_call ops g list os = (Getopt_end rest, g') \<Longrightarrow> getopt_yields ops list os g [] rest"
| yields_opt: "getopt_call ops g list os = (Getopt_opt c p, g') \<Longrightarrow> c \<notin> set ''h?:'' \<Longrightarrow>
    getopt_yields ops list os g' evs rest \<Longrightarrow> getopt_yields ops list os g ((c, p) # evs) rest"

fun apply_all :: "'v field list \<Rightarrow> (char \<times> string) list \<Rightarrow> 'v field_value list \<Rightarrow> ('v field_value list, exit_code) result" where
  "apply_all fs [] vs = Ok vs"
| "apply_all fs ((c, p) # evs) vs = bindE (apply_opt c p fs vs) (apply_all fs evs)"

lemma parse_opts_yields:
  assumes "getopt_yields ops list (optstring fs) g evs rest"
  shows "parse_opts ops list fs g vs = Some (bindE (apply_all fs evs vs) (\<lambda>vs'. Ok (vs', rest)))"
  using assms
proof (induction arbitrary: vs)
  case (yields_end g rest g')
  then show ?case by (subst parse_opts.simps) simp
next
  case (yields_opt g c p g' evs rest)
  then show ?case
    by (subst parse_opts.simps) (auto split: result.splits)
qed

lemma parse_yields:
  assumes "getopt_yields ops list (optstring fs) (getopt_reset ops) evs rest"
  shows "parse ops fs list = Some (bindE (apply_all fs evs (new_default fs)) (\<lambda>vs.
    bindE (fill_positionals fs vs rest) (\<lambda>(vs', iter).
    if \<not> has_rest fs \<and> fst (words_next iter) \<noteq> None then Err EX_USAGE else Ok vs')))"
  unfolding parse_def parse_opts_yields[OF assms] post_def
  by (cases "apply_all fs evs (new_default fs)")
     (auto intro!: bindE_cong split: prod.splits)

section \<open>The shape of a struct\<close>

inductive has_shape :: "'v field \<Rightarrow> 'v field_value \<Rightarrow> bool" where
  shape_flatten: "list_all2 has_shape gs us \<Longrightarrow> has_shape (Field n (Flatten_kind gs) conv) (Nested us)"
| shape_plain: "(\<And>gs. k \<noteq> Flatten_kind gs) \<Longrightarrow> has_shape (Field n k conv) v"
  monos list.rel_mono

inductive_cases has_shape_flatten: "has_shape (Field n (Flatten_kind gs) conv) v"

lemma has_shape_plain [simp]: "\<nexists>gs. k = Flatten_kind gs \<Longrightarrow> has_shape (Field n k conv) v"
  by (rule shape_plain) auto

lemma new_default_shape: "list_all2 has_shape fs (new_default fs)"
proof -
  have "has_shape f (field_default f)" for f :: "'a field"
  proof (induction f rule: field_default.induct)
    case (9 n fs conv)
    then show ?case by (auto intro!: shape_flatten simp: list_all2_conv_all_nth)
  qed auto
  then show ?thesis
    by (simp add: new_default_def list_all2_conv_all_nth)
qed

text \<open>Every converter accepts every word.\<close>

fun accepts :: "'v field \<Rightarrow> bool" where
  "accepts (Field n (Flatten_kind gs) conv) = list_all accepts gs"
| "accepts (Field n k conv) = (\<forall>s. conv s \<noteq> None)"

fun no_rest :: "'v field \<Rightarrow> bool" where
  "no_rest (Field n (Flatten_kind gs) conv) = list_all no_rest gs"
| "no_rest f = (\<not> is_rest f)"

text \<open>The positional slots in binding order, \<open>True\<close> for a required one, and how
  many words they need at least: the place of the last required slot.\<close>

fun slots :: "'v field \<Rightarrow> bool list" where
  "slots (Field n (Positional_kind d) conv) = [True]"
| "slots (Field n (Optional_kind d) conv) = [False]"
| "slots (Field n (Flatten_kind gs) conv) = concat (map slots gs)"
| "slots _ = []"

definition all_slots :: "'v field list \<Rightarrow> bool list" where
  "all_slots fs = concat (map slots fs)"

fun needed :: "bool list \<Rightarrow> nat" where
  "needed [] = 0"
| "needed (b # bs) = (if b \<or> 0 < needed bs then Suc (needed bs) else 0)"

lemma needed_le: "needed bs \<le> length bs"
  by (induction bs) auto

lemma needed_append: "needed (as @ bs) = (if 0 < needed bs then length as + needed bs else needed as)"
  by (induction as) auto

lemma needed_append_le: "needed (as @ bs) \<le> n \<longleftrightarrow> needed as \<le> n \<and> needed bs \<le> n - length as"
  using needed_le[of as] by (auto simp: needed_append)

lemma apply_owns_ok:
  "list_all2 has_shape fs vs \<Longrightarrow> list_all accepts fs \<Longrightarrow> \<exists>vs'. apply_owns c p fs vs = Ok vs' \<and> list_all2 has_shape fs vs'"
proof (induction fs vs rule: list_all2_induct)
  case (Cons f fs v vs)
  obtain n k conv where f: "f = Field n k conv" by (cases f)
  have "\<exists>v'. apply_own c p f v = Ok v' \<and> has_shape f v'"
  proof (cases k)
    case (Opt_kind ch d)
    then obtain x where "conv p = Some x" using Cons.prems f by auto
    then show ?thesis using f Opt_kind by simp
  qed (use f Cons.hyps(1) in auto)
  then show ?case using Cons by auto
qed simp

lemma apply_opt_ok:
  fixes fs :: "'v field list" and f :: "'v field"
  shows "list_all2 has_shape fs vs \<Longrightarrow> list_all accepts fs \<Longrightarrow> \<exists>vs'. apply_opt c p fs vs = Ok vs' \<and> list_all2 has_shape fs vs'"
  "list_all2 has_shape fs vs \<Longrightarrow> list_all accepts fs \<Longrightarrow> \<exists>vs'. apply_flattens c p fs vs = Ok vs' \<and> list_all2 has_shape fs vs'"
  "has_shape f v \<Longrightarrow> accepts f \<Longrightarrow> \<exists>v'. apply_nested c p f v = Ok v' \<and> has_shape f v'"
proof (induction c p fs vs and c p fs vs and c p f v rule: apply_opt_apply_flattens_apply_nested.induct)
  case (1 c p fs vs)
  then obtain vs' where "apply_owns c p fs vs = Ok vs'" "list_all2 has_shape fs vs'"
    using apply_owns_ok by blast
  then show ?case using 1 by auto
next
  case (2 c p f fs v vs)
  then obtain v' vs' where "apply_nested c p f v = Ok v'" "has_shape f v'"
    "apply_flattens c p fs vs = Ok vs'" "list_all2 has_shape fs vs'" by auto
  then show ?case by simp
next
  case (4 c p n gs conv us)
  then have "list_all2 has_shape gs us" by (auto elim: has_shape_flatten)
  then obtain us' where "apply_opt c p gs us = Ok us'" "list_all2 has_shape gs us'" using 4 by auto
  then show ?case by (auto intro: shape_flatten simp del: apply_opt.simps)
qed (simp_all del: apply_opt.simps)

lemma apply_all_ok:
  "list_all2 has_shape fs vs \<Longrightarrow> list_all accepts fs \<Longrightarrow> \<exists>vs'. apply_all fs evs vs = Ok vs' \<and> list_all2 has_shape fs vs'"
proof (induction fs evs vs rule: apply_all.induct)
  case (2 fs c p evs vs)
  then obtain vs' where "apply_opt c p fs vs = Ok vs'" "list_all2 has_shape fs vs'"
    using apply_opt_ok(1) by blast
  then show ?case using 2 by auto
qed simp

lemma fill_rests_none: "list_all no_rest fs \<Longrightarrow> length vs = length fs \<Longrightarrow> fill_rests fs vs ws = Ok (vs, ws)"
  by (induction fs vs ws rule: fill_rests.induct) auto

definition fills :: "'v field list \<Rightarrow> bool list \<Rightarrow> string list \<Rightarrow> ('v field_value list \<times> word_list, exit_code) result \<Rightarrow> bool" where
  "fills fs bs xs r \<longleftrightarrow>
     (if needed bs \<le> length xs then \<exists>vs'. r = Ok (vs', map Some (drop (length bs) xs)) \<and> list_all2 has_shape fs vs'
      else r = Err EX_USAGE)"

lemma fill_one_fills:
  assumes "has_shape f v" "accepts f" "no_rest f" "\<nexists>gs n conv. f = Field n (Flatten_kind gs) conv"
  shows "if needed (slots f) \<le> length xs
    then \<exists>v'. fill_one f v (map Some xs) = Ok (v', map Some (drop (length (slots f)) xs)) \<and> has_shape f v'
    else fill_one f v (map Some xs) = Err EX_USAGE"
proof (cases f)
  case (Field n k conv)
  then show ?thesis
    using assms by (cases k; cases xs)
     (auto simp: words_next_def iter_current_def iter_advance_def split: option.splits)
qed

lemma fill_plain_case:
  assumes "has_shape f v" "accepts f" "no_rest f" "ws = map Some xs" "fill_stmt f v ws = fill_one f v ws"
    "(\<forall>us. v \<noteq> Nested us) \<or> (\<forall>gs n conv. f \<noteq> Field n (Flatten_kind gs) conv)"
  shows "if needed (slots f) \<le> length xs
      then \<exists>v'. fill_stmt f v ws = Ok (v', map Some (drop (length (slots f)) xs)) \<and> has_shape f v'
      else fill_stmt f v ws = Err EX_USAGE"
proof -
  have "\<nexists>gs n conv. f = Field n (Flatten_kind gs) conv"
    using assms(1,6) by (auto elim: has_shape_flatten)
  then show ?thesis using fill_one_fills[OF assms(1-3)] assms(4,5) by simp
qed

lemma fill_positionals_fills:
  fixes fs :: "'v field list" and f :: "'v field"
  shows "list_all2 has_shape fs vs \<Longrightarrow> list_all accepts fs \<Longrightarrow> list_all no_rest fs \<Longrightarrow> ws = map Some xs \<Longrightarrow>
     fills fs (all_slots fs) xs (fill_positionals fs vs ws)"
  "list_all2 has_shape fs vs \<Longrightarrow> list_all accepts fs \<Longrightarrow> list_all no_rest fs \<Longrightarrow> ws = map Some xs \<Longrightarrow>
     fills fs (all_slots fs) xs (fill_stmts fs vs ws)"
  "has_shape f v \<Longrightarrow> accepts f \<Longrightarrow> no_rest f \<Longrightarrow> ws = map Some xs \<Longrightarrow>
     (if needed (slots f) \<le> length xs
      then \<exists>v'. fill_stmt f v ws = Ok (v', map Some (drop (length (slots f)) xs)) \<and> has_shape f v'
      else fill_stmt f v ws = Err EX_USAGE)"
proof (induction fs vs ws and fs vs ws and f v ws arbitrary: xs and xs and xs
    rule: fill_positionals_fill_stmts_fill_stmt.induct)
  case (1 fs vs ws)
  have "fills fs (all_slots fs) xs (fill_stmts fs vs ws)" using 1 by blast
  then show ?case
    using fill_rests_none[OF 1(4)] list_all2_lengthD by (fastforce simp: fills_def split: if_splits)
next
  case (2 f fs v vs ws)
  have slots: "all_slots (f # fs) = slots f @ all_slots fs" by (simp add: all_slots_def)
  show ?case
  proof (cases "needed (slots f) \<le> length xs")
    case True
    then obtain v' where v: "fill_stmt f v ws = Ok (v', map Some (drop (length (slots f)) xs))" "has_shape f v'"
      using 2 by fastforce
    have "fills fs (all_slots fs) (drop (length (slots f)) xs) (fill_stmts fs vs (map Some (drop (length (slots f)) xs)))"
      using 2 v by auto
    then show ?thesis
      using v True unfolding fills_def slots needed_append_le
      by (auto simp: add.commute split: if_splits)
  next
    case False
    then have "fill_stmt f v ws = Err EX_USAGE" using 2 by fastforce
    then show ?thesis using False unfolding fills_def slots needed_append_le by simp
  qed
next
  case (4 n gs conv us ws)
  then have gs: "list_all2 has_shape gs us" by (auto elim: has_shape_flatten)
  have "fills gs (all_slots gs) xs (fill_positionals gs us ws)" using 4 gs by auto
  then show ?case
    by (auto simp: fills_def all_slots_def shape_flatten split: if_splits)
qed ((rule fill_plain_case; simp) | simp add: fills_def all_slots_def)+

section \<open>Options field by field\<close>

lemma apply_owns_nth:
  "apply_owns c p fs vs = Ok vs' \<Longrightarrow> length vs = length fs \<Longrightarrow>
    length vs' = length fs \<and> (\<forall>i<length fs. apply_own c p (fs ! i) (vs ! i) = Ok (vs' ! i))"
proof (induction c p fs vs arbitrary: vs' rule: apply_owns.induct)
  case (1 c p f fs v vs)
  then show ?case by (fastforce simp: bindE_eq_Ok less_Suc_eq_0_disj)
qed auto

lemma apply_flattens_nth:
  "apply_flattens c p fs vs = Ok vs' \<Longrightarrow> length vs = length fs \<Longrightarrow>
    length vs' = length fs \<and> (\<forall>i<length fs. apply_nested c p (fs ! i) (vs ! i) = Ok (vs' ! i))"
proof (induction fs arbitrary: vs vs')
  case (Cons f fs)
  then show ?case by (cases vs) (fastforce simp: bindE_eq_Ok less_Suc_eq_0_disj)+
qed simp

lemma apply_opt_own:
  assumes "apply_opt c p fs vs = Ok vs'" "length vs = length fs" "i < length fs" "fs ! i = Field n k conv"
    "\<nexists>gs. k = Flatten_kind gs"
  shows "length vs' = length fs \<and> apply_own c p (fs ! i) (vs ! i) = Ok (vs' ! i)"
proof -
  obtain us where us: "apply_owns c p fs vs = Ok us" "apply_flattens c p fs us = Ok vs'"
    using assms(1) by (auto simp: bindE_eq_Ok)
  have o: "length us = length fs" "apply_own c p (fs ! i) (vs ! i) = Ok (us ! i)"
    using apply_owns_nth[OF us(1) assms(2)] assms(3) by auto
  have "length vs' = length fs" "apply_nested c p (fs ! i) (us ! i) = Ok (vs' ! i)"
    using apply_flattens_nth[OF us(2) o(1)] assms(3) by auto
  moreover have "apply_nested c p (Field n k conv) v = Ok v" for v
    using assms(5) by (cases k; cases v) auto
  ultimately show ?thesis using o assms(4) by simp
qed

definition last_opt :: "char \<Rightarrow> (char \<times> string) list \<Rightarrow> string option" where
  "last_opt ch evs = fold (\<lambda>(c, p) r. if c = ch then Some p else r) evs None"

lemma last_opt_snoc: "last_opt ch (evs @ [(c, p)]) = (if c = ch then Some p else last_opt ch evs)"
  by (simp add: last_opt_def)

lemma apply_all_append: "apply_all fs (evs @ evs') vs = bindE (apply_all fs evs vs) (apply_all fs evs')"
proof (induction fs evs vs rule: apply_all.induct)
  case (2 fs c p evs vs)
  then show ?case by (cases "apply_opt c p fs vs") (simp_all del: apply_opt.simps)
qed simp

lemma apply_all_own:
  assumes "i < length fs" "length vs = length fs"
  shows "apply_all fs evs vs = Ok vs' \<Longrightarrow> length vs' = length fs
    \<and> (fs ! i = Field n (Opt_kind ch d) conv \<longrightarrow>
        (case last_opt ch evs of None \<Rightarrow> vs' ! i = vs ! i | Some p \<Rightarrow> \<exists>x. conv p = Some x \<and> vs' ! i = Value x))
    \<and> (fs ! i = Field n (Flag_kind ch) conv \<longrightarrow> vs' ! i = (if last_opt ch evs = None then vs ! i else Boolean True))"
proof (induction evs arbitrary: vs' rule: rev_induct)
  case Nil
  then show ?case using assms by (simp add: last_opt_def)
next
  case (snoc e evs)
  obtain c p where e: "e = (c, p)" by (cases e)
  obtain us where us: "apply_all fs evs vs = Ok us" "apply_opt c p fs us = Ok vs'"
    using snoc.prems by (auto simp: apply_all_append e bindE_eq_Ok simp del: apply_opt.simps)
  note IH = snoc.IH[OF us(1)]
  have *: "length vs' = length fs \<and> apply_own c p (Field n k conv) (us ! i) = Ok (vs' ! i)"
    if "fs ! i = Field n k conv" "\<nexists>gs. k = Flatten_kind gs" for k
    using apply_opt_own[OF us(2) _ assms(1) that] IH that(1) by auto
  have len: "length vs' = length fs"
  proof -
    obtain ws where "apply_owns c p fs us = Ok ws" "apply_flattens c p fs ws = Ok vs'"
      using us(2) by (auto simp: bindE_eq_Ok)
    then show ?thesis using apply_owns_nth apply_flattens_nth IH by metis
  qed
  show ?case
  proof (intro conjI impI)
    assume f: "fs ! i = Field n (Opt_kind ch d) conv"
    then show "case last_opt ch (evs @ [e]) of None \<Rightarrow> vs' ! i = vs ! i
        | Some p \<Rightarrow> \<exists>x. conv p = Some x \<and> vs' ! i = Value x"
      using *[OF f] IH by (cases "conv p") (auto simp: e last_opt_snoc split: option.splits if_splits)
  next
    assume f: "fs ! i = Field n (Flag_kind ch) conv"
    then show "vs' ! i = (if last_opt ch (evs @ [e]) = None then vs ! i else Boolean True)"
      using *[OF f] IH by (auto simp: e last_opt_snoc split: if_splits)
  qed (rule len)
qed

lemma fill_rests_nth:
  "fill_rests fs vs ws = Ok (vs', ws') \<Longrightarrow> length vs = length fs \<Longrightarrow>
    length vs' = length fs \<and> (\<forall>i<length fs. \<not> is_rest (fs ! i) \<longrightarrow> vs' ! i = vs ! i)"
proof (induction fs vs ws arbitrary: vs' ws' rule: fill_rests.induct)
qed (fastforce simp: bindE_eq_Ok less_Suc_eq_0_disj)+

lemma fill_stmts_nth:
  "fill_stmts fs vs ws = Ok (vs', ws') \<Longrightarrow> length vs = length fs \<Longrightarrow>
    length vs' = length fs \<and> (\<forall>i<length fs. \<exists>us us'. fill_stmt (fs ! i) (vs ! i) us = Ok (vs' ! i, us'))"
proof (induction fs arbitrary: vs vs' ws ws')
  case (Cons f fs)
  then obtain v us where vs: "vs = v # us" by (cases vs) auto
  obtain v' ws1 us' where s: "fill_stmt f v ws = Ok (v', ws1)" "fill_stmts fs us ws1 = Ok (us', ws')" "vs' = v' # us'"
    using Cons.prems vs by (auto simp: bindE_eq_Ok)
  have "length us' = length fs \<and> (\<forall>i<length fs. \<exists>ws ws'. fill_stmt (fs ! i) (us ! i) ws = Ok (us' ! i, ws'))"
    using Cons.IH[OF s(2)] Cons.prems vs by simp
  then show ?case using s vs by (auto simp: less_Suc_eq_0_disj)
qed simp

lemma fill_positionals_own:
  assumes "fill_positionals fs vs ws = Ok (vs', ws')" "length vs = length fs" "i < length fs"
    "fs ! i = Field n k conv" "(\<exists>ch d. k = Opt_kind ch d) \<or> (\<exists>ch. k = Flag_kind ch)"
  shows "vs' ! i = vs ! i"
proof -
  obtain us ws1 where us: "fill_stmts fs vs ws = Ok (us, ws1)" "fill_rests fs us ws1 = Ok (vs', ws')"
    using assms(1) by (auto simp: bindE_eq_Ok)
  obtain a b where "fill_stmt (fs ! i) (vs ! i) a = Ok (us ! i, b)" and len: "length us = length fs"
    using fill_stmts_nth[OF us(1) assms(2)] assms(3) by blast
  then have "us ! i = vs ! i" using assms(4,5) by (cases "vs ! i") auto
  moreover have "vs' ! i = us ! i"
    using fill_rests_nth[OF us(2) len] assms(3,4,5) by auto
  ultimately show ?thesis by simp
qed

section \<open>Properties\<close>

text \<open>
  C24: Parsing always returns once bash's scanner reaches the end of the options, and
  for a struct without variadic rest whose converters accept every word it
  succeeds exactly when the words are at least as many as the last required
  positional needs and at most as many as the positionals, those of flattened
  structs included; otherwise it is a usage error.
\<close>

theorem parse_arity:
  assumes "getopt_yields ops list (optstring fs) (getopt_reset ops) evs (map Some xs)"
    and "list_all accepts fs" "list_all no_rest fs"
  shows "\<exists>r. parse ops fs list = Some r
    \<and> (is_ok r \<longleftrightarrow> needed (all_slots fs) \<le> length xs \<and> length xs \<le> length (all_slots fs))
    \<and> (r = Err EX_USAGE \<or> is_ok r)"
proof -
  have nr: "\<not> has_rest fs"
    using assms(3) by (induction fs) (auto simp: has_rest_def elim: no_rest.elims)
  obtain vs where vs: "apply_all fs evs (new_default fs) = Ok vs" "list_all2 has_shape fs vs"
    using apply_all_ok[OF new_default_shape assms(2)] by blast
  have "fills fs (all_slots fs) xs (fill_positionals fs vs (map Some xs))"
    using fill_positionals_fills(1)[OF vs(2) assms(2,3) refl] .
  then show ?thesis
    using parse_yields[OF assms(1)] vs nr
    by (cases "drop (length (all_slots fs)) xs")
       (auto simp: fills_def words_next_def iter_current_def simp del: fill_positionals.simps split: if_splits)
qed

text \<open>A scanner for the witnesses: the words it has not looked at are its state.\<close>

definition demo_getopt :: "(char \<times> string) list \<Rightarrow> word_list \<Rightarrow> (char \<times> string) list getopt" where
  "demo_getopt evs rest = \<lparr>getopt_reset = evs,
     getopt_call = (\<lambda>g list os. case g of [] \<Rightarrow> (Getopt_end rest, []) | (c, p) # g' \<Rightarrow> (Getopt_opt c p, g'))\<rparr>"

lemma demo_getopt_yields:
  "list_all (\<lambda>(c, p). c \<notin> set ''h?:'') g \<Longrightarrow> getopt_yields (demo_getopt evs rest) list os g g rest"
proof (induction g)
  case Nil
  then show ?case by (auto intro: yields_end simp: demo_getopt_def)
next
  case (Cons e g)
  then show ?case by (cases e) (auto intro: yields_opt simp: demo_getopt_def)
qed

definition demo_fields :: "string field list" where
  "demo_fields = [Field ''var'' (Opt_kind (CHR ''v'') None) Some, Field ''quiet'' (Flag_kind (CHR ''q'')) Some,
     Field ''name'' (Positional_kind []) Some, Field ''value'' (Optional_kind None) Some]"

theorem parse_arity_witness:
  "\<not> is_ok (the (parse (demo_getopt [(CHR ''q'', [])] (map Some [''a'', ''b'', ''c''])) demo_fields []))"
proof -
  have "getopt_yields (demo_getopt [(CHR ''q'', [])] (map Some [''a'', ''b'', ''c''])) [] (optstring demo_fields)
      (getopt_reset (demo_getopt [(CHR ''q'', [])] (map Some [''a'', ''b'', ''c'']))) [(CHR ''q'', [])] (map Some [''a'', ''b'', ''c''])"
    using demo_getopt_yields[of "[(CHR ''q'', [])]"] by (simp add: demo_getopt_def)
  from parse_arity[OF this] show ?thesis by (auto simp: demo_fields_def all_slots_def)
qed

text \<open>
  C25: After a successful parse an option with a value holds the conversion of its
  last occurrence, or its default when it was not given, and a flag is set
  exactly when it occurred.
\<close>

theorem parse_last_option:
  assumes "getopt_yields ops list (optstring fs) (getopt_reset ops) evs rest"
    and "parse ops fs list = Some (Ok vs)" "i < length fs"
  shows "(fs ! i = Field n (Opt_kind ch d) conv \<longrightarrow>
        vs ! i = (case last_opt ch evs of Some p \<Rightarrow> Value (the (conv p))
                  | None \<Rightarrow> (case d of Some x \<Rightarrow> Value x | None \<Rightarrow> Absent)))
    \<and> (fs ! i = Field n (Flag_kind ch) conv \<longrightarrow> vs ! i = Boolean (last_opt ch evs \<noteq> None))"
proof -
  obtain us ws where us: "apply_all fs evs (new_default fs) = Ok us" "fill_positionals fs us rest = Ok (vs, ws)"
    using assms(2) unfolding parse_yields[OF assms(1)]
    by (auto simp: bindE_eq_Ok simp del: fill_positionals.simps split: if_splits)
  have len: "length (new_default fs) = length fs" "length us = length fs"
    using apply_all_own[OF assms(3) _ us(1)] by (simp_all add: new_default_def)
  note own = apply_all_own[OF assms(3) len(1) us(1), of n ch d conv]
  have eq: "vs ! i = us ! i" if "fs ! i = Field n (Opt_kind ch d) conv \<or> fs ! i = Field n (Flag_kind ch) conv"
    using fill_positionals_own[OF us(2) len(2) assms(3)] that by blast
  have dflt: "new_default fs ! i = field_default (fs ! i)"
    using assms(3) by (simp add: new_default_def)
  show ?thesis
    using own eq dflt by (cases d) (auto split: option.splits)
qed

theorem parse_last_option_witness:
  "\<exists>vs. parse (demo_getopt [(CHR ''v'', ''A''), (CHR ''v'', ''B'')] [Some ''x'']) demo_fields [] = Some (Ok vs)
     \<and> vs ! 0 = Value ''B''"
proof -
  let ?ops = "demo_getopt [(CHR ''v'', ''A''), (CHR ''v'', ''B'')] [Some ''x'']"
  have y: "getopt_yields ?ops [] (optstring demo_fields) (getopt_reset ?ops) [(CHR ''v'', ''A''), (CHR ''v'', ''B'')] [Some ''x'']"
    using demo_getopt_yields[of "[(CHR ''v'', ''A''), (CHR ''v'', ''B'')]"] by (simp add: demo_getopt_def)
  then obtain vs where p: "parse ?ops demo_fields [] = Some (Ok vs)"
    by (simp add: parse_yields demo_fields_def new_default_def words_next_def iter_current_def iter_advance_def has_rest_def)
  show ?thesis
    using parse_last_option[OF y p, of 0 "''var''" "CHR ''v''" None Some] p
    by (auto simp: demo_fields_def last_opt_def)
qed

text \<open>
  A struct that gets its variadic rest only from a flattened struct rejects every
  word left after the positionals, because only a rest field of its own is
  counted when the surplus is checked.
\<close>

lemma flattened_rest_rejected:
  assumes "getopt_yields ops list (optstring [Field n (Flatten_kind [Field m Rest_view_kind conv]) conv'])
             (getopt_reset ops) [] (Some x # ws)"
  shows "parse ops [Field n (Flatten_kind [Field m Rest_view_kind conv]) conv'] list = Some (Err EX_USAGE)"
  unfolding parse_yields[OF assms]
  by (simp add: new_default_def has_rest_def words_next_def iter_current_def)

lemma flattened_rest_rejected_witness:
  "parse (demo_getopt [] [Some ''a'']) [Field ''sub'' (Flatten_kind [Field ''rest'' Rest_view_kind Some]) Some] []
     = Some (Err EX_USAGE)"
proof -
  have "getopt_yields (demo_getopt [] [Some ''a'']) [] os (getopt_reset (demo_getopt [] [Some ''a''])) [] [Some ''a'']" for os
    using demo_getopt_yields[of "[]"] by (simp add: demo_getopt_def)
  then show ?thesis by (rule flattened_rest_rejected)
qed

end
