(* ===== verification/Dispatch.thy ===== *)
theory Dispatch
  imports Int_Lookup Cmd_Args
begin

text \<open>
  \<open>l_builtin/src/subcmd.rs\<close> (results, the documentation of the running builtin, the
  group dispatcher) and the quoting of \<open>l_builtin/src/cmd_run.rs\<close>. The state is the
  part of bash that the subcommands change, the name and documentation of the
  running builtin, next to the rest of the world \<open>'w\<close>.
\<close>

section \<open>Results\<close>

text \<open>The value of a named code is bash's.\<close>

definition code_to_cint :: "(exit_code \<Rightarrow> int) \<Rightarrow> exit_code \<Rightarrow> int" where
  "code_to_cint hdr e = (case e of Code n \<Rightarrow> n | _ \<Rightarrow> hdr e)"

definition cmd_result_to_cint :: "(exit_code \<Rightarrow> int) \<Rightarrow> cmd_result \<Rightarrow> int" where
  "cmd_result_to_cint hdr res = (case res of Ok _ \<Rightarrow> 0 | Err code \<Rightarrow> code_to_cint hdr code)"

definition cint_to_cmd_result :: "int \<Rightarrow> cmd_result" where
  "cint_to_cmd_result res = (if res = 0 then Ok () else Err (Code res))"

section \<open>The running builtin\<close>

record 'w shell =
  this_command :: string
  short_doc :: string
  long_doc :: string
  world :: 'w

record cmd_desc =
  desc_name :: string
  desc_short :: string
  desc_long :: string

text \<open>\<open>l_enter_subcommand\<close>: the name grows by the prefix, the documentation is
  replaced.\<close>

definition l_enter_subcommand :: "string option \<Rightarrow> string \<Rightarrow> string \<Rightarrow> 'w shell \<Rightarrow> 'w shell" where
  "l_enter_subcommand pre sdoc ldoc s =
     (let s' = (case pre of
                  None \<Rightarrow> s
                | Some p \<Rightarrow> s\<lparr>this_command := this_command s @ (if this_command s \<noteq> [] then '' '' else []) @ p\<rparr>)
      in s'\<lparr>short_doc := sdoc, long_doc := ldoc\<rparr>)"

definition cmd_enter :: "cmd_desc \<Rightarrow> 'w shell \<Rightarrow> 'w shell" where
  "cmd_enter d = l_enter_subcommand (Some (desc_name d)) (desc_short d) (desc_long d)"

record subcommand_guard =
  saved_short_doc :: string
  saved_long_doc :: string

definition guard_new :: "'w shell \<Rightarrow> subcommand_guard" where
  "guard_new s = \<lparr>saved_short_doc = short_doc s, saved_long_doc = long_doc s\<rparr>"

definition guard_drop :: "subcommand_guard \<Rightarrow> 'w shell \<Rightarrow> 'w shell" where
  "guard_drop g s = s\<lparr>short_doc := saved_short_doc g, long_doc := saved_long_doc g\<rparr>"

text \<open>A handler gets the words after its name; \<open>None\<close> when it does not return.\<close>

type_synonym 'w handler = "word_list \<Rightarrow> 'w shell \<Rightarrow> (cmd_result \<times> 'w shell) run option"

text \<open>\<open>let args = Args::parse(list)?;\<close> and the rest of a handler.\<close>

definition with_args ::
    "'g getopt \<Rightarrow> 'v field list \<Rightarrow> word_list \<Rightarrow> 'w shell
     \<Rightarrow> ('v field_value list \<Rightarrow> (cmd_result \<times> 'w shell) run option) \<Rightarrow> (cmd_result \<times> 'w shell) run option" where
  "with_args ops fs list s k =
     (case parse ops fs list of
        None \<Rightarrow> None
      | Some (Err e) \<Rightarrow> Some (Val (Err e, s))
      | Some (Ok vs) \<Rightarrow> k vs)"

definition set_world :: "'w \<Rightarrow> 'w shell \<Rightarrow> 'w shell" where
  "set_world w s = s\<lparr>world := w\<rparr>"

section \<open>Groups of subcommands\<close>

definition caller_fields :: "string field list" where
  "caller_fields = [Field ''command'' (Positional_kind []) bytes_from_cpnt,
                    Field ''rest'' Rest_view_kind bytes_from_cpnt]"

fun caller_args :: "string field_value list \<Rightarrow> string \<times> word_list" where
  "caller_args [Value command, Words rest] = (command, rest)"
| "caller_args _ = ([], [])"

definition caller_handler :: "(string \<Rightarrow> 'h option run) \<Rightarrow> string \<Rightarrow> ('h, exit_code) result run" where
  "caller_handler lookup_table command = bindR (lookup_table command) (\<lambda>r. Val (ok_or r EX_USAGE))"

definition subcommand_group ::
    "'g getopt \<Rightarrow> cmd_desc \<Rightarrow> (string \<Rightarrow> 'w handler option run) \<Rightarrow> 'w handler" where
  "subcommand_group ops desc lookup_table list s =
     (let s = cmd_enter desc s in
      with_args ops caller_fields list s (\<lambda>vs.
          case caller_handler lookup_table (fst (caller_args vs)) of
             Panic \<Rightarrow> Some Panic
           | Val (Err e) \<Rightarrow> Some (Val (Err e, s))
           | Val (Ok h) \<Rightarrow> h (snd (caller_args vs)) s))"

section \<open>Quoting for \<open>run\<close>\<close>

definition quote_byte :: "char \<Rightarrow> string" where
  "quote_byte b = (if b = CHR 0x27 then [CHR 0x27, CHR 0x5C, CHR 0x27, CHR 0x27] else [b])"

definition quote_word :: "string \<Rightarrow> string" where
  "quote_word word = CHR 0x27 # concat (map quote_byte word) @ [CHR 0x27]"

fun build_eval_words :: "bool \<Rightarrow> string list \<Rightarrow> string" where
  "build_eval_words first [] = []"
| "build_eval_words first (w # ws) = (if first then [] else '' '') @ quote_word w @ build_eval_words False ws"

definition build_eval_command :: "string list \<Rightarrow> string" where
  "build_eval_command args = build_eval_words True args @ [CHR 0x00]"

definition run_fields :: "string field list" where
  "run_fields = [Field ''command'' (Positional_kind []) bytes_from_cpnt,
                 Field ''args'' Rest_view_kind bytes_from_cpnt]"

text \<open>\<open>execute\<close> is \<open>l_execute_command_string\<close>, bash's evaluator.\<close>

definition l_run_subcommand ::
    "'g getopt \<Rightarrow> cmd_desc \<Rightarrow> (string \<Rightarrow> 'w shell \<Rightarrow> int \<times> 'w shell) \<Rightarrow> 'w handler" where
  "l_run_subcommand ops desc execute list s =
     (let s = cmd_enter desc s in
      with_args ops run_fields list s (\<lambda>vs.
          case caller_args vs of (command, args) \<Rightarrow>
           let cmd = build_eval_command (command # words_collect args) in
           case execute (c_str cmd) s of (ret, s) \<Rightarrow> Some (Val (cint_to_cmd_result ret, s))))"

section \<open>Quoting\<close>

text \<open>The shell's reading of single quotes, backslashes and blanks: the flags are
  inside quotes, and a word has begun.\<close>

fun sh_words :: "bool \<Rightarrow> bool \<Rightarrow> string \<Rightarrow> string \<Rightarrow> string list option" where
  "sh_words q b acc [] = (if q then None else Some (if b then [acc] else []))"
| "sh_words True b acc (c # s) = (if c = CHR 0x27 then sh_words False True acc s else sh_words True True (acc @ [c]) s)"
| "sh_words False b acc (c # s) =
     (if c = CHR 0x27 then sh_words True True acc s
      else if c = CHR 0x5C then (case s of [] \<Rightarrow> None | d # s' \<Rightarrow> sh_words False True (acc @ [d]) s')
      else if c = CHR '' '' then map_option ((@) (if b then [acc] else [])) (sh_words False False [] s)
      else sh_words False True (acc @ [c]) s)"

lemma sh_words_quoted:
  "sh_words True True acc (concat (map quote_byte w) @ CHR 0x27 # s) = sh_words False True (acc @ w) s"
  by (induction w arbitrary: acc) (simp_all add: quote_byte_def)

lemma sh_words_word: "sh_words False b acc (quote_word w @ s) = sh_words False True (acc @ w) s"
  by (simp add: quote_word_def sh_words_quoted)

lemma sh_words_rest:
  "sh_words False True acc (build_eval_words False ws) = Some (acc # ws)"
  by (induction ws arbitrary: acc) (simp_all add: sh_words_word)

lemma build_eval_nul_free: "list_all nul_free ws \<Longrightarrow> nul_free (build_eval_words first ws)"
proof -
  have "nul_free w \<Longrightarrow> nul_free (concat (map quote_byte w))" for w
    by (induction w) (simp_all add: quote_byte_def)
  then have "nul_free w \<Longrightarrow> nul_free (quote_word w)" for w by (simp add: quote_word_def)
  then show "list_all nul_free ws \<Longrightarrow> nul_free (build_eval_words first ws)"
    by (induction first ws rule: build_eval_words.induct) auto
qed

text \<open>
  C26: The command line that \<open>run\<close> builds reaches the shell whole, as one C string,
  and the shell reads from it the very words that were given, whatever quotes
  or blanks they contain.
\<close>

theorem run_quoting:
  assumes "list_all nul_free ws"
  shows "sh_words False False [] (c_str (build_eval_command ws)) = Some ws"
proof (cases ws)
  case Nil
  then show ?thesis by (simp add: build_eval_command_def)
next
  case (Cons w ws')
  have "c_str (build_eval_command ws) = build_eval_words True ws"
    using build_eval_nul_free[OF assms] by (simp add: build_eval_command_def)
  then show ?thesis by (simp add: Cons sh_words_word sh_words_rest)
qed

theorem run_quoting_witness:
  "sh_words False False [] (c_str (build_eval_command [''echo'', ''it'' @ [CHR 0x27] @ ''s  $HOME''])) = Some [''echo'', ''it'' @ [CHR 0x27] @ ''s  $HOME'']"
  by (rule run_quoting) simp

end
