(* ===== verification/Handles.thy ===== *)
theory Handles
  imports Prelude "HOL-Library.AList"
begin

text \<open>
  \<open>l_builtin/src/handles.rs\<close>: the registry that maps the opaque integer of a bash
  variable to a mapped object, and the mapping functions. A hash map is an
  association list here, visited in its order. Pointers are addresses and the
  memory system calls are parameters.
\<close>

section \<open>Definitions\<close>

type_synonym address = nat

record handle_entry =
  he_ptr :: address
  he_name :: "string option"

record registry =
  reg_map :: "(64 word \<times> handle_entry) list"
  reg_next :: "64 word"

definition registry_new :: registry where
  "registry_new = \<lparr>reg_map = [], reg_next = 1\<rparr>"

definition registry_store :: "address \<Rightarrow> string option \<Rightarrow> registry \<Rightarrow> 64 word \<times> registry" where
  "registry_store ptr name r =
     (let i = reg_next r
      in (i, \<lparr>reg_map = AList.update i \<lparr>he_ptr = ptr, he_name = name\<rparr> (reg_map r), reg_next = i + 1\<rparr>))"

definition registry_lookup :: "registry \<Rightarrow> 64 word \<Rightarrow> address option" where
  "registry_lookup r i = map_option he_ptr (map_of (reg_map r) i)"

definition registry_take :: "64 word \<Rightarrow> registry \<Rightarrow> handle_entry option \<times> registry" where
  "registry_take i r = (map_of (reg_map r) i, r\<lparr>reg_map := AList.delete i (reg_map r)\<rparr>)"

definition registry_for_each :: "(64 word \<Rightarrow> address \<Rightarrow> 's \<Rightarrow> 's) \<Rightarrow> registry \<Rightarrow> 's \<Rightarrow> 's" where
  "registry_for_each f r = fold (\<lambda>(i, e). f i (he_ptr e)) (reg_map r)"

text \<open>The memory system calls: a failing call is \<open>None\<close> or \<open>False\<close>.\<close>

record 'w map_ops =
  mmap_anonymous :: "nat \<Rightarrow> 'w \<Rightarrow> address option \<times> 'w"
  shm_open :: "string \<Rightarrow> bool \<Rightarrow> 'w \<Rightarrow> int option \<times> 'w"
  ftruncate :: "int \<Rightarrow> nat \<Rightarrow> 'w \<Rightarrow> bool \<times> 'w"
  mmap_shared :: "int \<Rightarrow> nat \<Rightarrow> 'w \<Rightarrow> address option \<times> 'w"
  close_fd :: "int \<Rightarrow> 'w \<Rightarrow> 'w"
  munmap :: "address \<Rightarrow> nat \<Rightarrow> 'w \<Rightarrow> 'w"
  shm_unlink :: "string \<Rightarrow> 'w \<Rightarrow> 'w"

definition map_anonymous :: "'w map_ops \<Rightarrow> nat \<Rightarrow> 'w \<Rightarrow> address option \<times> 'w" where
  "map_anonymous os sz w = mmap_anonymous os sz w"

definition map_named :: "'w map_ops \<Rightarrow> string \<Rightarrow> nat \<Rightarrow> bool \<Rightarrow> 'w \<Rightarrow> address option \<times> 'w" where
  "map_named os name sz create w =
     (case shm_open os name create w of
        (None, w) \<Rightarrow> (None, w)
      | (Some fd, w) \<Rightarrow>
     (case (if create then ftruncate os fd sz w else (True, w)) of
        (False, w) \<Rightarrow> (None, close_fd os fd w)
      | (True, w) \<Rightarrow>
     (case mmap_shared os fd sz w of (ptr, w) \<Rightarrow> (ptr, close_fd os fd w))))"

section \<open>The interface of a registry\<close>

text \<open>A client stores mappings under fresh handles, looks them up and takes them
  out; \<open>issued\<close> are the handles given out so far, \<open>room\<close> says that the counter
  has not run out.\<close>

datatype reg_op = Store_op address "string option" | Take_op "64 word"

locale handle_registry =
  fixes store :: "address \<Rightarrow> string option \<Rightarrow> 'r \<Rightarrow> 64 word \<times> 'r"
    and find :: "'r \<Rightarrow> 64 word \<Rightarrow> address option"
    and take_out :: "64 word \<Rightarrow> 'r \<Rightarrow> handle_entry option \<times> 'r"
    and valid :: "'r \<Rightarrow> bool"
    and room :: "'r \<Rightarrow> bool"
    and issued :: "'r \<Rightarrow> 64 word \<Rightarrow> bool"
  assumes find_issued: "valid r \<Longrightarrow> find r i \<noteq> None \<Longrightarrow> issued r i"
    and store_inv: "valid r \<Longrightarrow> room r \<Longrightarrow> valid (snd (store p n r))"
    and store_fresh: "valid r \<Longrightarrow> room r \<Longrightarrow> \<not> issued r (fst (store p n r))"
    and store_issued: "valid r \<Longrightarrow> room r \<Longrightarrow> issued (snd (store p n r)) i \<longleftrightarrow> issued r i \<or> i = fst (store p n r)"
    and store_find: "valid r \<Longrightarrow> room r \<Longrightarrow> find (snd (store p n r)) i = (if i = fst (store p n r) then Some p else find r i)"
    and store_take: "valid r \<Longrightarrow> room r \<Longrightarrow> fst (take_out (fst (store p n r)) (snd (store p n r))) = Some \<lparr>he_ptr = p, he_name = n\<rparr>"
    and take_inv: "valid r \<Longrightarrow> valid (snd (take_out j r))"
    and take_issued: "valid r \<Longrightarrow> issued (snd (take_out j r)) i \<longleftrightarrow> issued r i"
    and take_find: "valid r \<Longrightarrow> find (snd (take_out j r)) i = (if i = j then None else find r i)"
    and take_entry: "valid r \<Longrightarrow> map_option he_ptr (fst (take_out j r)) = find r j"
begin

fun apply_op :: "reg_op \<Rightarrow> 'r \<Rightarrow> 'r" where
  "apply_op (Store_op p n) r = snd (store p n r)"
| "apply_op (Take_op i) r = snd (take_out i r)"

fun roomy :: "reg_op list \<Rightarrow> 'r \<Rightarrow> bool" where
  "roomy [] r = True"
| "roomy (x # xs) r = (room r \<and> roomy xs (apply_op x r))"

lemma gone_stays_gone:
  "valid r \<Longrightarrow> issued r i \<Longrightarrow> find r i = None \<Longrightarrow> roomy xs r \<Longrightarrow> find (fold apply_op xs r) i = None"
proof (induction xs arbitrary: r)
  case (Cons x xs)
  have "valid (apply_op x r) \<and> issued (apply_op x r) i \<and> find (apply_op x r) i = None"
  proof (cases x)
    case (Store_op p n)
    then have "i \<noteq> fst (store p n r)" using Cons.prems store_fresh[of r p n] by auto
    then show ?thesis using Cons.prems Store_op by (simp add: store_inv store_issued store_find)
  next
    case (Take_op j)
    then show ?thesis using Cons.prems by (simp add: take_inv take_issued take_find)
  qed
  then show ?case using Cons.IH Cons.prems(4) by simp
qed simp

lemma stored_until_taken:
  "valid r \<Longrightarrow> find r i = Some p \<Longrightarrow> roomy xs r \<Longrightarrow> Take_op i \<notin> set xs \<Longrightarrow> find (fold apply_op xs r) i = Some p"
proof (induction xs arbitrary: r)
  case (Cons x xs)
  have "valid (apply_op x r) \<and> find (apply_op x r) i = Some p"
  proof (cases x)
    case (Store_op p' n)
    then have "i \<noteq> fst (store p' n r)"
      using Cons.prems store_fresh[of r p' n] find_issued[of r i] by auto
    then show ?thesis using Cons.prems Store_op by (simp add: store_inv store_find)
  next
    case (Take_op j)
    then show ?thesis using Cons.prems by (simp add: take_inv take_find)
  qed
  then show ?case using Cons.IH Cons.prems by simp
qed simp

end

section \<open>The registry of the sources\<close>

text \<open>Handles count up from 1; every live one is below the next.\<close>

definition registry_inv :: "registry \<Rightarrow> bool" where
  "registry_inv r \<longleftrightarrow> 0 < reg_next r \<and> distinct (map fst (reg_map r)) \<and> (\<forall>i\<in>fst ` set (reg_map r). i < reg_next r)"

definition registry_room :: "registry \<Rightarrow> bool" where
  "registry_room r \<longleftrightarrow> reg_next r \<noteq> - 1"

definition registry_issued :: "registry \<Rightarrow> 64 word \<Rightarrow> bool" where
  "registry_issued r i \<longleftrightarrow> i < reg_next r"

lemma registry_new_inv: "registry_inv registry_new"
  by (simp add: registry_inv_def registry_new_def)

lemma set_keys_delete: "x \<in> set (AList.delete i al) \<Longrightarrow> x \<in> set al"
  by (simp add: AList.delete_eq)

interpretation reg: handle_registry registry_store registry_lookup registry_take registry_inv registry_room registry_issued
proof
  fix r i assume "registry_inv r" "registry_lookup r i \<noteq> None"
  then show "registry_issued r i"
    by (auto simp: registry_inv_def registry_lookup_def registry_issued_def dest!: map_of_SomeD)
next
  fix r p n assume "registry_inv r" "registry_room r"
  then show "registry_inv (snd (registry_store p n r))"
    by (auto simp: registry_inv_def registry_store_def registry_room_def word_less_Suc distinct_update dom_update
        Let_def word_gt_0 intro: less_imp_le) (simp add: eq_neg_iff_add_eq_0)
qed (auto simp: registry_inv_def registry_store_def registry_room_def registry_issued_def registry_lookup_def
    registry_take_def update_conv' delete_conv' Let_def word_less_Suc order_le_less distinct_delete
    dest: set_keys_delete)

fun registry_apply :: "reg_op \<Rightarrow> registry \<Rightarrow> registry" where
  "registry_apply (Store_op p n) r = snd (registry_store p n r)"
| "registry_apply (Take_op i) r = snd (registry_take i r)"

definition registry_run :: "reg_op list \<Rightarrow> registry \<Rightarrow> registry" where
  "registry_run xs r = fold registry_apply xs r"

lemma registry_run_fold: "registry_run xs r = fold reg.apply_op xs r"
proof -
  have "registry_apply = reg.apply_op"
  proof (rule ext, rule ext)
    fix x r show "registry_apply x r = reg.apply_op x r" by (cases x) simp_all
  qed
  then show ?thesis by (simp add: registry_run_def)
qed

lemma registry_roomy: "unat (reg_next r) + length xs < 2 ^ 64 \<Longrightarrow> reg.roomy xs r"
proof (induction xs arbitrary: r)
  case (Cons x xs)
  then have room: "reg_next r \<noteq> - 1"
    by (auto simp: unsigned_minus_1_eq_mask mask_eq_exp_minus_1)
  then have "unat (reg_next (reg.apply_op x r)) \<le> Suc (unat (reg_next r))"
    by (cases x) (simp_all add: registry_store_def registry_take_def Let_def unat_add_one)
  then have "unat (reg_next (reg.apply_op x r)) + length xs < 2 ^ 64" using Cons.prems by simp
  then have "reg.roomy xs (reg.apply_op x r)" by (rule Cons.IH)
  moreover have "registry_room r" using room by (simp add: registry_room_def)
  ultimately show ?case by simp
qed simp

section \<open>Properties\<close>

text \<open>
  C27: A handle that was given out and taken back is never valid again, whatever is
  stored or taken afterwards, until the 64-bit counter has run out.
\<close>

theorem closed_handle_stays_unknown:
  assumes "registry_inv r" "i < reg_next r" "unat (reg_next r) + length xs < 2 ^ 64"
  shows "registry_lookup (registry_run xs (snd (registry_take i r))) i = None"
proof -
  let ?r = "snd (registry_take i r)"
  have "registry_inv ?r" "registry_issued ?r i" "registry_lookup ?r i = None"
    using assms(1,2) reg.take_inv reg.take_issued reg.take_find by (auto simp: registry_issued_def)
  moreover have "reg.roomy xs ?r"
    using registry_roomy[of ?r xs] assms(3) by (simp add: registry_take_def)
  ultimately show ?thesis
    unfolding registry_run_fold by (rule reg.gone_stays_gone)
qed

theorem closed_handle_stays_unknown_witness:
  "registry_lookup (registry_run [Store_op 200 None, Take_op 2, Store_op 300 None]
     (snd (registry_take 1 (snd (registry_store 100 None registry_new))))) 1 = None"
proof -
  have r: "registry_store 100 None registry_new = (1, \<lparr>reg_map = [(1, \<lparr>he_ptr = 100, he_name = None\<rparr>)], reg_next = 2\<rparr>)"
    by (simp add: registry_store_def registry_new_def Let_def)
  show ?thesis
    by (rule closed_handle_stays_unknown) (simp_all add: r registry_inv_def)
qed

text \<open>
  A mapping stored under a fresh handle is found under it until that handle is
  taken, whatever else is stored or taken in between.
\<close>

lemma stored_handle_resolves:
  assumes "registry_inv r" "unat (reg_next r) + length xs < 2 ^ 64 - 1" "registry_store p n r = (i, r')" "Take_op i \<notin> set xs"
  shows "registry_lookup r i = None \<and> registry_lookup (registry_run xs r') i = Some p"
proof -
  have room: "registry_room r"
    using registry_roomy[of r "[Take_op 0]"] assms(2) by simp
  have r': "r' = snd (registry_store p n r)" "i = fst (registry_store p n r)" using assms(3) by simp_all
  have "unat (reg_next r') = Suc (unat (reg_next r))"
    using room by (simp add: r' registry_store_def Let_def registry_room_def unat_add_one)
  then have "reg.roomy xs r'" using assms(2) by (intro registry_roomy) simp
  moreover have "registry_inv r'" "registry_lookup r' i = Some p"
    using reg.store_inv[OF assms(1) room] reg.store_find[OF assms(1) room] by (simp_all add: r')
  ultimately have "registry_lookup (registry_run xs r') i = Some p"
    unfolding registry_run_fold using assms(4) reg.stored_until_taken by blast
  moreover have "\<not> registry_issued r i" using reg.store_fresh[OF assms(1) room, of p n] by (simp add: r')
  then have "registry_lookup r i = None" using reg.find_issued[OF assms(1)] by blast
  ultimately show ?thesis by simp
qed

lemma stored_handle_resolves_witness:
  "registry_lookup (registry_run [Store_op 200 None, Take_op 2] (snd (registry_store 100 (Some ''/m'') registry_new))) 1 = Some 100"
proof -
  have r: "registry_store 100 (Some ''/m'') registry_new = (1, snd (registry_store 100 (Some ''/m'') registry_new))"
    by (simp add: registry_store_def registry_new_def Let_def)
  show ?thesis
    using stored_handle_resolves[OF registry_new_inv _ r, of "[Store_op 200 None, Take_op 2]"]
    by (simp add: registry_new_def)
qed

end
