(* ===== verification/Sync.thy ===== *)
theory Sync
  imports Dispatch Handles
begin

text \<open>
  What the subcommands of the synchronization primitives share: the values of
  their argument structs, the state of a process (its handle registries next to
  the system \<open>'m\<close>, which holds the shared memory, bash's variables and whatever
  the other processes do), \<open>timespec_from_now\<close> of \<open>l_builtin/src/shared.rs\<close> and
  the guard of \<open>l_builtin/src/pthread.rs\<close>. The pthread functions, the clock and
  floating-point arithmetic \<open>'f\<close> are parameters.
\<close>

section \<open>Argument values\<close>

datatype 'f arg = Str_arg string | Nat_arg nat | Int_arg int | F64_arg 'f | Dur_arg nat

definition var_conv :: "'w bash_vars \<Rightarrow> 'w \<Rightarrow> string \<Rightarrow> 'f arg option" where
  "var_conv bv w s = map_option Str_arg (bash_var_validate bv w s)"

definition text_conv :: "string \<Rightarrow> 'f arg option" where
  "text_conv s = map_option Str_arg (bytes_from_cpnt s)"

definition uint_conv :: "nat \<Rightarrow> string \<Rightarrow> 'f arg option" where
  "uint_conv bits s = map_option Nat_arg (uint_from_cpnt bits s)"

definition f64_conv :: "(string \<Rightarrow> 'f option) \<Rightarrow> string \<Rightarrow> 'f arg option" where
  "f64_conv to_f64 s = (case from_utf8 s of Some s' \<Rightarrow> map_option F64_arg (to_f64 s') | None \<Rightarrow> None)"

text \<open>Reading the fields of a parsed struct.\<close>

definition arg :: "'v field_value list \<Rightarrow> nat \<Rightarrow> 'v field_value" where
  "arg vs i = (if i < length vs then vs ! i else Absent)"

fun str_opt :: "'f arg field_value \<Rightarrow> string option" where
  "str_opt (Value (Str_arg x)) = Some x"
| "str_opt _ = None"

fun nat_opt :: "'f arg field_value \<Rightarrow> nat option" where
  "nat_opt (Value (Nat_arg x)) = Some x"
| "nat_opt _ = None"

fun f64_opt :: "'f arg field_value \<Rightarrow> 'f option" where
  "f64_opt (Value (F64_arg x)) = Some x"
| "f64_opt _ = None"

fun flag_of :: "'v field_value \<Rightarrow> bool" where
  "flag_of (Boolean b) = b"
| "flag_of _ = False"

definition str_of :: "'f arg field_value \<Rightarrow> string" where
  "str_of v = (case str_opt v of Some x \<Rightarrow> x | None \<Rightarrow> [])"

definition nat_of :: "'f arg field_value \<Rightarrow> nat" where
  "nat_of v = (case nat_opt v of Some x \<Rightarrow> x | None \<Rightarrow> 0)"

definition id_of :: "'f arg field_value \<Rightarrow> 64 word" where
  "id_of v = of_nat (nat_of v)"

text \<open>A required string, variable and handle, and the options shared by several
  structs.\<close>

definition id_field :: "string \<Rightarrow> 'f arg field" where
  "id_field n = Field n (Positional_kind (Nat_arg 0)) (uint_conv 64)"

definition text_field :: "string \<Rightarrow> 'f arg field" where
  "text_field n = Field n (Positional_kind (Str_arg [])) text_conv"

definition var_field :: "'w bash_vars \<Rightarrow> 'w \<Rightarrow> string \<Rightarrow> 'f arg field" where
  "var_field bv w n = Field n (Positional_kind (Str_arg [])) (var_conv bv w)"

definition name_option :: "'f arg field" where
  "name_option = Field ''name'' (Opt_kind (CHR ''n'') None) text_conv"

definition wait_options :: "(string \<Rightarrow> 'f option) \<Rightarrow> 'f arg field list" where
  "wait_options to_f64 = [Field ''nonblock'' (Flag_kind (CHR ''n'')) text_conv,
                             Field ''timeout'' (Opt_kind (CHR ''t'') None) (f64_conv to_f64)]"

section \<open>The state of a process\<close>

record 'm proc =
  barriers :: registry
  mutexes :: registry
  semaphores :: registry
  sys :: 'm

definition on_sys :: "('m \<Rightarrow> 'a \<times> 'm) \<Rightarrow> 'm proc shell \<Rightarrow> 'a \<times> 'm proc shell" where
  "on_sys f s = (case f (sys (world s)) of (x, m) \<Rightarrow> (x, s\<lparr>world := world s\<lparr>sys := m\<rparr>\<rparr>))"

definition set_sys :: "'m \<Rightarrow> 'm proc shell \<Rightarrow> 'm proc shell" where
  "set_sys m s = s\<lparr>world := world s\<lparr>sys := m\<rparr>\<rparr>"

definition done_with :: "cmd_result \<Rightarrow> 'w shell \<Rightarrow> (cmd_result \<times> 'w shell) run option" where
  "done_with r s = Some (Val (r, s))"

text \<open>\<open>args.var.set_int(id)\<close> for a handle.\<close>

definition set_handle_var :: "'m bash_vars \<Rightarrow> string \<Rightarrow> 64 word \<Rightarrow> 'm proc shell \<Rightarrow> (cmd_result \<times> 'm proc shell) run option" where
  "set_handle_var bv var i s =
     Some (bindR (bash_var_set_unsigned bv var i (sys (world s))) (\<lambda>(r, m). Val (r, set_sys m s)))"

text \<open>The texts of the help are a parameter, the names are the code's.\<close>

definition described :: "(string \<Rightarrow> string \<times> string) \<Rightarrow> string \<Rightarrow> cmd_desc" where
  "described texts n = \<lparr>desc_name = n, desc_short = fst (texts n), desc_long = snd (texts n)\<rparr>"

text \<open>The memory of \<open>create\<close>: a named object or anonymous memory.\<close>

definition map_for_create :: "'m map_ops \<Rightarrow> string option \<Rightarrow> nat \<Rightarrow> 'm \<Rightarrow> address option \<times> 'm" where
  "map_for_create os name sz m =
     (case name of Some n \<Rightarrow> map_named os n sz True m | None \<Rightarrow> map_anonymous os sz m)"

section \<open>Deadlines\<close>

record 'f f64_ops =
  f_of_int :: "int \<Rightarrow> 'f"
  f_add :: "'f \<Rightarrow> 'f \<Rightarrow> 'f"
  f_sub :: "'f \<Rightarrow> 'f \<Rightarrow> 'f"
  f_mul :: "'f \<Rightarrow> 'f \<Rightarrow> 'f"
  f_div :: "'f \<Rightarrow> 'f \<Rightarrow> 'f"
  f_floor :: "'f \<Rightarrow> 'f"
  f_round :: "'f \<Rightarrow> 'f"
  f_to_i64 :: "'f \<Rightarrow> int"

record timespec =
  tv_sec :: int
  tv_nsec :: int

definition timespec_from_now :: "'f f64_ops \<Rightarrow> timespec \<Rightarrow> 'f \<Rightarrow> timespec" where
  "timespec_from_now f clock secs =
     (let now = f_add f (f_of_int f (tv_sec clock)) (f_div f (f_of_int f (tv_nsec clock)) (f_of_int f 1000000000));
          abs = f_add f now secs;
          sec = f_to_i64 f (f_floor f abs)
      in \<lparr>tv_sec = sec,
          tv_nsec = f_to_i64 f (f_round f (f_mul f (f_sub f abs (f_of_int f sec)) (f_of_int f 1000000000)))\<rparr>)"

section \<open>Mutexes and condition variables\<close>

text \<open>The pthread functions on the mutex and the condition variable at an
  address; the result is their return code, 0 for success.\<close>

record ('m, 'f) pthread_ops =
  arith :: "'f f64_ops"
  parse_float :: "string \<Rightarrow> 'f option"
  clock_gettime :: "'m \<Rightarrow> timespec"
  mutexattr_init :: "'m \<Rightarrow> int \<times> 'm"
  condattr_init :: "'m \<Rightarrow> int \<times> 'm"
  mutexattr_setrobust :: "'m \<Rightarrow> int \<times> 'm"
  pthread_mutex_init :: "address \<Rightarrow> bool \<Rightarrow> 'm \<Rightarrow> int \<times> 'm"
  pthread_cond_init :: "address \<Rightarrow> 'm \<Rightarrow> int \<times> 'm"
  pthread_mutex_lock :: "address \<Rightarrow> 'm \<Rightarrow> int \<times> 'm"
  pthread_mutex_trylock :: "address \<Rightarrow> 'm \<Rightarrow> int \<times> 'm"
  pthread_mutex_timedlock :: "address \<Rightarrow> timespec \<Rightarrow> 'm \<Rightarrow> int \<times> 'm"
  pthread_mutex_consistent :: "address \<Rightarrow> 'm \<Rightarrow> int \<times> 'm"
  pthread_mutex_unlock :: "address \<Rightarrow> 'm \<Rightarrow> int \<times> 'm"
  pthread_cond_wait :: "address \<Rightarrow> 'm \<Rightarrow> int \<times> 'm"
  pthread_cond_timedwait :: "address \<Rightarrow> timespec \<Rightarrow> 'm \<Rightarrow> int \<times> 'm"
  pthread_cond_broadcast :: "address \<Rightarrow> 'm \<Rightarrow> 'm"

definition guard_lock :: "('m, 'f) pthread_ops \<Rightarrow> address \<Rightarrow> 'm \<Rightarrow> bool \<times> 'm" where
  "guard_lock pt mtx m = (case pthread_mutex_lock pt mtx m of (rc, m) \<Rightarrow> (if rc \<noteq> 0 then (False, m) else (True, m)))"

definition guard_unlock :: "('m, 'f) pthread_ops \<Rightarrow> address \<Rightarrow> 'm \<Rightarrow> 'm" where
  "guard_unlock pt mtx m = snd (pthread_mutex_unlock pt mtx m)"

text \<open>Initialization: a mutex with the attributes process-shared and, when asked,
  robust. The return codes of the destructors are not looked at by the code.\<close>

definition deadline :: "('m, 'f) pthread_ops \<Rightarrow> 'f \<Rightarrow> 'm \<Rightarrow> timespec" where
  "deadline pt secs m = timespec_from_now (arith pt) (clock_gettime pt m) secs"

lemma id_of_uint [simp]: "id_of (Value (Nat_arg n)) = of_nat n"
  by (simp add: id_of_def nat_of_def)

lemma str_of_simps [simp]: "str_of (Value (Str_arg x)) = x"
  by (simp add: str_of_def)

lemma on_sys_eq: "f (sys (world s)) = (x, m) \<Longrightarrow> on_sys f s = (x, set_sys m s)"
  by (simp add: on_sys_def set_sys_def)

lemma set_sys_simps [simp]:
  "sys (world (set_sys m s)) = m" "barriers (world (set_sys m s)) = barriers (world s)"
  "mutexes (world (set_sys m s)) = mutexes (world s)" "semaphores (world (set_sys m s)) = semaphores (world s)"
  by (simp_all add: set_sys_def)

lemma world_cmd_enter [simp]: "world (cmd_enter d s) = world s"
  by (simp add: cmd_enter_def l_enter_subcommand_def Let_def split: option.splits)

lemma arg_Cons [simp]: "arg (v # vs) 0 = v" "arg (v # vs) (Suc i) = arg vs i"
  by (simp_all add: arg_def)

lemma arg_numeral [simp]: "arg (v # vs) (numeral n) = arg vs (pred_numeral n)"
  by (simp add: numeral_eq_Suc)

section \<open>Handles as text\<close>

lemma set_unsigned_text:
  "bash_var_set_unsigned bv name (v :: 64 word) w = Val (bash_var_set bv name (dec (unat v)) w)"
  using unsigned_to_intstr_text[of v] by (auto simp: bash_var_set_unsigned_def)

lemma unat_lt2p_64: "unat (v :: 64 word) < 2 ^ 64"
  using unsigned_less[of v, where 'a = nat] by simp

lemma handle_text_parses: "uint_conv 64 (dec (unat (v :: 64 word))) = Some (Nat_arg (unat v))"
proof -
  have "unat v \<le> 2 ^ 64 - 1" using unat_lt2p_64[of v] by simp
  then show ?thesis
    using parse_unsigned_dec[of "unat v" "2 ^ 64 - 1"] utf8_valid_ascii[OF dec_ascii]
    by (simp add: uint_conv_def uint_from_cpnt_def from_utf8_def)
qed

lemma set_handle_var_text:
  "set_handle_var bv var i s = Some (case bash_var_set bv var (dec (unat i)) (sys (world s)) of (r, m) \<Rightarrow> Val (r, set_sys m s))"
  by (simp add: set_handle_var_def set_unsigned_text split: prod.splits)

section \<open>Groups of six subcommands\<close>

lemma caller_parse:
  assumes "getopt_yields ops list ''h'' (getopt_reset ops) [] (Some q # args)"
  shows "parse ops caller_fields list = Some (Ok [Value q, Words args])"
proof -
  have "optstring caller_fields = ''h''" by (simp add: optstring_def caller_fields_def)
  then show ?thesis
    using parse_yields[of ops list caller_fields] assms
    by (simp add: caller_fields_def new_default_def has_rest_def words_next_def iter_current_def iter_advance_def bytes_from_cpnt_def)
qed

lemma group_runs:
  assumes ok: "table_ok TYPE(64) n entries" "list_all nul_free (map fst entries)"
    and q: "q \<noteq> []" "nul_free q" and y: "getopt_yields ops list ''h'' (getopt_reset ops) [] (Some q # args)"
  shows "subcommand_group ops d (\<lambda>q. bindR (int_lookup_new n entries) (\<lambda>t :: (64 word, 'w handler) int_lookup. lookup t q)) list s =
    (case prefix_lookup entries q of None \<Rightarrow> Some (Val (Err EX_USAGE, cmd_enter d s)) | Some h \<Rightarrow> h args (cmd_enter d s))"
proof -
  have "8 dvd LENGTH(64)" by simp
  from int_lookup_new_holds[OF this ok] obtain t :: "(64 word, 'w handler) int_lookup" and es
    where t: "int_lookup_new n entries = Val t" "holds t es" "mset es = mset entries" by blast
  have "lookup t q = Val (prefix_lookup entries q)"
    using u64.find_prefix[OF t(2) q] prefix_lookup_mset[OF t(3) u64.entries_distinct[OF t(2)]] by simp
  then show ?thesis
    by (simp add: subcommand_group_def with_args_def caller_parse[OF y] caller_handler_def t(1) Let_def split: option.splits)
qed

end
