(* ===== verification/Fd_Io.thy ===== *)
theory Fd_Io
  imports Sync Io_Common
begin

text \<open>
  The subcommands that move bytes between a file descriptor and bash:
  \<open>l_builtin/src/read.rs\<close>, \<open>recv.rs\<close>, \<open>write.rs\<close> and \<open>send.rs\<close>. The two pairs have the
  same loop, which is modelled once over the system call. The system calls and
  bash's variables are parameters over the state \<open>'w\<close>; a call gives a value or
  an error number. A loop that does not end is \<open>None\<close>.
\<close>

section \<open>System calls\<close>

definition EINTR :: int where "EINTR = 4"

text \<open>\<open>EWOULDBLOCK\<close> is the same number on Linux.\<close>

definition EAGAIN :: int where "EAGAIN = 11"

definition O_NONBLOCK :: "32 word" where "O_NONBLOCK = 2048"

type_synonym ('w, 'a) syscall = "'w \<Rightarrow> ('a, int) result \<times> 'w"

text \<open>A read returns at most as many bytes as asked for, a write the number of
  bytes taken; \<open>sys_recv\<close> has the flag \<open>MSG_DONTWAIT\<close>; \<open>get_status\<close> and
  \<open>set_status\<close> are \<open>F_GETFL\<close> and \<open>F_SETFL\<close>.\<close>

record 'w fd_sys =
  sys_read :: "int \<Rightarrow> nat \<Rightarrow> ('w, string) syscall"
  sys_recv :: "int \<Rightarrow> nat \<Rightarrow> bool \<Rightarrow> ('w, string) syscall"
  sys_write :: "int \<Rightarrow> string \<Rightarrow> ('w, nat) syscall"
  sys_send :: "int \<Rightarrow> string \<Rightarrow> ('w, nat) syscall"
  get_status :: "int \<Rightarrow> ('w, 32 word) syscall"
  set_status :: "int \<Rightarrow> 32 word \<Rightarrow> ('w, unit) syscall"

record ('w, 'g) fd_env =
  fd_getopt :: "'g getopt"
  fd_vars :: "'w bash_vars"
  fd_texts :: "string \<Rightarrow> string \<times> string"
  fd_calls :: "'w fd_sys"

section \<open>Arguments\<close>

datatype fd_arg = Text string | Int_val int | Nat_val nat | Fmt format

definition text_arg :: "string \<Rightarrow> fd_arg option" where
  "text_arg s = map_option Text (bytes_from_cpnt s)"

definition var_arg :: "'w bash_vars \<Rightarrow> 'w \<Rightarrow> string \<Rightarrow> fd_arg option" where
  "var_arg bv w s = map_option Text (bash_var_validate bv w s)"

definition int_arg :: "nat \<Rightarrow> string \<Rightarrow> fd_arg option" where
  "int_arg bits s = map_option Int_val (int_from_cpnt bits s)"

definition nat_arg :: "nat \<Rightarrow> string \<Rightarrow> fd_arg option" where
  "nat_arg bits s = map_option Nat_val (uint_from_cpnt bits s)"

definition format_arg :: "string \<Rightarrow> fd_arg option" where
  "format_arg s = (case parse_format s of Ok f \<Rightarrow> Some (Fmt f) | Err _ \<Rightarrow> None)"

fun text_val :: "fd_arg field_value \<Rightarrow> string option" where
  "text_val (Value (Text x)) = Some x"
| "text_val _ = None"

fun int_val :: "fd_arg field_value \<Rightarrow> int" where
  "int_val (Value (Int_val x)) = x"
| "int_val _ = 0"

fun nat_val :: "fd_arg field_value \<Rightarrow> nat" where
  "nat_val (Value (Nat_val x)) = x"
| "nat_val _ = 0"

fun fmt_val :: "fd_arg field_value \<Rightarrow> format" where
  "fmt_val (Value (Fmt x)) = x"
| "fmt_val _ = Raw"

definition flag_field :: "string \<Rightarrow> char \<Rightarrow> fd_arg field" where
  "flag_field n c = Field n (Flag_kind c) text_arg"

definition format_option :: "fd_arg field" where
  "format_option = Field ''format'' (Opt_kind (CHR ''f'') (Some (Fmt Raw))) format_arg"

definition var_option :: "'w bash_vars \<Rightarrow> 'w \<Rightarrow> fd_arg field" where
  "var_option bv w = Field ''var'' (Opt_kind (CHR ''v'') None) (var_arg bv w)"

definition fd_field :: "string \<Rightarrow> fd_arg field" where
  "fd_field n = Field n (Positional_kind (Int_val 0)) (int_arg 32)"

text \<open>The fields of \<open>ReadArgs\<close> and \<open>RecvArgs\<close>, and of \<open>WriteArgs\<close> and \<open>SendArgs\<close>.\<close>

definition read_fields :: "'w bash_vars \<Rightarrow> 'w \<Rightarrow> fd_arg field list" where
  "read_fields bv w =
     [flag_field ''non_blocking'' (CHR ''n''), flag_field ''interruptible'' (CHR ''i''), format_option,
      var_option bv w, fd_field ''fd'', Field ''size'' (Positional_kind (Nat_val 0)) (nat_arg 64)]"

definition write_fields :: "'w bash_vars \<Rightarrow> 'w \<Rightarrow> fd_arg field list" where
  "write_fields bv w =
     [format_option, flag_field ''non_blocking'' (CHR ''n''), var_option bv w, fd_field ''fd'',
      Field ''data'' (Positional_kind (Text [])) text_arg]"

section \<open>Reading\<close>

partial_function (option) read_loop ::
    "('w, string) syscall \<Rightarrow> bool \<Rightarrow> bool \<Rightarrow> 'w \<Rightarrow> ((string, exit_code) result \<times> 'w) option" where
  "read_loop call nonblock interruptible w =
     (case call w of
        (Ok bs, w) \<Rightarrow> Some (Ok bs, w)
      | (Err e, w) \<Rightarrow>
          if e = EINTR then (if interruptible then Some (Err EXECUTION_FAILURE, w) else read_loop call nonblock interruptible w)
          else if nonblock \<and> e = EAGAIN then Some (Ok [], w)
          else Some (Err EXECUTION_FAILURE, w))"

text \<open>\<open>vec![0u8; size + 1]\<close>: the addition wraps in the release profile, a capacity
  beyond \<open>isize::MAX\<close> panics.\<close>

definition buffer_size :: "nat \<Rightarrow> nat run" where
  "buffer_size n = (if (n + 1) mod 2 ^ 64 < 2 ^ 63 then Val ((n + 1) mod 2 ^ 64) else Panic)"

text \<open>What is stored is the C string at the start of the buffer.\<close>

definition stored_text :: "format \<Rightarrow> string \<Rightarrow> string" where
  "stored_text fmt bs = c_str (case fmt of Hex \<Rightarrow> hex_encode bs | Raw \<Rightarrow> bs @ [CHR 0x00])"

definition receive ::
    "'w bash_vars \<Rightarrow> ('w, string) syscall \<Rightarrow> nat \<Rightarrow> bool \<Rightarrow> bool \<Rightarrow> format \<Rightarrow> string option \<Rightarrow> 'w
     \<Rightarrow> (cmd_result \<times> 'w) run option" where
  "receive bv call cap nonblock interruptible fmt var w =
     (case read_loop call nonblock interruptible w of
        None \<Rightarrow> None
      | Some (Err e, w) \<Rightarrow> Some (Val (Err e, w))
      | Some (Ok bs, w) \<Rightarrow>
          if cap \<le> length bs then Some Panic
          else Some (Val (case var of None \<Rightarrow> (Ok (), w) | Some v \<Rightarrow> bash_var_set bv v (stored_text fmt bs) w)))"

text \<open>\<open>NonblockGuard\<close>: the old flags, and the drop at the end of the subcommand.\<close>

definition nonblock_set :: "'w fd_sys \<Rightarrow> int \<Rightarrow> ('w, 32 word) syscall" where
  "nonblock_set os fd w =
     (case get_status os fd w of
        (Err e, w) \<Rightarrow> (Err e, w)
      | (Ok old_flags, w) \<Rightarrow>
          (case set_status os fd (old_flags OR O_NONBLOCK) w of
             (Err e, w) \<Rightarrow> (Err e, w)
           | (Ok _, w) \<Rightarrow> (Ok old_flags, w)))"

definition nonblock_drop :: "'w fd_sys \<Rightarrow> int \<Rightarrow> 32 word \<Rightarrow> 'w \<Rightarrow> 'w" where
  "nonblock_drop os fd old_flags w = snd (set_status os fd old_flags w)"

definition finally_do :: "('w \<Rightarrow> 'w) \<Rightarrow> (cmd_result \<times> 'w) run option \<Rightarrow> (cmd_result \<times> 'w) run option" where
  "finally_do f r = map_option (\<lambda>r. bindR r (\<lambda>(x, w). Val (x, f w))) r"

definition read_bytes ::
    "('w, 'g) fd_env \<Rightarrow> int \<Rightarrow> nat \<Rightarrow> bool \<Rightarrow> bool \<Rightarrow> format \<Rightarrow> string option \<Rightarrow> 'w \<Rightarrow> (cmd_result \<times> 'w) run option" where
  "read_bytes E fd n nonblock interruptible fmt var w =
     (case buffer_size n of
        Panic \<Rightarrow> Some Panic
      | Val cap \<Rightarrow>
          (let body = receive (fd_vars E) (sys_read (fd_calls E) fd n) cap nonblock interruptible fmt var in
           if nonblock then
             (case nonblock_set (fd_calls E) fd w of
                (Err _, w) \<Rightarrow> Some (Val (Err EXECUTION_FAILURE, w))
              | (Ok old_flags, w) \<Rightarrow> finally_do (nonblock_drop (fd_calls E) fd old_flags) (body w))
           else body w))"

definition recv_bytes ::
    "('w, 'g) fd_env \<Rightarrow> int \<Rightarrow> nat \<Rightarrow> bool \<Rightarrow> bool \<Rightarrow> format \<Rightarrow> string option \<Rightarrow> 'w \<Rightarrow> (cmd_result \<times> 'w) run option" where
  "recv_bytes E fd n nonblock interruptible fmt var w =
     (case buffer_size n of
        Panic \<Rightarrow> Some Panic
      | Val cap \<Rightarrow> receive (fd_vars E) (sys_recv (fd_calls E) fd n nonblock) cap nonblock interruptible fmt var w)"

text \<open>A subcommand runs its operation on the world of the shell.\<close>

definition on_shell :: "('w \<Rightarrow> (cmd_result \<times> 'w) run option) \<Rightarrow> 'w shell \<Rightarrow> (cmd_result \<times> 'w shell) run option" where
  "on_shell f s = map_option (\<lambda>r. bindR r (\<lambda>(x, w). Val (x, set_world w s))) (f (world s))"

definition read_subcommand :: "('w, 'g) fd_env \<Rightarrow> 'w handler" where
  "read_subcommand E list s =
     (let s = cmd_enter (described (fd_texts E) ''read'') s in
      with_args (fd_getopt E) (read_fields (fd_vars E) (world s)) list s (\<lambda>vs.
      on_shell (read_bytes E (int_val (arg vs 4)) (nat_val (arg vs 5)) (flag_of (arg vs 0)) (flag_of (arg vs 1))
        (fmt_val (arg vs 2)) (text_val (arg vs 3))) s))"

definition recv_subcommand :: "('w, 'g) fd_env \<Rightarrow> 'w handler" where
  "recv_subcommand E list s =
     (let s = cmd_enter (described (fd_texts E) ''recv'') s in
      with_args (fd_getopt E) (read_fields (fd_vars E) (world s)) list s (\<lambda>vs.
      on_shell (recv_bytes E (int_val (arg vs 4)) (nat_val (arg vs 5)) (flag_of (arg vs 0)) (flag_of (arg vs 1))
        (fmt_val (arg vs 2)) (text_val (arg vs 3))) s))"

section \<open>Writing\<close>

partial_function (option) write_loop ::
    "(string \<Rightarrow> ('w, nat) syscall) \<Rightarrow> bool \<Rightarrow> string \<Rightarrow> nat \<Rightarrow> 'w \<Rightarrow> ((nat, exit_code) result \<times> 'w) option" where
  "write_loop call nonblock data done_n w =
     (case call (drop done_n data) w of
        (Err e, w) \<Rightarrow>
          if e = EINTR then write_loop call nonblock data done_n w else Some (Err EXECUTION_FAILURE, w)
      | (Ok written, w) \<Rightarrow>
          (let done_n = done_n + written in
           if nonblock \<or> done_n = length data then Some (Ok done_n, w)
           else write_loop call nonblock data done_n w))"

definition transmit ::
    "'w bash_vars \<Rightarrow> (string \<Rightarrow> ('w, nat) syscall) \<Rightarrow> format \<Rightarrow> bool \<Rightarrow> string option \<Rightarrow> string \<Rightarrow> 'w
     \<Rightarrow> (cmd_result \<times> 'w) run option" where
  "transmit bv call fmt nonblock var text w =
     (case (case fmt of Hex \<Rightarrow> hex_decode text | Raw \<Rightarrow> Some text) of
        None \<Rightarrow> Some (Val (Err EXECUTION_FAILURE, w))
      | Some data \<Rightarrow>
          (case write_loop call nonblock data 0 w of
             None \<Rightarrow> None
           | Some (Err e, w) \<Rightarrow> Some (Val (Err e, w))
           | Some (Ok done_n, w) \<Rightarrow>
               (case var of
                  None \<Rightarrow> Some (Val (Ok (), w))
                | Some v \<Rightarrow> Some (bash_var_set_signed bv v (of_nat done_n :: 64 word) w))))"

definition write_subcommand :: "('w, 'g) fd_env \<Rightarrow> 'w handler" where
  "write_subcommand E list s =
     (let s = cmd_enter (described (fd_texts E) ''write'') s in
      with_args (fd_getopt E) (write_fields (fd_vars E) (world s)) list s (\<lambda>vs.
      on_shell (transmit (fd_vars E) (sys_write (fd_calls E) (int_val (arg vs 3))) (fmt_val (arg vs 0)) (flag_of (arg vs 1))
        (text_val (arg vs 2)) (case text_val (arg vs 4) of Some t \<Rightarrow> t | None \<Rightarrow> [])) s))"

definition send_subcommand :: "('w, 'g) fd_env \<Rightarrow> 'w handler" where
  "send_subcommand E list s =
     (let s = cmd_enter (described (fd_texts E) ''send'') s in
      with_args (fd_getopt E) (write_fields (fd_vars E) (world s)) list s (\<lambda>vs.
      on_shell (transmit (fd_vars E) (sys_send (fd_calls E) (int_val (arg vs 3))) (fmt_val (arg vs 0)) (flag_of (arg vs 1))
        (text_val (arg vs 2)) (case text_val (arg vs 4) of Some t \<Rightarrow> t | None \<Rightarrow> [])) s))"

section \<open>Writing everything\<close>

text \<open>A system call that takes a prefix of its bytes; \<open>sent w\<close> is what the
  descriptor has taken so far.\<close>

definition sink_laws :: "(string \<Rightarrow> ('w, nat) syscall) \<Rightarrow> ('w \<Rightarrow> string) \<Rightarrow> bool" where
  "sink_laws call sent \<longleftrightarrow>
     (\<forall>bs w. case call bs w of
        (Ok n, w') \<Rightarrow> n \<le> length bs \<and> sent w' = sent w @ take n bs
      | (Err _, w') \<Rightarrow> sent w' = sent w)"

lemma sink_step:
  assumes "sink_laws call sent" "call bs w = (r, w')"
  shows "case r of Ok n \<Rightarrow> n \<le> length bs \<and> sent w' = sent w @ take n bs | Err _ \<Rightarrow> sent w' = sent w"
  using assms(1)[unfolded sink_laws_def, rule_format, of bs w] assms(2) by (simp split: result.splits)

lemma write_loop_sends:
  assumes "sink_laws call sent" "write_loop call nb data k w = Some (r, w')" "k \<le> length data"
  shows "\<exists>n. k \<le> n \<and> n \<le> length data \<and> sent w' = sent w @ take (n - k) (drop k data) \<and>
     (\<forall>m. r = Ok m \<longrightarrow> m = n \<and> (nb \<or> n = length data))"
proof -
  let ?Q = "\<lambda>k w r w'. \<exists>n. k \<le> n \<and> n \<le> length data \<and> sent w' = sent w @ take (n - k) (drop k data) \<and>
     (\<forall>m. r = Ok m \<longrightarrow> m = n \<and> (nb \<or> n = length data))"
  let ?P = "\<lambda>call' nb' data' k w y. call' = call \<longrightarrow> nb' = nb \<longrightarrow> data' = data \<longrightarrow> k \<le> length data \<longrightarrow> ?Q k w (fst y) (snd y)"
  have "?P call nb data k w (r, w')"
  proof (rule write_loop.raw_induct[where P = ?P, OF _ assms(2)])
    fix loop call' nb' data' k w y
    assume IH: "\<And>call' nb' data' k w y. loop call' nb' data' k w = Some y \<Longrightarrow> ?P call' nb' data' k w y"
      and eq: "(case call' (drop k data') w of
        (Ok written, w) \<Rightarrow>
          (let done_n = k + written in
           if nb' \<or> done_n = length data' then Some (Ok done_n, w) else loop call' nb' data' done_n w)
      | (Err e, w) \<Rightarrow> if e = EINTR then loop call' nb' data' k w else Some (Err EXECUTION_FAILURE, w)) = Some y"
    show "?P call' nb' data' k w y"
    proof (intro impI)
      assume [simp]: "call' = call" "nb' = nb" "data' = data" and k: "k \<le> length data"
      obtain res w1 where c: "call (drop k data) w = (res, w1)" by fastforce
      note step = sink_step[OF assms(1) c]
      show "?Q k w (fst y) (snd y)"
      proof (cases res)
        case (Ok m)
        then have m: "k + m \<le> length data" "sent w1 = sent w @ take m (drop k data)" using step k by auto
        show ?thesis
        proof (cases "nb \<or> k + m = length data")
          case True
          then have "y = (Ok (k + m), w1)" using eq by (simp add: c Ok Let_def)
          then show ?thesis using m True by (intro exI[of _ "k + m"]) simp
        next
          case False
          then have "loop call nb data (k + m) w1 = Some y" using eq by (simp add: c Ok Let_def)
          then obtain n where "k + m \<le> n" "n \<le> length data" "sent (snd y) = sent w1 @ take (n - (k + m)) (drop (k + m) data)"
              and res: "\<forall>m. fst y = Ok m \<longrightarrow> m = n \<and> (nb \<or> n = length data)"
            using IH m(1) by blast
          moreover have "take (n - k) (drop k data) = take m (drop k data) @ take (n - (k + m)) (drop (k + m) data)"
            using take_add[of m "n - (k + m)" "drop k data"] \<open>k + m \<le> n\<close> by (simp add: add.commute)
          ultimately show ?thesis using m(2) by (intro exI[of _ n] conjI res) auto
        qed
      next
        case (Err e)
        then show ?thesis using eq step k IH[of call nb data k w1 y]
          by (cases "e = EINTR") (auto simp: c intro!: exI[of _ k])
      qed
    qed
  qed
  then show ?thesis using assms(3) by simp
qed

text \<open>The descriptor takes at least one byte of a non-empty write that succeeds, and
  \<open>pending w\<close> bounds how often a signal can still interrupt.\<close>

definition sink_progress :: "(string \<Rightarrow> ('w, nat) syscall) \<Rightarrow> ('w \<Rightarrow> nat) \<Rightarrow> bool" where
  "sink_progress call pending \<longleftrightarrow>
     (\<forall>bs w. case call bs w of
        (Ok n, _) \<Rightarrow> bs = [] \<or> 0 < n
      | (Err e, w') \<Rightarrow> e = EINTR \<longrightarrow> pending w' < pending w)"

lemma write_loop_returns:
  assumes "sink_laws call sent" "sink_progress call pending" "k \<le> length data"
  shows "write_loop call nb data k w \<noteq> None"
  using assms(3)
proof (induction "(length data - k, pending w)" arbitrary: k w rule: wf_induct_rule[OF wf_lex_prod[OF wf_less wf_less]])
  case (1 k w)
  obtain res w1 where c: "call (drop k data) w = (res, w1)" by fastforce
  note step = sink_step[OF assms(1) c]
  have pr: "case res of Ok n \<Rightarrow> drop k data = [] \<or> 0 < n | Err e \<Rightarrow> e = EINTR \<longrightarrow> pending w1 < pending w"
    using assms(2)[unfolded sink_progress_def, rule_format, of "drop k data" w] by (simp add: c split: result.splits)
  show ?case
  proof (cases res)
    case (Ok m)
    then have m: "k + m \<le> length data" using step 1(2) by auto
    have "write_loop call nb data (k + m) w1 \<noteq> None" if "k + m \<noteq> length data"
    proof -
      have "0 < m" using pr m that Ok by auto
      then have "length data - (k + m) < length data - k" using m by simp
      then show ?thesis using 1(1)[of "k + m" w1] m by fastforce
    qed
    then show ?thesis by (cases "nb \<or> k + m = length data") (subst write_loop.simps; simp add: c Ok Let_def)+
  next
    case (Err e)
    have "e = EINTR \<Longrightarrow> write_loop call nb data k w1 \<noteq> None"
      using 1(1)[of k w1] 1(2) pr Err by auto
    then show ?thesis by (subst write_loop.simps) (simp add: c Err)
  qed
qed

lemma set_int_text: "bash_var_set_signed bv v (x :: 64 word) w = Val (bash_var_set bv v (dec_int (sint x)) w)"
  using signed_to_intstr_text[where 'a = 64, of x] by (auto simp: bash_var_set_signed_def)

definition payload :: "format \<Rightarrow> string \<Rightarrow> string option" where
  "payload fmt text = (case fmt of Hex \<Rightarrow> hex_decode text | Raw \<Rightarrow> Some text)"

text \<open>
  C32: What \<open>write\<close> and \<open>send\<close> give to the descriptor is a prefix of the data in order,
  with no byte lost or sent twice, whatever short writes and interrupts occur; it
  is all of the data when the subcommand succeeds without \<open>-n\<close>. Text that is no
  hexadecimal fails before anything is sent.
\<close>

theorem transmit_sends_data:
  assumes "sink_laws call sent" "\<And>v x w. sent (snd (bash_var_set bv v x w)) = sent w"
    and "transmit bv call fmt nonblock var text w = Some (Val (r, w'))"
  shows "case payload fmt text of
      None \<Rightarrow> r = Err EXECUTION_FAILURE \<and> w' = w
    | Some data \<Rightarrow> \<exists>n. n \<le> length data \<and> sent w' = sent w @ take n data \<and> (r = Ok () \<longrightarrow> nonblock \<or> n = length data)"
proof (cases "payload fmt text")
  case None
  then show ?thesis using assms(3) by (simp add: transmit_def payload_def)
next
  case (Some data)
  obtain res w1 where l: "write_loop call nonblock data 0 w = Some (res, w1)"
    using assms(3) Some by (cases "write_loop call nonblock data 0 w") (auto simp: transmit_def payload_def)
  obtain n where n: "n \<le> length data" "sent w1 = sent w @ take n data" "\<forall>m. res = Ok m \<longrightarrow> m = n \<and> (nonblock \<or> n = length data)"
    using write_loop_sends[OF assms(1) l] by auto
  have "sent w' = sent w1 \<and> (r = Ok () \<longrightarrow> (\<exists>m. res = Ok m))"
  proof (cases res)
    case (Ok m)
    show ?thesis
    proof (cases var)
      case (Some v)
      then have "(r, w') = bash_var_set bv v (dec_int (sint (of_nat m :: 64 word))) w1"
        using assms(3) \<open>payload fmt text = Some data\<close> l Ok by (auto simp: transmit_def payload_def set_int_text)
      then show ?thesis using assms(2) Ok by (metis snd_conv)
    qed (use assms(3) \<open>payload fmt text = Some data\<close> l Ok in \<open>auto simp: transmit_def payload_def\<close>)
  next
    case (Err e)
    then show ?thesis using assms(3) Some l by (auto simp: transmit_def payload_def)
  qed
  then show ?thesis using n Some by auto
qed

text \<open>
  C33: \<open>write\<close> and \<open>send\<close> end without a panic when the descriptor takes at least one
  byte of every write that succeeds and signals interrupt only finitely often.
\<close>

theorem transmit_returns:
  assumes "sink_laws call sent" "sink_progress call pending"
  shows "\<exists>r w'. transmit bv call fmt nonblock var text w = Some (Val (r, w'))"
proof (cases "payload fmt text")
  case (Some data)
  obtain res w1 where "write_loop call nonblock data 0 w = Some (res, w1)"
    using write_loop_returns[OF assms, of 0 data nonblock w] by auto
  then show ?thesis using Some
    by (cases res; cases var) (auto simp: transmit_def payload_def set_int_text intro: prod.exhaust)
qed (simp add: transmit_def payload_def)

section \<open>A pipe\<close>

text \<open>A pipe that takes two bytes at a time and is interrupted a few times: the
  bytes it holds, the interrupts to come, and the variables of bash.\<close>

record pipe_world =
  pipe_bytes :: string
  interrupts :: nat
  pipe_flags :: "32 word"
  variables :: "(string \<times> string) list"

definition pipe_write :: "int \<Rightarrow> string \<Rightarrow> (pipe_world, nat) syscall" where
  "pipe_write fd bs w =
     (if interrupts w > 0 then (Err EINTR, w\<lparr>interrupts := interrupts w - 1\<rparr>)
      else (Ok (min 2 (length bs)), w\<lparr>pipe_bytes := pipe_bytes w @ take 2 bs\<rparr>))"

definition pipe_read :: "int \<Rightarrow> nat \<Rightarrow> (pipe_world, string) syscall" where
  "pipe_read fd n w =
     (if interrupts w > 0 then (Err EINTR, w\<lparr>interrupts := interrupts w - 1\<rparr>)
      else if pipe_bytes w = [] then (Err EAGAIN, w)
      else (Ok (take n (pipe_bytes w)), w\<lparr>pipe_bytes := drop n (pipe_bytes w)\<rparr>))"

definition pipe_calls :: "pipe_world fd_sys" where
  "pipe_calls = \<lparr>sys_read = pipe_read, sys_recv = \<lambda>fd n nb. pipe_read fd n, sys_write = pipe_write, sys_send = pipe_write,
     get_status = \<lambda>fd w. (Ok (pipe_flags w), w), set_status = \<lambda>fd f w. (Ok (), w\<lparr>pipe_flags := f\<rparr>)\<rparr>"

definition pipe_vars :: "pipe_world bash_vars" where
  "pipe_vars = \<lparr>legal_identifier = \<lambda>_. True, var_readonly = \<lambda>_ _. False,
     bind_variable = \<lambda>v x w. (True, w\<lparr>variables := AList.update v x (variables w)\<rparr>)\<rparr>"

lemma pipe_sink: "sink_laws (pipe_write fd) pipe_bytes" "sink_progress (pipe_write fd) interrupts"
  by (auto simp: sink_laws_def sink_progress_def pipe_write_def EINTR_def min_def)

lemma pipe_set: "bash_var_set pipe_vars v x w = (Ok (), w\<lparr>variables := AList.update v x (variables w)\<rparr>)"
  by (simp add: bash_var_set_def l_bind_variable_check_def pipe_vars_def)

theorem transmit_sends_data_witness:
  "\<exists>w'. transmit pipe_vars (pipe_write 7) Hex False None ''00ff41''
       \<lparr>pipe_bytes = ''x'', interrupts = 1, pipe_flags = 0, variables = []\<rparr> = Some (Val (Ok (), w')) \<and>
     pipe_bytes w' = ''x'' @ [CHR 0x00, CHR 0xFF, CHR ''A'']"
proof -
  let ?w = "\<lparr>pipe_bytes = ''x'', interrupts = 1, pipe_flags = 0, variables = []\<rparr>"
  have d: "payload Hex ''00ff41'' = Some [CHR 0x00, CHR 0xFF, CHR ''A'']"
    unfolding payload_def by code_simp
  obtain w' where t: "transmit pipe_vars (pipe_write 7) Hex False None ''00ff41'' ?w = Some (Val (Ok (), w'))"
    using d by (simp add: transmit_def payload_def write_loop.simps pipe_write_def Let_def)
  show ?thesis
    using transmit_sends_data[OF pipe_sink(1)[of 7] _ t] t d by (auto simp: pipe_set)
qed

theorem transmit_returns_witness:
  "\<exists>r w'. transmit pipe_vars (pipe_write 7) Raw False (Some ''n'') ''data''
      \<lparr>pipe_bytes = [], interrupts = 3, pipe_flags = 0, variables = []\<rparr> = Some (Val (r, w'))"
  by (rule transmit_returns[OF pipe_sink])

section \<open>Reading\<close>

lemma read_loop_keeps:
  assumes "\<And>w. st (snd (call w)) = st w" "read_loop call nb intr w = Some (r, w')"
  shows "st w' = st w"
proof -
  let ?P = "\<lambda>call' nb' intr' w y. call' = call \<longrightarrow> st (snd y) = st w"
  have "?P call nb intr w (r, w')"
  proof (rule read_loop.raw_induct[where P = ?P, OF _ assms(2)])
    fix loop call' nb' intr' w y
    assume IH: "\<And>call' nb' intr' w y. loop call' nb' intr' w = Some y \<Longrightarrow> ?P call' nb' intr' w y"
      and eq: "(case call' w of
          (Ok bs, w) \<Rightarrow> Some (Ok bs, w)
        | (Err e, w) \<Rightarrow>
            if e = EINTR then (if intr' then Some (Err EXECUTION_FAILURE, w) else loop call' nb' intr' w)
            else if nb' \<and> e = EAGAIN then Some (Ok [], w)
            else Some (Err EXECUTION_FAILURE, w)) = Some y"
    obtain res w1 where c: "call' w = (res, w1)" by fastforce
    show "?P call' nb' intr' w y"
    proof
      assume "call' = call"
      then have "st w1 = st w" using assms(1)[of w] c by simp
      then show "st (snd y) = st w"
        using eq[unfolded c prod.case] IH[of call' nb' intr' w1 y] \<open>call' = call\<close> by (cases res) (auto split: if_splits)
    qed
  qed
  then show ?thesis by simp
qed

lemma receive_keeps:
  assumes "\<And>w. st (snd (call w)) = st w" "\<And>v x w. st (snd (bash_var_set bv v x w)) = st w"
    and "receive bv call cap nb intr fmt var w = Some (Val (r, w'))"
  shows "st w' = st w"
proof -
  obtain res w1 where l: "read_loop call nb intr w = Some (res, w1)"
    using assms(3) by (cases "read_loop call nb intr w") (auto simp: receive_def)
  then have "st w1 = st w" using read_loop_keeps[of st call] assms(1) by blast
  moreover have "st w' = st w1"
    using assms(3) assms(2) l by (cases res; cases var) (auto simp: receive_def split: if_splits, metis snd_conv)
  ultimately show ?thesis by simp
qed

text \<open>The status flags \<open>st\<close> of a descriptor: \<open>F_SETFL\<close> changes those of a mask or
  fails and changes none, as the other calls.\<close>

definition status_laws :: "'w fd_sys \<Rightarrow> int \<Rightarrow> ('w \<Rightarrow> 32 word) \<Rightarrow> 32 word \<Rightarrow> bool" where
  "status_laws os fd st msk \<longleftrightarrow>
     (\<forall>w. st (snd (get_status os fd w)) = st w \<and> (\<forall>f. fst (get_status os fd w) = Ok f \<longrightarrow> f = st w)) \<and>
     (\<forall>f w r w'. set_status os fd f w = (r, w') \<longrightarrow>
        st w' = (case r of Ok _ \<Rightarrow> (st w AND NOT msk) OR (f AND msk) | Err _ \<Rightarrow> st w)) \<and>
     (\<forall>n w. st (snd (sys_read os fd n w)) = st w)"

text \<open>The call at the end that sets the old flags fails, which the code ignores.\<close>

definition flags_stuck :: "('w, 'g) fd_env \<Rightarrow> int \<Rightarrow> nat \<Rightarrow> bool \<Rightarrow> format \<Rightarrow> string option \<Rightarrow> 'w \<Rightarrow> bool" where
  "flags_stuck E fd n interruptible fmt var w =
     (case (buffer_size n, nonblock_set (fd_calls E) fd w) of
        (Val cap, Ok old_flags, w) \<Rightarrow>
          (case receive (fd_vars E) (sys_read (fd_calls E) fd n) cap True interruptible fmt var w of
             Some (Val (_, w)) \<Rightarrow> (case set_status (fd_calls E) fd old_flags w of (Err _, _) \<Rightarrow> True | _ \<Rightarrow> False)
           | _ \<Rightarrow> False)
      | _ \<Rightarrow> False)"

lemma flags_restored: "((s AND NOT m) OR ((s OR n) AND m)) AND NOT m OR (s AND m) = (s :: 'a::len word)"
  by (rule bit_word_eqI) (auto simp: bit_simps)

lemma status_get:
  assumes "status_laws os fd st msk" "get_status os fd w = (g, w1)"
  shows "st w1 = st w" "g = Ok f \<Longrightarrow> f = st w"
  using assms unfolding status_laws_def by (metis fst_conv snd_conv)+

lemma status_set:
  assumes "status_laws os fd st msk" "set_status os fd f w = (r, w')"
  shows "st w' = (case r of Ok _ \<Rightarrow> (st w AND NOT msk) OR (f AND msk) | Err _ \<Rightarrow> st w)"
  using assms unfolding status_laws_def by blast

lemma nonblock_set_status:
  assumes L: "status_laws os fd st msk" and e: "nonblock_set os fd w = (r, w')"
  shows "case r of Ok f \<Rightarrow> f = st w \<and> st w' = (st w AND NOT msk) OR ((st w OR O_NONBLOCK) AND msk) | Err _ \<Rightarrow> st w' = st w"
proof -
  obtain g w1 where g: "get_status os fd w = (g, w1)" by fastforce
  note 1 = status_get[OF L g]
  show ?thesis
  proof (cases g)
    case (Ok f)
    obtain x w2 where s: "set_status os fd (f OR O_NONBLOCK) w1 = (x, w2)" by fastforce
    show ?thesis using e status_set[OF L s] 1 Ok by (auto simp: nonblock_set_def g s split: result.splits)
  qed (use e 1 in \<open>auto simp: nonblock_set_def g\<close>)
qed

text \<open>
  C34: \<open>read -n\<close> makes the descriptor non-blocking for its own duration only: whatever
  the outcome, its status flags are afterwards what they were. The one exception is
  that the call which sets the old flags again fails; then they are those of the read.
\<close>

theorem read_restores_flags:
  assumes L: "status_laws (fd_calls E) fd st msk" and v: "\<And>v x w. st (snd (bash_var_set (fd_vars E) v x w)) = st w"
    and e: "read_bytes E fd n nonblock interruptible fmt var w = Some (Val (r, w'))"
  shows "st w' = (if nonblock \<and> flags_stuck E fd n interruptible fmt var w
    then (st w AND NOT msk) OR ((st w OR O_NONBLOCK) AND msk) else st w)"
proof -
  obtain cap where cap: "buffer_size n = Val cap" using e by (cases "buffer_size n") (auto simp: read_bytes_def)
  define body where "body nb = receive (fd_vars E) (sys_read (fd_calls E) fd n) cap nb interruptible fmt var" for nb
  have body: "st w2 = st w1" if "body nb w1 = Some (Val (r, w2))" for nb r w1 w2
    using receive_keeps[of st, OF _ v that[unfolded body_def]] L by (simp add: status_laws_def)
  obtain g w1 where g: "nonblock_set (fd_calls E) fd w = (g, w1)" by fastforce
  note 1 = nonblock_set_status[OF L g]
  have R: "read_bytes E fd n nonblock interruptible fmt var w =
      (if nonblock then (case g of Err _ \<Rightarrow> Some (Val (Err EXECUTION_FAILURE, w1))
         | Ok old_flags \<Rightarrow> finally_do (nonblock_drop (fd_calls E) fd old_flags) (body True w1)) else body False w)"
    by (cases nonblock) (simp_all add: read_bytes_def cap Let_def body_def[symmetric] g)
  show ?thesis
  proof (cases "nonblock \<and> (\<exists>f. g = Ok f)")
    case True
    then have f: "g = Ok (st w)" using 1 by auto
    obtain w3 where w3: "body True w1 = Some (Val (r, w3))" "w' = nonblock_drop (fd_calls E) fd (st w) w3"
      using e True unfolding R by (auto simp: f finally_do_def bindR_eq_Val)
    obtain x w4 where s: "set_status (fd_calls E) fd (st w) w3 = (x, w4)" by fastforce
    have "flags_stuck E fd n interruptible fmt var w = (\<exists>e. x = Err e)"
      by (cases x) (simp_all add: flags_stuck_def cap g f body_def[symmetric] w3(1) s)
    then show ?thesis
      using body[OF w3(1)] 1 status_set[OF L s] True w3(2) s
      by (cases x) (simp_all add: f nonblock_drop_def flags_restored)
  next
    case False
    then show ?thesis
      using e 1 body[of False w r w'] unfolding R
      by (cases g) (auto simp: flags_stuck_def cap g split: if_splits)
  qed
qed

theorem read_restores_flags_witness:
  "\<exists>w'. read_bytes \<lparr>fd_getopt = demo_getopt [] [], fd_vars = pipe_vars, fd_texts = \<lambda>_. ([], []), fd_calls = pipe_calls\<rparr>
       7 10 True False Raw (Some ''v'') \<lparr>pipe_bytes = ''data'', interrupts = 1, pipe_flags = 1, variables = []\<rparr>
       = Some (Val (Ok (), w')) \<and> pipe_flags w' = 1"
proof -
  let ?E = "\<lparr>fd_getopt = demo_getopt [] [], fd_vars = pipe_vars, fd_texts = \<lambda>_. ([], []), fd_calls = pipe_calls\<rparr>"
  let ?w = "\<lparr>pipe_bytes = ''data'', interrupts = 1, pipe_flags = 1, variables = []\<rparr>"
  have laws: "status_laws (fd_calls ?E) 7 pipe_flags (- 1)"
    by (simp add: status_laws_def pipe_calls_def pipe_read_def)
  have set: "pipe_flags (snd (bash_var_set (fd_vars ?E) v x w)) = pipe_flags w" for v x w
    by (simp add: pipe_set)
  obtain w' where r: "read_bytes ?E 7 10 True False Raw (Some ''v'') ?w = Some (Val (Ok (), w'))"
    by (simp add: read_bytes_def buffer_size_def nonblock_set_def pipe_calls_def receive_def read_loop.simps pipe_read_def
        Let_def finally_do_def pipe_set)
  have "\<not> flags_stuck ?E 7 10 False Raw (Some ''v'') ?w"
    by (simp add: flags_stuck_def buffer_size_def nonblock_set_def pipe_calls_def receive_def read_loop.simps pipe_read_def pipe_set)
  then show ?thesis using read_restores_flags[OF laws set r] r by simp
qed

lemma c_str_take: "c_str (s @ [CHR 0x00]) = takeWhile (\<lambda>c. c \<noteq> CHR 0x00) s"
  by (induction s) (auto simp: c_str_def)

text \<open>
  A successful \<open>read\<close> or \<open>recv\<close> into a variable stores exactly the bytes of one
  call that ended the loop: in hexadecimal any bytes, so that \<open>write -f hex\<close> or
  \<open>send -f hex\<close> of the variable sends just these bytes again; raw only those before
  the first NUL byte.
\<close>

lemma received_text_resent:
  assumes "receive bv call cap nonblock interruptible fmt (Some v) w = Some (Val (Ok (), w'))"
  shows "\<exists>bs w1. read_loop call nonblock interruptible w = Some (Ok bs, w1) \<and> length bs < cap \<and>
    bash_var_set bv v (stored_text fmt bs) w1 = (Ok (), w') \<and>
    (case fmt of
       Hex \<Rightarrow> (\<forall>bv' (call' :: string \<Rightarrow> ('v, nat) syscall). transmit bv' call' Hex nb' var' (stored_text fmt bs) = transmit bv' call' Raw nb' var' bs)
     | Raw \<Rightarrow> stored_text fmt bs = takeWhile (\<lambda>c. c \<noteq> CHR 0x00) bs)"
proof -
  obtain res w1 where l: "read_loop call nonblock interruptible w = Some (res, w1)"
    using assms by (cases "read_loop call nonblock interruptible w") (auto simp: receive_def)
  obtain bs where bs: "res = Ok bs" using assms l by (cases res) (auto simp: receive_def)
  have "length bs < cap" "bash_var_set bv v (stored_text fmt bs) w1 = (Ok (), w')"
    using assms l bs by (auto simp: receive_def split: if_splits)
  moreover have "case fmt of
       Hex \<Rightarrow> (\<forall>bv' (call' :: string \<Rightarrow> ('v, nat) syscall). transmit bv' call' Hex nb' var' (stored_text fmt bs) = transmit bv' call' Raw nb' var' bs)
     | Raw \<Rightarrow> stored_text fmt bs = takeWhile (\<lambda>c. c \<noteq> CHR 0x00) bs"
  proof (cases fmt)
    case Hex
    have "hex_decode (stored_text Hex bs) = Some bs"
      by (simp add: stored_text_def c_str_hex_encode hex_decode_def hex_pairs_encoded encoded_length)
    then have "transmit bv' call' Hex nb' var' (stored_text Hex bs) = transmit bv' call' Raw nb' var' bs"
      for bv' and call' :: "string \<Rightarrow> ('v, nat) syscall" by (simp add: transmit_def fun_eq_iff)
    then show ?thesis using Hex by simp
  qed (simp add: stored_text_def c_str_take)
  ultimately show ?thesis using l bs by blast
qed

lemma received_text_resent_witness:
  "\<exists>w'. receive pipe_vars (pipe_read 7 10) 11 False False Hex (Some ''v'')
       \<lparr>pipe_bytes = [CHR 0x00, CHR 0xFF], interrupts = 1, pipe_flags = 0, variables = []\<rparr> = Some (Val (Ok (), w')) \<and>
     (\<exists>bs. variables w' = [(''v'', stored_text Hex bs)] \<and>
       transmit pipe_vars (pipe_write 7) Hex False None (stored_text Hex bs) = transmit pipe_vars (pipe_write 7) Raw False None bs)"
proof -
  let ?w = "\<lparr>pipe_bytes = [CHR 0x00, CHR 0xFF], interrupts = 1, pipe_flags = 0, variables = []\<rparr>"
  have l: "read_loop (pipe_read 7 10) False False ?w = Some (Ok [CHR 0x00, CHR 0xFF], ?w\<lparr>pipe_bytes := [], interrupts := 0\<rparr>)"
    by (simp add: read_loop.simps pipe_read_def)
  then obtain w' where w': "receive pipe_vars (pipe_read 7 10) 11 False False Hex (Some ''v'') ?w = Some (Val (Ok (), w'))"
      "variables w' = [(''v'', stored_text Hex [CHR 0x00, CHR 0xFF])]"
    by (simp add: receive_def pipe_set)
  obtain bs w1 where "read_loop (pipe_read 7 10) False False ?w = Some (Ok bs, w1)"
      "transmit pipe_vars (pipe_write 7) Hex False None (stored_text Hex bs) = transmit pipe_vars (pipe_write 7) Raw False None bs"
    using received_text_resent[OF w'(1), where nb' = False and var' = None] by auto
  then show ?thesis using w' l by auto
qed

end
