(* ===== verification/Vardb.thy ===== *)
theory Vardb
  imports Sync
begin

text \<open>
  \<open>l_builtin/src/vardb.rs\<close>: the database of shared variables and its backings, a
  file or POSIX shared-memory object under \<open>flock\<close>, an anonymous file and an
  anonymous fixed-size mapping under a process-shared rwlock; with
  \<open>ensure_high_fd\<close> of \<open>l_builtin/src/shared.rs\<close>. A hash map is an association list
  in the order of its iteration. The system calls and the serialization library
  are parameters over the state \<open>'w\<close> of the system; an operation that does not
  return is \<open>None\<close>, a failing one an error, whose text is not modelled.
\<close>

section \<open>Operations that can fail\<close>

datatype io_error = Io_failed | Bad_data | Out_of_memory | Invalid_input

type_synonym ('w, 'a) io = "'w \<Rightarrow> (('a, io_error) result \<times> 'w) option"

definition ret :: "'a \<Rightarrow> ('w, 'a) io" where
  "ret x w = Some (Ok x, w)"

definition fails :: "io_error \<Rightarrow> ('w, 'a) io" where
  "fails e w = Some (Err e, w)"

definition thenM :: "('w, 'a) io \<Rightarrow> ('a \<Rightarrow> ('w, 'b) io) \<Rightarrow> ('w, 'b) io" where
  "thenM m f w =
     (case m w of None \<Rightarrow> None | Some (Err e, w) \<Rightarrow> Some (Err e, w) | Some (Ok x, w) \<Rightarrow> f x w)"

text \<open>A system call that succeeds or not.\<close>

definition call :: "('w \<Rightarrow> bool \<times> 'w) \<Rightarrow> ('w, unit) io" where
  "call c w = (case c w of (ok, w) \<Rightarrow> Some (if ok then Ok () else Err Io_failed, w))"

section \<open>The database\<close>

datatype var_data = Array_data "(int \<times> string) list" | Assoc_data "(string \<times> string) list"

definition var_default :: var_data where
  "var_default = Array_data []"

fun insert_index :: "int \<Rightarrow> string \<Rightarrow> var_data \<Rightarrow> var_data" where
  "insert_index i v (Array_data m) = Array_data (AList.update i v m)"
| "insert_index i v (Assoc_data m) = Array_data (AList.update i v [])"

fun insert_key :: "string \<Rightarrow> string \<Rightarrow> var_data \<Rightarrow> var_data" where
  "insert_key k v (Assoc_data m) = Assoc_data (AList.update k v m)"
| "insert_key k v (Array_data m) = Assoc_data (AList.update k v [])"

fun as_array :: "var_data \<Rightarrow> (int \<times> string) list option" where
  "as_array (Array_data m) = Some m"
| "as_array (Assoc_data m) = None"

fun as_assoc :: "var_data \<Rightarrow> (string \<times> string) list option" where
  "as_assoc (Assoc_data m) = Some m"
| "as_assoc (Array_data m) = None"

type_synonym database = "(string \<times> var_data) list"

datatype db_path =
    File_path string
  | Shm_path string
  | Mem_path string
  | Mmap_path string "nat option"

section \<open>The system\<close>

text \<open>\<open>read_exact_at\<close> reads a number of bytes at an offset.\<close>

datatype read_result = Read string | Unexpected_eof | Read_error

datatype lock_op = Lock_sh | Lock_ex

datatype flock_result = Flock_ok | Flock_intr | Flock_error

record 'w db_ops =
  file_len :: "int \<Rightarrow> 'w \<Rightarrow> nat option"
  read_exact_at :: "int \<Rightarrow> nat \<Rightarrow> nat \<Rightarrow> 'w \<Rightarrow> read_result"
  write_all_at :: "int \<Rightarrow> string \<Rightarrow> nat \<Rightarrow> 'w \<Rightarrow> bool \<times> 'w"
  set_len :: "int \<Rightarrow> nat \<Rightarrow> 'w \<Rightarrow> bool \<times> 'w"
  sync_all :: "int \<Rightarrow> 'w \<Rightarrow> bool \<times> 'w"
  flock_call :: "int \<Rightarrow> lock_op \<Rightarrow> 'w \<Rightarrow> flock_result \<times> 'w"
  flock_unlock :: "int \<Rightarrow> 'w \<Rightarrow> 'w"
  getpid :: "'w \<Rightarrow> nat"
  create_parent :: "string \<Rightarrow> 'w \<Rightarrow> bool \<times> 'w"
  open_rw_create :: "string \<Rightarrow> 'w \<Rightarrow> int \<times> 'w"
  shm_open_create :: "string \<Rightarrow> 'w \<Rightarrow> int \<times> 'w"
  memfd_create :: "string \<Rightarrow> 'w \<Rightarrow> int \<times> 'w"
  dupfd :: "int \<Rightarrow> bool \<Rightarrow> int \<Rightarrow> 'w \<Rightarrow> int \<times> 'w"
  close_file :: "int \<Rightarrow> 'w \<Rightarrow> 'w"
  map_file_shared :: "int \<Rightarrow> nat \<Rightarrow> 'w \<Rightarrow> address option \<times> 'w"
  map_anon_shared :: "nat \<Rightarrow> 'w \<Rightarrow> address option \<times> 'w"
  rwlockattr_init :: "'w \<Rightarrow> bool \<times> 'w"
  rwlockattr_setpshared :: "'w \<Rightarrow> bool \<times> 'w"
  rwlock_init :: "address \<Rightarrow> 'w \<Rightarrow> bool \<times> 'w"
  rwlock_rdlock :: "address \<Rightarrow> 'w \<Rightarrow> bool \<times> 'w"
  rwlock_wrlock :: "address \<Rightarrow> 'w \<Rightarrow> bool \<times> 'w"
  rwlock_unlock :: "address \<Rightarrow> 'w \<Rightarrow> 'w"
  rwlock_size :: nat
  mem_at :: "address \<Rightarrow> nat \<Rightarrow> 'w \<Rightarrow> string"
  mem_put :: "address \<Rightarrow> string \<Rightarrow> 'w \<Rightarrow> 'w"
  remove_file :: "string \<Rightarrow> 'w \<Rightarrow> 'w"
  unlink_object :: "string \<Rightarrow> 'w \<Rightarrow> 'w"
  to_bytes :: "database \<Rightarrow> string option"
  from_bytes :: "string \<Rightarrow> database option"

definition L_FD_MIN :: int where "L_FD_MIN = 80"

definition ensure_high_fd :: "'w db_ops \<Rightarrow> int \<Rightarrow> bool \<Rightarrow> ('w, int) io" where
  "ensure_high_fd os fd cloexec w =
     (if fd \<ge> L_FD_MIN then Some (Ok fd, w)
      else case dupfd os fd cloexec L_FD_MIN w of
        (new_fd, w) \<Rightarrow>
          (let w = close_file os fd w
           in Some (if new_fd < 0 then Err Io_failed else Ok new_fd, w)))"

text \<open>A descriptor from a system call that returns a negative number on failure.\<close>

definition high_fd :: "'w db_ops \<Rightarrow> ('w \<Rightarrow> int \<times> 'w) \<Rightarrow> ('w, int) io" where
  "high_fd os c w = (case c w of (fd, w) \<Rightarrow> if fd < 0 then Some (Err Io_failed, w) else ensure_high_fd os fd True w)"

section \<open>Locks\<close>

partial_function (option) flock :: "'w db_ops \<Rightarrow> int \<Rightarrow> lock_op \<Rightarrow> 'w \<Rightarrow> ((unit, io_error) result \<times> 'w) option" where
  "flock os fd lop w =
     (case flock_call os fd lop w of
        (Flock_ok, w) \<Rightarrow> Some (Ok (), w)
      | (Flock_intr, w) \<Rightarrow> flock os fd lop w
      | (Flock_error, w) \<Rightarrow> Some (Err Io_failed, w))"

text \<open>A guard: the lock, the code under it, and the unlocking on every path.\<close>

definition ensuring :: "('w, 'a) io \<Rightarrow> ('w \<Rightarrow> 'w) \<Rightarrow> ('w, 'a) io" where
  "ensuring m u w = map_option (\<lambda>(r, w). (r, u w)) (m w)"

definition with_flock :: "'w db_ops \<Rightarrow> int \<Rightarrow> lock_op \<Rightarrow> ('w, 'a) io \<Rightarrow> ('w, 'a) io" where
  "with_flock os fd lop body = thenM (flock os fd lop) (\<lambda>_. ensuring body (flock_unlock os fd))"

definition with_rdlock :: "'w db_ops \<Rightarrow> address \<Rightarrow> ('w, 'a) io \<Rightarrow> ('w, 'a) io" where
  "with_rdlock os l body = thenM (call (rwlock_rdlock os l)) (\<lambda>_. ensuring body (rwlock_unlock os l))"

definition with_wrlock :: "'w db_ops \<Rightarrow> address \<Rightarrow> ('w, 'a) io \<Rightarrow> ('w, 'a) io" where
  "with_wrlock os l body = thenM (call (rwlock_wrlock os l)) (\<lambda>_. ensuring body (rwlock_unlock os l))"

definition init_pshared_rwlock :: "'w db_ops \<Rightarrow> address \<Rightarrow> ('w, unit) io" where
  "init_pshared_rwlock os l =
     thenM (call (rwlockattr_init os)) (\<lambda>_. thenM (call (rwlockattr_setpshared os)) (\<lambda>_. call (rwlock_init os l)))"

section \<open>The magic header\<close>

definition MAGIC_SIZE :: nat where "MAGIC_SIZE = 32"

definition MAGIC :: string where
  "MAGIC = ''L_builtin shm v1'' @ replicate 16 (CHR 0x00)"

definition BLOB_OFFSET_FLOCK :: nat where "BLOB_OFFSET_FLOCK = MAGIC_SIZE"

datatype magic_status = Magic_ok | Fresh | Mismatch

definition classify_magic :: "'w db_ops \<Rightarrow> int \<Rightarrow> ('w, magic_status) io" where
  "classify_magic os fd w =
     (case read_exact_at os fd MAGIC_SIZE 0 w of
        Read buf \<Rightarrow> Some (Ok (if buf = MAGIC then Magic_ok else Mismatch), w)
      | Unexpected_eof \<Rightarrow> Some (Ok Fresh, w)
      | Read_error \<Rightarrow> Some (Err Io_failed, w))"

definition init_magic_and_truncate :: "'w db_ops \<Rightarrow> int \<Rightarrow> ('w, unit) io" where
  "init_magic_and_truncate os fd =
     thenM (call (write_all_at os fd MAGIC 0)) (\<lambda>_.
     thenM (call (set_len os fd BLOB_OFFSET_FLOCK)) (\<lambda>_. call (sync_all os fd)))"

definition init_or_check_magic :: "'w db_ops \<Rightarrow> int \<Rightarrow> ('w, unit) io" where
  "init_or_check_magic os fd =
     thenM (classify_magic os fd) (\<lambda>st. case st of
         Magic_ok \<Rightarrow> ret ()
       | Fresh \<Rightarrow> init_magic_and_truncate os fd
       | Mismatch \<Rightarrow> init_magic_and_truncate os fd)"

section \<open>Reading and writing the blob\<close>

definition read_blob_at :: "'w db_ops \<Rightarrow> int \<Rightarrow> nat \<Rightarrow> ('w, string option) io" where
  "read_blob_at os fd off w =
     (case file_len os fd w of
        None \<Rightarrow> Some (Err Io_failed, w)
      | Some len \<Rightarrow>
          if len \<le> off then Some (Ok None, w)
          else case read_exact_at os fd (len - off) off w of
                 Read buf \<Rightarrow> Some (Ok (if length buf < 8 then None else Some buf), w)
               | _ \<Rightarrow> Some (Err Io_failed, w))"

definition deserialize :: "'w db_ops \<Rightarrow> string \<Rightarrow> (database, io_error) result" where
  "deserialize os bs = ok_or (from_bytes os bs) Bad_data"

definition read_blob_into :: "'w db_ops \<Rightarrow> int \<Rightarrow> nat \<Rightarrow> ('w, database) io" where
  "read_blob_into os fd off =
     thenM (read_blob_at os fd off) (\<lambda>b w. case b of
         None \<Rightarrow> Some (Ok [], w)
       | Some bs \<Rightarrow> Some (deserialize os bs, w))"

definition write_blob_at :: "'w db_ops \<Rightarrow> int \<Rightarrow> database \<Rightarrow> nat \<Rightarrow> ('w, unit) io" where
  "write_blob_at os fd repr off =
     (case to_bytes os repr of
        None \<Rightarrow> fails Bad_data
      | Some bs \<Rightarrow>
          thenM (call (set_len os fd (off + length bs))) (\<lambda>_.
          thenM (call (write_all_at os fd bs off)) (\<lambda>_. call (sync_all os fd))))"

text \<open>\<open>u64::to_ne_bytes\<close> and \<open>from_ne_bytes\<close> of a little-endian machine.\<close>

fun le_bytes :: "nat \<Rightarrow> nat \<Rightarrow> string" where
  "le_bytes 0 n = []"
| "le_bytes (Suc k) n = char_of (n mod 256) # le_bytes k (n div 256)"

fun le_value :: "string \<Rightarrow> nat" where
  "le_value [] = 0"
| "le_value (c # cs) = of_char c + 256 * le_value cs"

definition slice :: "nat \<Rightarrow> nat \<Rightarrow> 'a list \<Rightarrow> 'a list" where
  "slice a b xs = take (b - a) (drop a xs)"

definition read_blob_from_mem :: "'w db_ops \<Rightarrow> string \<Rightarrow> nat \<Rightarrow> (database, io_error) result" where
  "read_blob_from_mem os mem len_offset =
     (let data_off = len_offset + 8 in
      if length mem < data_off then Ok []
      else let avail = length mem - data_off;
               blob_len = le_value (slice len_offset (len_offset + 8) mem) in
      if blob_len = 0 \<or> avail < blob_len then Ok []
      else let blob = slice data_off (data_off + blob_len) mem in
      if length blob < 8 then Ok []
      else deserialize os blob)"

definition write_blob_to_mem :: "'w db_ops \<Rightarrow> string \<Rightarrow> database \<Rightarrow> nat \<Rightarrow> (string, io_error) result" where
  "write_blob_to_mem os mem repr len_offset =
     (case to_bytes os repr of
        None \<Rightarrow> Err Bad_data
      | Some bs \<Rightarrow>
          (let data_off = len_offset + 8; stop = data_off + length bs in
           if 2 ^ 64 \<le> stop then Err Out_of_memory
           else if stop > length mem then Err Out_of_memory
           else Ok (take len_offset mem @ le_bytes 8 (length bs) @ bs @ drop stop mem)))"

section \<open>Files and shared-memory objects\<close>

record flock_backend =
  fb_path :: db_path
  fb_file :: int
  fb_pid :: nat

definition shm_object_name :: "string \<Rightarrow> string" where
  "shm_object_name name = CHR ''/'' # name"

definition memfd_create_fd :: "'w db_ops \<Rightarrow> string \<Rightarrow> ('w, int) io" where
  "memfd_create_fd os name = high_fd os (memfd_create os name)"

definition shm_open_obj :: "'w db_ops \<Rightarrow> string \<Rightarrow> ('w, int) io" where
  "shm_open_obj os name = high_fd os (shm_open_create os (shm_object_name name))"

definition shm_unlink_obj :: "'w db_ops \<Rightarrow> string \<Rightarrow> 'w \<Rightarrow> 'w" where
  "shm_unlink_obj os name = unlink_object os (shm_object_name name)"

text \<open>Only paths of these two kinds get here; the others would panic.\<close>

definition open_flock_fd :: "'w db_ops \<Rightarrow> db_path \<Rightarrow> ('w, int) io" where
  "open_flock_fd os path =
     (case path of
        File_path p \<Rightarrow> thenM (call (create_parent os p)) (\<lambda>_. high_fd os (open_rw_create os p))
      | Shm_path n \<Rightarrow> shm_open_obj os n
      | _ \<Rightarrow> fails Invalid_input)"

text \<open>A file that is dropped by an error is closed.\<close>

definition or_close :: "'w db_ops \<Rightarrow> int \<Rightarrow> ('w, 'a) io \<Rightarrow> ('w, 'a) io" where
  "or_close os fd m w =
     (case m w of
        Some (Err e, w) \<Rightarrow> Some (Err e, close_file os fd w)
      | r \<Rightarrow> r)"

definition open_flock_fd_checked :: "'w db_ops \<Rightarrow> db_path \<Rightarrow> ('w, int) io" where
  "open_flock_fd_checked os path =
     thenM (open_flock_fd os path) (\<lambda>fd. or_close os fd (thenM (init_or_check_magic os fd) (\<lambda>_. ret fd)))"

definition flock_open :: "'w db_ops \<Rightarrow> db_path \<Rightarrow> ('w, flock_backend) io" where
  "flock_open os path =
     thenM (open_flock_fd_checked os path) (\<lambda>fd w. Some (Ok \<lparr>fb_path = path, fb_file = fd, fb_pid = getpid os w\<rparr>, w))"

text \<open>After a fork the file is opened again and the inherited descriptor closed.\<close>

definition flock_refresh :: "'w db_ops \<Rightarrow> flock_backend \<Rightarrow> ('w, flock_backend) io" where
  "flock_refresh os b w =
     (if fb_pid b \<noteq> getpid os w
      then thenM (open_flock_fd_checked os (fb_path b)) (\<lambda>fd w.
             let w = close_file os (fb_file b) w in Some (Ok (b\<lparr>fb_file := fd, fb_pid := getpid os w\<rparr>), w)) w
      else Some (Ok b, w))"

definition blob_read :: "'w db_ops \<Rightarrow> int \<Rightarrow> nat \<Rightarrow> ('w, database) io" where
  "blob_read os fd off = read_blob_into os fd off"

definition blob_update :: "'w db_ops \<Rightarrow> int \<Rightarrow> nat \<Rightarrow> (database \<Rightarrow> 'r \<times> database) \<Rightarrow> ('w, 'r) io" where
  "blob_update os fd off f =
     thenM (read_blob_into os fd off) (\<lambda>repr.
       case f repr of (r, repr) \<Rightarrow> thenM (write_blob_at os fd repr off) (\<lambda>_. ret r))"

text \<open>The operations of a backing return it too, as a refresh changes it.\<close>

type_synonym ('w, 'b, 'a) on_backing = "'b \<Rightarrow> 'w \<Rightarrow> (('a, io_error) result \<times> 'b \<times> 'w) option"

definition flock_do :: "'w db_ops \<Rightarrow> lock_op \<Rightarrow> (int \<Rightarrow> ('w, 'a) io) \<Rightarrow> ('w, flock_backend, 'a) on_backing" where
  "flock_do os lop body b w =
     (case flock_refresh os b w of
        None \<Rightarrow> None
      | Some (Err e, w) \<Rightarrow> Some (Err e, b, w)
      | Some (Ok b, w) \<Rightarrow> map_option (\<lambda>(r, w). (r, b, w)) (with_flock os (fb_file b) lop (body (fb_file b)) w))"

definition flock_read :: "'w db_ops \<Rightarrow> ('w, flock_backend, database) on_backing" where
  "flock_read os = flock_do os Lock_sh (\<lambda>fd. blob_read os fd BLOB_OFFSET_FLOCK)"

definition flock_with_write :: "'w db_ops \<Rightarrow> (database \<Rightarrow> 'r \<times> database) \<Rightarrow> ('w, flock_backend, 'r) on_backing" where
  "flock_with_write os f = flock_do os Lock_ex (\<lambda>fd. blob_update os fd BLOB_OFFSET_FLOCK f)"

section \<open>Anonymous files\<close>

record memfd_backend =
  mf_file :: int
  mf_name :: string
  mf_rwlock :: address

definition memfd_open :: "'w db_ops \<Rightarrow> string \<Rightarrow> ('w, memfd_backend) io" where
  "memfd_open os name =
     thenM (memfd_create_fd os name) (\<lambda>fd. or_close os fd (\<lambda>w.
       case file_len os fd w of
         None \<Rightarrow> Some (Err Io_failed, w)
       | Some len \<Rightarrow>
           thenM (if len < rwlock_size os then call (set_len os fd (rwlock_size os)) else ret ()) (\<lambda>_ w.
             case map_file_shared os fd (rwlock_size os) w of
               (None, w) \<Rightarrow> Some (Err Io_failed, w)
             | (Some ptr, w) \<Rightarrow>
                 thenM (init_pshared_rwlock os ptr) (\<lambda>_. ret \<lparr>mf_file = fd, mf_name = name, mf_rwlock = ptr\<rparr>) w) w))"

definition memfd_read :: "'w db_ops \<Rightarrow> ('w, memfd_backend, database) on_backing" where
  "memfd_read os b w =
     map_option (\<lambda>(r, w). (r, b, w)) (with_rdlock os (mf_rwlock b) (blob_read os (mf_file b) (rwlock_size os)) w)"

definition memfd_with_write :: "'w db_ops \<Rightarrow> (database \<Rightarrow> 'r \<times> database) \<Rightarrow> ('w, memfd_backend, 'r) on_backing" where
  "memfd_with_write os f b w =
     map_option (\<lambda>(r, w). (r, b, w)) (with_wrlock os (mf_rwlock b) (blob_update os (mf_file b) (rwlock_size os) f) w)"

section \<open>Fixed-size mappings\<close>

record mmap_backend =
  mm_ptr :: address
  mm_size :: nat
  mm_rwlock :: address
  mm_len_offset :: nat
  mm_name :: string

definition anon_mmap :: "'w db_ops \<Rightarrow> nat \<Rightarrow> ('w, address) io" where
  "anon_mmap os sz w =
     (if sz = 0 then Some (Err Invalid_input, w)
      else case map_anon_shared os sz w of (p, w) \<Rightarrow> Some (ok_or p Io_failed, w))"

definition mmap_open :: "'w db_ops \<Rightarrow> nat \<Rightarrow> string \<Rightarrow> ('w, mmap_backend) io" where
  "mmap_open os sz name =
     (if sz < rwlock_size os + 8 + 8 then fails Invalid_input
      else thenM (anon_mmap os sz) (\<lambda>ptr.
           thenM (init_pshared_rwlock os ptr) (\<lambda>_.
           ret \<lparr>mm_ptr = ptr, mm_size = sz, mm_rwlock = ptr, mm_len_offset = rwlock_size os, mm_name = name\<rparr>)))"

definition mmap_read :: "'w db_ops \<Rightarrow> ('w, mmap_backend, database) on_backing" where
  "mmap_read os b w =
     map_option (\<lambda>(r, w). (r, b, w))
       (with_rdlock os (mm_rwlock b) (\<lambda>w. Some (read_blob_from_mem os (mem_at os (mm_ptr b) (mm_size b) w) (mm_len_offset b), w)) w)"

definition mmap_update :: "'w db_ops \<Rightarrow> mmap_backend \<Rightarrow> (database \<Rightarrow> 'r \<times> database) \<Rightarrow> ('w, 'r) io" where
  "mmap_update os b f w =
     (let mem = mem_at os (mm_ptr b) (mm_size b) w in
      case read_blob_from_mem os mem (mm_len_offset b) of
        Err e \<Rightarrow> Some (Err e, w)
      | Ok repr \<Rightarrow>
     (case f repr of (r, repr) \<Rightarrow>
      case write_blob_to_mem os mem repr (mm_len_offset b) of
        Err e \<Rightarrow> Some (Err e, w)
      | Ok mem \<Rightarrow> Some (Ok r, mem_put os (mm_ptr b) mem w)))"

definition mmap_with_write :: "'w db_ops \<Rightarrow> (database \<Rightarrow> 'r \<times> database) \<Rightarrow> ('w, mmap_backend, 'r) on_backing" where
  "mmap_with_write os f b w =
     map_option (\<lambda>(r, w). (r, b, w)) (with_wrlock os (mm_rwlock b) (mmap_update os b f) w)"

section \<open>The handle\<close>

datatype locked_database = Flock flock_backend | Memfd memfd_backend | Mmap mmap_backend

definition db_read :: "'w db_ops \<Rightarrow> ('w, locked_database, database) on_backing" where
  "db_read os d w =
     (case d of
        Flock b \<Rightarrow> map_option (\<lambda>(r, b, w). (r, Flock b, w)) (flock_read os b w)
      | Memfd b \<Rightarrow> map_option (\<lambda>(r, b, w). (r, Memfd b, w)) (memfd_read os b w)
      | Mmap b \<Rightarrow> map_option (\<lambda>(r, b, w). (r, Mmap b, w)) (mmap_read os b w))"

definition db_with_write :: "'w db_ops \<Rightarrow> (database \<Rightarrow> 'r \<times> database) \<Rightarrow> ('w, locked_database, 'r) on_backing" where
  "db_with_write os f d w =
     (case d of
        Flock b \<Rightarrow> map_option (\<lambda>(r, b, w). (r, Flock b, w)) (flock_with_write os f b w)
      | Memfd b \<Rightarrow> map_option (\<lambda>(r, b, w). (r, Memfd b, w)) (memfd_with_write os f b w)
      | Mmap b \<Rightarrow> map_option (\<lambda>(r, b, w). (r, Mmap b, w)) (mmap_with_write os f b w))"

fun path_of :: "locked_database \<Rightarrow> db_path" where
  "path_of (Flock b) = fb_path b"
| "path_of (Memfd b) = Mem_path (mf_name b)"
| "path_of (Mmap b) = Mmap_path (mm_name b) None"

definition open_db_loc :: "'w db_ops \<Rightarrow> db_path \<Rightarrow> ('w, locked_database) io" where
  "open_db_loc os loc =
     (case loc of
        File_path p \<Rightarrow> thenM (call (create_parent os p)) (\<lambda>_. thenM (flock_open os loc) (\<lambda>b. ret (Flock b)))
      | Shm_path n \<Rightarrow> thenM (flock_open os loc) (\<lambda>b. ret (Flock b))
      | Mem_path n \<Rightarrow> thenM (memfd_open os n) (\<lambda>b. ret (Memfd b))
      | Mmap_path n None \<Rightarrow> fails Invalid_input
      | Mmap_path n (Some sz) \<Rightarrow> thenM (mmap_open os sz n) (\<lambda>b. ret (Mmap b)))"

end
