(* ===== verification/Backings.thy ===== *)
theory Backings
  imports Vardb
begin

text \<open>
  What the backings of \<open>l_builtin/src/vardb.rs\<close> promise: the interface of a backing
  (\<open>db_backend\<close>), what the system promises to the code (\<open>file_system\<close>), the three
  backings and the handle over them as instances of the interface, and a system
  of byte-string files on which the laws hold.
\<close>

section \<open>The interface of a backing\<close>

text \<open>\<open>contents\<close> is the database a backing holds, \<open>good\<close> says that the backing is
  open in this process. A successful read gives the contents and a successful
  write changes them by the function it was given.\<close>

locale db_backend =
  fixes reads :: "('w, 'b, database) on_backing"
    and updates :: "(database \<Rightarrow> unit \<times> database) \<Rightarrow> ('w, 'b, unit) on_backing"
    and contents :: "'b \<Rightarrow> 'w \<Rightarrow> database option"
    and good :: "'b \<Rightarrow> 'w \<Rightarrow> bool"
  assumes reads_contents: "good b w \<Longrightarrow> reads b w = Some (Ok d, b', w') \<Longrightarrow>
      contents b w = Some d \<and> contents b' w' = Some d \<and> good b' w'"
    and updates_contents: "good b w \<Longrightarrow> updates f b w = Some (Ok u, b', w') \<Longrightarrow>
      (\<exists>d. contents b w = Some d \<and> contents b' w' = Some (snd (f d))) \<and> good b' w'"
begin

fun update_all :: "(database \<Rightarrow> unit \<times> database) list \<Rightarrow> ('w, 'b, unit) on_backing" where
  "update_all [] b w = Some (Ok (), b, w)"
| "update_all (f # fs) b w =
     (case updates f b w of
        Some (Ok _, b, w) \<Rightarrow> update_all fs b w
      | r \<Rightarrow> r)"

lemma update_all_contents:
  "good b w \<Longrightarrow> contents b w = Some d \<Longrightarrow> update_all fs b w = Some (Ok u, b', w') \<Longrightarrow>
     contents b' w' = Some (fold (\<lambda>f. snd \<circ> f) fs d) \<and> good b' w'"
proof (induction fs arbitrary: b w d)
  case (Cons f fs)
  obtain u1 b1 w1 where u: "updates f b w = Some (Ok u1, b1, w1)" "update_all fs b1 w1 = Some (Ok u, b', w')"
    using Cons.prems(3) by (auto split: option.splits result.splits prod.splits)
  have "contents b1 w1 = Some (snd (f d))" "good b1 w1"
    using updates_contents[OF Cons.prems(1) u(1)] Cons.prems(2) by auto
  from Cons.IH[OF this(2,1) u(2)] show ?case by simp
qed simp

lemma read_after_updates:
  "good b w \<Longrightarrow> contents b w = Some d0 \<Longrightarrow> update_all fs b w = Some (Ok u, b1, w1) \<Longrightarrow>
     reads b1 w1 = Some (Ok d, b2, w2) \<Longrightarrow> d = fold (\<lambda>f. snd \<circ> f) fs d0"
  using update_all_contents[of b w d0 fs u b1 w1] reads_contents[of b1 w1 d b2 w2] by auto

end

section \<open>What the system promises\<close>

text \<open>A file is a byte string: reading, writing and resizing are those of byte
  strings, and what is not written is kept. Locks do not change what they guard;
  an rwlock lives in the first bytes of its region or file, and locking may
  change those. The library reads back what it wrote, in eight bytes or more.\<close>

definition calm :: "('w \<Rightarrow> int \<Rightarrow> string option) \<Rightarrow> 'w db_ops \<Rightarrow> 'w \<Rightarrow> 'w \<Rightarrow> bool" where
  "calm fc os w w' \<longleftrightarrow> getpid os w' = getpid os w \<and> (\<forall>fd. fc w' fd = fc w fd)"

definition lock_calm :: "('w \<Rightarrow> int \<Rightarrow> string option) \<Rightarrow> 'w db_ops \<Rightarrow> 'w \<Rightarrow> 'w \<Rightarrow> bool" where
  "lock_calm fc os w w' \<longleftrightarrow> getpid os w' = getpid os w \<and>
     (\<forall>fd. map_option (drop (rwlock_size os)) (fc w' fd) = map_option (drop (rwlock_size os)) (fc w fd)) \<and>
     (\<forall>fd. map_option length (fc w' fd) = map_option length (fc w fd)) \<and>
     (\<forall>p n. drop (rwlock_size os) (mem_at os p n w') = drop (rwlock_size os) (mem_at os p n w))"

locale file_system =
  fixes os :: "'w db_ops" and fc :: "'w \<Rightarrow> int \<Rightarrow> string option"
  assumes len: "file_len os fd w = map_option length (fc w fd)"
    and readat: "fc w fd = Some c \<Longrightarrow>
      read_exact_at os fd n off w = (if off + n \<le> length c then Read (take n (drop off c)) else Unexpected_eof)"
    and setlen: "set_len os fd n w = (True, w') \<Longrightarrow> fc w fd = Some c \<Longrightarrow>
      fc w' fd = Some (take n c @ replicate (n - length c) (CHR 0x00)) \<and> getpid os w' = getpid os w"
    and writeat: "write_all_at os fd bs off w = (True, w') \<Longrightarrow> fc w fd = Some c \<Longrightarrow>
      fc w' fd = Some (take off (c @ replicate (off - length c) (CHR 0x00)) @ bs @ drop (off + length bs) c) \<and> getpid os w' = getpid os w"
    and sync: "sync_all os fd w = (x, w') \<Longrightarrow> calm fc os w w'"
    and flocks: "flock_call os fd lop w = (r, w') \<Longrightarrow> calm fc os w w'"
    and funlock: "calm fc os w (flock_unlock os fd w)"
    and rdlock: "rwlock_rdlock os l w = (x, w') \<Longrightarrow> lock_calm fc os w w'"
    and wrlock: "rwlock_wrlock os l w = (x, w') \<Longrightarrow> lock_calm fc os w w'"
    and rwunlock: "lock_calm fc os w (rwlock_unlock os l w)"
    and memlen: "length (mem_at os p n w) = n"
    and memput: "length m = n \<Longrightarrow> mem_at os p n (mem_put os p m w) = m"
    and codec: "to_bytes os repr = Some bs \<Longrightarrow> from_bytes os bs = Some repr \<and> 8 \<le> length bs"
begin

definition blob_db :: "string \<Rightarrow> database option" where
  "blob_db bs = (if length bs < 8 then Some [] else from_bytes os bs)"

definition file_db :: "int \<Rightarrow> nat \<Rightarrow> 'w \<Rightarrow> database option" where
  "file_db fd off w = (case fc w fd of None \<Rightarrow> None | Some c \<Rightarrow> blob_db (drop off c))"

definition open_at :: "int \<Rightarrow> nat \<Rightarrow> 'w \<Rightarrow> bool" where
  "open_at fd off w \<longleftrightarrow> (\<exists>c. fc w fd = Some c \<and> off \<le> length c)"

lemma blob_db_bytes: "to_bytes os repr = Some bs \<Longrightarrow> blob_db bs = Some repr"
  using codec[of repr bs] by (auto simp: blob_db_def)

lemma read_blob_into_eq:
  assumes "open_at fd off w" "read_blob_into os fd off w = Some (r, w')"
  shows "w' = w \<and> (\<forall>d. r = Ok d \<longrightarrow> file_db fd off w = Some d)"
proof -
  obtain c where c: "fc w fd = Some c" "off \<le> length c" using assms(1) by (auto simp: open_at_def)
  have "drop off c = take (length c - off) (drop off c)" by simp
  then show ?thesis
    using assms(2) c readat[OF c(1), of "length c - off" off]
    by (auto simp: read_blob_into_def thenM_def read_blob_at_def len file_db_def blob_db_def deserialize_def
        split: if_splits option.splits result.splits)
qed

lemma write_blob_at_eq:
  assumes "open_at fd off w" "write_blob_at os fd repr off w = Some (Ok u, w')"
  shows "file_db fd off w' = Some repr \<and> open_at fd off w' \<and> getpid os w' = getpid os w"
proof -
  obtain c where c: "fc w fd = Some c" "off \<le> length c" using assms(1) by (auto simp: open_at_def)
  obtain bs w1 w2 x where bs: "to_bytes os repr = Some bs"
    and w1: "set_len os fd (off + length bs) w = (True, w1)"
    and w2: "write_all_at os fd bs off w1 = (True, w2)"
    and w': "sync_all os fd w2 = (x, w')"
    using assms(2) by (auto simp: write_blob_at_def thenM_def call_def fails_def split: option.splits prod.splits if_splits)
  define c1 where "c1 = take (off + length bs) c @ replicate (off + length bs - length c) (CHR 0x00)"
  have 1: "fc w1 fd = Some c1" "getpid os w1 = getpid os w"
    using setlen[OF w1 c(1)] by (simp_all add: c1_def)
  have l1: "length c1 = off + length bs" by (simp add: c1_def)
  have 2: "fc w2 fd = Some (take off c1 @ bs)" "getpid os w2 = getpid os w1"
    using writeat[OF w2 1(1)] l1 by simp_all
  have 3: "fc w' fd = Some (take off c1 @ bs)" "getpid os w' = getpid os w"
    using sync[OF w'] 1 2 by (simp_all add: calm_def)
  then show ?thesis
    using blob_db_bytes[OF bs] l1 by (simp add: file_db_def open_at_def)
qed

lemma blob_update_eq:
  assumes "open_at fd off w" "blob_update os fd off f w = Some (Ok u, w')"
  shows "(\<exists>d. file_db fd off w = Some d \<and> file_db fd off w' = Some (snd (f d))) \<and> open_at fd off w' \<and> getpid os w' = getpid os w"
proof -
  obtain d w1 where d: "read_blob_into os fd off w = Some (Ok d, w1)"
    using assms(2) by (auto simp: blob_update_def thenM_def split: option.splits result.splits prod.splits)
  note 1 = read_blob_into_eq[OF assms(1) d]
  obtain v where "write_blob_at os fd (snd (f d)) off w = Some (Ok v, w')"
    using assms(2) d 1
    by (auto simp: blob_update_def thenM_def ret_def split: option.splits result.splits prod.splits)
  from write_blob_at_eq[OF assms(1) this] 1 show ?thesis by blast
qed

text \<open>The state of each backing, and that its operations keep it.\<close>

definition flock_good :: "flock_backend \<Rightarrow> 'w \<Rightarrow> bool" where
  "flock_good b w \<longleftrightarrow> fb_pid b = getpid os w \<and> open_at (fb_file b) BLOB_OFFSET_FLOCK w"

definition flock_db :: "flock_backend \<Rightarrow> 'w \<Rightarrow> database option" where
  "flock_db b w = file_db (fb_file b) BLOB_OFFSET_FLOCK w"

definition memfd_good :: "memfd_backend \<Rightarrow> 'w \<Rightarrow> bool" where
  "memfd_good b w \<longleftrightarrow> open_at (mf_file b) (rwlock_size os) w"

definition memfd_db :: "memfd_backend \<Rightarrow> 'w \<Rightarrow> database option" where
  "memfd_db b w = file_db (mf_file b) (rwlock_size os) w"

definition mmap_good :: "mmap_backend \<Rightarrow> 'w \<Rightarrow> bool" where
  "mmap_good b w \<longleftrightarrow> mm_len_offset b = rwlock_size os \<and> mm_size b < 2 ^ 64"

definition mmap_db :: "mmap_backend \<Rightarrow> 'w \<Rightarrow> database option" where
  "mmap_db b w = (case read_blob_from_mem os (mem_at os (mm_ptr b) (mm_size b) w) (mm_len_offset b) of Ok d \<Rightarrow> Some d | Err _ \<Rightarrow> None)"

lemma calm_file: "calm fc os w w' \<Longrightarrow> file_db fd off w' = file_db fd off w \<and> open_at fd off w' = open_at fd off w \<and> getpid os w' = getpid os w"
  by (simp add: calm_def file_db_def open_at_def)

lemma lock_calm_file:
  "lock_calm fc os w w' \<Longrightarrow> file_db fd (rwlock_size os) w' = file_db fd (rwlock_size os) w \<and>
     open_at fd (rwlock_size os) w' = open_at fd (rwlock_size os) w"
  unfolding lock_calm_def file_db_def open_at_def
  by (cases "fc w fd"; cases "fc w' fd") (force dest: spec[of _ fd])+

lemma flock_calm:
  assumes "flock os fd lop w = Some (r, w')"
  shows "calm fc os w w'"
proof -
  let ?P = "\<lambda>os' fd (lop :: lock_op) w y. os' = os \<longrightarrow> calm fc os w (snd y)"
  have "?P os fd lop w (r, w')"
  proof (rule flock.raw_induct[where P = ?P, OF _ assms])
    fix fl os' fd' lop' w1 y
    assume IH: "\<And>os' fd lop w y. fl os' fd lop w = Some y \<Longrightarrow> ?P os' fd lop w y"
      and eq: "(case flock_call os' fd' lop' w1 of (Flock_ok, w) \<Rightarrow> Some (Ok (), w)
         | (Flock_intr, w) \<Rightarrow> fl os' fd' lop' w | (Flock_error, w) \<Rightarrow> Some (Err Io_failed, w)) = Some y"
    show "?P os' fd' lop' w1 y"
    proof
      assume os: "os' = os"
      obtain res w2 where c: "flock_call os fd' lop' w1 = (res, w2)" by fastforce
      note 1 = flocks[OF c]
      show "calm fc os w1 (snd y)"
      proof (cases res)
        case Flock_intr
        then have "fl os fd' lop' w2 = Some y" using eq c os by simp
        then have "calm fc os w2 (snd y)" using IH by blast
        then show ?thesis using 1 by (simp add: calm_def)
      qed (use eq c os 1 in auto)
    qed
  qed
  then show ?thesis by simp
qed

lemma with_flock_eq:
  assumes "with_flock os fd lop body w = Some (Ok x, w')"
  obtains w1 w2 where "calm fc os w w1" "body w1 = Some (Ok x, w2)" "calm fc os w2 w'"
proof -
  obtain w1 w2 where "flock os fd lop w = Some (Ok (), w1)" "body w1 = Some (Ok x, w2)" "w' = flock_unlock os fd w2"
    using assms by (auto simp: with_flock_def thenM_def ensuring_def split: option.splits result.splits)
  then show ?thesis using that flock_calm funlock by metis
qed

lemma with_rd_eq:
  assumes "with_rdlock os l body w = Some (Ok x, w')"
  obtains w1 w2 where "lock_calm fc os w w1" "body w1 = Some (Ok x, w2)" "lock_calm fc os w2 w'"
proof -
  obtain ok w1 where c: "rwlock_rdlock os l w = (ok, w1)" by fastforce
  have ok using assms c by (cases ok) (auto simp: with_rdlock_def thenM_def call_def)
  then have "ensuring body (rwlock_unlock os l) w1 = Some (Ok x, w')"
    using assms c by (simp add: with_rdlock_def thenM_def call_def)
  then obtain w2 where "body w1 = Some (Ok x, w2)" "w' = rwlock_unlock os l w2" by (auto simp: ensuring_def)
  then show ?thesis using that rdlock[OF c] rwunlock by metis
qed

lemma with_wr_eq:
  assumes "with_wrlock os l body w = Some (Ok x, w')"
  obtains w1 w2 where "lock_calm fc os w w1" "body w1 = Some (Ok x, w2)" "lock_calm fc os w2 w'"
proof -
  obtain ok w1 where c: "rwlock_wrlock os l w = (ok, w1)" by fastforce
  have ok using assms c by (cases ok) (auto simp: with_wrlock_def thenM_def call_def)
  then have "ensuring body (rwlock_unlock os l) w1 = Some (Ok x, w')"
    using assms c by (simp add: with_wrlock_def thenM_def call_def)
  then obtain w2 where "body w1 = Some (Ok x, w2)" "w' = rwlock_unlock os l w2" by (auto simp: ensuring_def)
  then show ?thesis using that wrlock[OF c] rwunlock by metis
qed

lemma flock_do_eq:
  assumes "flock_good b w" "flock_do os lop body b w = Some (Ok x, b', w')"
  obtains w1 w2 where "b' = b" "calm fc os w w1" "body (fb_file b) w1 = Some (Ok x, w2)" "calm fc os w2 w'"
proof -
  have "b' = b" "with_flock os (fb_file b) lop (body (fb_file b)) w = Some (Ok x, w')"
    using assms by (auto simp: flock_do_def flock_refresh_def flock_good_def)
  then show ?thesis using that with_flock_eq by metis
qed

sublocale flocked: db_backend "flock_read os" "flock_with_write os" flock_db flock_good
proof
  fix b w d b' w' assume good: "flock_good b w" and r: "flock_read os b w = Some (Ok d, b', w')"
  obtain w1 w2 where 1: "b' = b" "calm fc os w w1" "blob_read os (fb_file b) BLOB_OFFSET_FLOCK w1 = Some (Ok d, w2)" "calm fc os w2 w'"
    using flock_do_eq[OF good r[unfolded flock_read_def]] by metis
  have "open_at (fb_file b) BLOB_OFFSET_FLOCK w1" using calm_file[OF 1(2)] good by (simp add: flock_good_def)
  from read_blob_into_eq[OF this 1(3)[unfolded blob_read_def]]
  show "flock_db b w = Some d \<and> flock_db b' w' = Some d \<and> flock_good b' w'"
    using calm_file[OF 1(2)] calm_file[OF 1(4)] good by (simp add: flock_db_def flock_good_def 1(1))
next
  fix b w f u b' w' assume good: "flock_good b w" and r: "flock_with_write os f b w = Some (Ok u, b', w')"
  obtain w1 w2 where 1: "b' = b" "calm fc os w w1" "blob_update os (fb_file b) BLOB_OFFSET_FLOCK f w1 = Some (Ok u, w2)" "calm fc os w2 w'"
    using flock_do_eq[OF good r[unfolded flock_with_write_def]] by metis
  have "open_at (fb_file b) BLOB_OFFSET_FLOCK w1" using calm_file[OF 1(2)] good by (simp add: flock_good_def)
  from blob_update_eq[OF this 1(3)]
  show "(\<exists>d. flock_db b w = Some d \<and> flock_db b' w' = Some (snd (f d))) \<and> flock_good b' w'"
    using calm_file[OF 1(2)] calm_file[OF 1(4)] good by (simp add: flock_db_def flock_good_def 1(1))
qed

sublocale memfds: db_backend "memfd_read os" "memfd_with_write os" memfd_db memfd_good
proof
  fix b w d b' w' assume good: "memfd_good b w" and r: "memfd_read os b w = Some (Ok d, b', w')"
  obtain w1 w2 where 1: "b' = b" "lock_calm fc os w w1" "blob_read os (mf_file b) (rwlock_size os) w1 = Some (Ok d, w2)" "lock_calm fc os w2 w'"
  proof -
    have l: "with_rdlock os (mf_rwlock b) (blob_read os (mf_file b) (rwlock_size os)) w = Some (Ok d, w')" and "b' = b"
      using r by (auto simp: memfd_read_def)
    then show ?thesis using that with_rd_eq[OF l] by metis
  qed
  have "open_at (mf_file b) (rwlock_size os) w1" using lock_calm_file[OF 1(2)] good by (simp add: memfd_good_def)
  from read_blob_into_eq[OF this 1(3)[unfolded blob_read_def]]
  show "memfd_db b w = Some d \<and> memfd_db b' w' = Some d \<and> memfd_good b' w'"
    using lock_calm_file[OF 1(2)] lock_calm_file[OF 1(4)] good by (simp add: memfd_db_def memfd_good_def 1(1))
next
  fix b w f u b' w' assume good: "memfd_good b w" and r: "memfd_with_write os f b w = Some (Ok u, b', w')"
  obtain w1 w2 where 1: "b' = b" "lock_calm fc os w w1" "blob_update os (mf_file b) (rwlock_size os) f w1 = Some (Ok u, w2)" "lock_calm fc os w2 w'"
  proof -
    have l: "with_wrlock os (mf_rwlock b) (blob_update os (mf_file b) (rwlock_size os) f) w = Some (Ok u, w')" and "b' = b"
      using r by (auto simp: memfd_with_write_def)
    then show ?thesis using that with_wr_eq[OF l] by metis
  qed
  have "open_at (mf_file b) (rwlock_size os) w1" using lock_calm_file[OF 1(2)] good by (simp add: memfd_good_def)
  from blob_update_eq[OF this 1(3)]
  show "(\<exists>d. memfd_db b w = Some d \<and> memfd_db b' w' = Some (snd (f d))) \<and> memfd_good b' w'"
    using lock_calm_file[OF 1(2)] lock_calm_file[OF 1(4)] good by (simp add: memfd_db_def memfd_good_def 1(1))
qed

end

section \<open>A blob in a region of memory\<close>

lemma length_le_bytes [simp]: "length (le_bytes k n) = k"
  by (induction k n rule: le_bytes.induct) simp_all

lemma le_value_le_bytes: "n < 256 ^ k \<Longrightarrow> le_value (le_bytes k n) = n"
proof (induction k n rule: le_bytes.induct)
  case (2 k n)
  then have "le_value (le_bytes k (n div 256)) = n div 256" by (simp add: less_mult_imp_div_less)
  then show ?case by (simp add: of_char_of)
qed simp

lemma slice_append:
  "length xs = a \<Longrightarrow> length ys = b - a \<Longrightarrow> slice a b (xs @ ys @ zs) = ys"
  by (simp add: slice_def)

lemma write_blob_to_mem_cases:
  assumes "to_bytes os repr = Some bs" "length mem < 2 ^ 64"
  shows "write_blob_to_mem os mem repr off =
    (if off + 8 + length bs \<le> length mem
     then Ok (take off mem @ le_bytes 8 (length bs) @ bs @ drop (off + 8 + length bs) mem) else Err Out_of_memory)"
  using assms by (auto simp: write_blob_to_mem_def Let_def)

lemma read_after_write_mem:
  assumes bs: "to_bytes os repr = Some bs" "from_bytes os bs = Some repr" "8 \<le> length bs"
    and len: "length mem < 2 ^ 64" and w: "write_blob_to_mem os mem repr off = Ok mem'"
  shows "length mem' = length mem \<and> take off mem' = take off mem \<and>
    drop (off + 8 + length bs) mem' = drop (off + 8 + length bs) mem \<and> read_blob_from_mem os mem' off = Ok repr"
proof -
  have fit: "off + 8 + length bs \<le> length mem"
    and m: "mem' = take off mem @ le_bytes 8 (length bs) @ bs @ drop (off + 8 + length bs) mem"
    using w len by (auto simp: write_blob_to_mem_cases[OF bs(1) len] split: if_splits)
  have l: "length mem' = length mem" using fit by (simp add: m)
  have "length bs < 256 ^ 8" using fit len by simp
  then have v: "le_value (slice off (off + 8) mem') = length bs"
    using fit by (simp add: m slice_append le_value_le_bytes)
  have "slice (off + 8) (off + 8 + length bs) ((take off mem @ le_bytes 8 (length bs)) @ bs @ drop (off + 8 + length bs) mem) = bs"
    using fit by (intro slice_append) simp_all
  then have b: "slice (off + 8) (off + 8 + length bs) mem' = bs" by (simp add: m)
  have "0 < length bs" "bs \<noteq> []" "\<not> length mem - (off + 8) < length bs" "\<not> length bs < 8" using bs(3) fit by auto
  then have "read_blob_from_mem os mem' off = Ok repr"
    using fit bs(2,3) by (simp add: read_blob_from_mem_def Let_def l v b deserialize_def)
  then show ?thesis using l fit by (simp add: m)
qed

text \<open>
  C5: Storing a database in a fixed-size region succeeds exactly when the length
  prefix and the serialized bytes fit; then reading gives that database back and
  the bytes before and after are untouched, otherwise the error is out of memory.
\<close>

theorem mem_blob_roundtrip:
  assumes "to_bytes os repr = Some bs" "from_bytes os bs = Some repr" "8 \<le> length bs" "length mem < 2 ^ 64"
  shows "case write_blob_to_mem os mem repr off of
      Err e \<Rightarrow> e = Out_of_memory \<and> length mem < off + 8 + length bs
    | Ok mem' \<Rightarrow> off + 8 + length bs \<le> length mem \<and> length mem' = length mem \<and> take off mem' = take off mem \<and>
        drop (off + 8 + length bs) mem' = drop (off + 8 + length bs) mem \<and> read_blob_from_mem os mem' off = Ok repr"
proof (cases "write_blob_to_mem os mem repr off")
  case (Ok mem')
  moreover from Ok have "off + 8 + length bs \<le> length mem"
    using write_blob_to_mem_cases[OF assms(1,4), of off] by (auto split: if_splits)
  ultimately show ?thesis using read_after_write_mem[OF assms Ok] by simp
next
  case (Err e)
  then show ?thesis using write_blob_to_mem_cases[OF assms(1,4), of off] by (auto split: if_splits)
qed

lemma read_blob_from_mem_tail:
  assumes "length mem = length mem'" "drop off mem = drop off mem'"
  shows "read_blob_from_mem os mem off = read_blob_from_mem os mem' off"
proof -
  have "slice a b mem = slice a b mem'" if "off \<le> a" for a b
  proof -
    have "drop a mem = drop (a - off) (drop off mem)" "drop a mem' = drop (a - off) (drop off mem')" using that by simp_all
    then show ?thesis using assms(2) by (simp add: slice_def)
  qed
  then show ?thesis using assms(1) by (simp add: read_blob_from_mem_def Let_def)
qed

context file_system
begin

lemma lock_calm_mem:
  assumes "lock_calm fc os w w'" "mm_len_offset b = rwlock_size os"
  shows "mmap_db b w' = mmap_db b w"
proof -
  have "drop (rwlock_size os) (mem_at os (mm_ptr b) (mm_size b) w') = drop (rwlock_size os) (mem_at os (mm_ptr b) (mm_size b) w)"
    using assms(1) by (simp add: lock_calm_def)
  then show ?thesis
    using read_blob_from_mem_tail[of "mem_at os (mm_ptr b) (mm_size b) w'" "mem_at os (mm_ptr b) (mm_size b) w" "rwlock_size os" os] assms(2)
    by (simp add: mmap_db_def memlen)
qed

lemma mmap_update_eq:
  assumes "mmap_good b w" "mmap_update os b f w = Some (Ok u, w')"
  shows "\<exists>d. mmap_db b w = Some d \<and> mmap_db b w' = Some (snd (f d))"
proof -
  let ?mem = "mem_at os (mm_ptr b) (mm_size b) w"
  obtain d mem' where d: "read_blob_from_mem os ?mem (mm_len_offset b) = Ok d"
    and m: "write_blob_to_mem os ?mem (snd (f d)) (mm_len_offset b) = Ok mem'" and w': "w' = mem_put os (mm_ptr b) mem' w"
    using assms(2) by (auto simp: mmap_update_def Let_def split: result.splits prod.splits)
  obtain bs where bs: "to_bytes os (snd (f d)) = Some bs" using m by (auto simp: write_blob_to_mem_def split: option.splits)
  have len: "length ?mem < 2 ^ 64" using assms(1) by (simp add: mmap_good_def memlen)
  have "length mem' = mm_size b" "read_blob_from_mem os mem' (mm_len_offset b) = Ok (snd (f d))"
    using read_after_write_mem[OF bs _ _ len m] codec[OF bs] by (simp_all add: memlen)
  then show ?thesis using d by (simp add: mmap_db_def w' memput)
qed

sublocale mmaps: db_backend "mmap_read os" "mmap_with_write os" mmap_db mmap_good
proof
  fix b w d b' w' assume good: "mmap_good b w" and r: "mmap_read os b w = Some (Ok d, b', w')"
  let ?body = "\<lambda>w. Some (read_blob_from_mem os (mem_at os (mm_ptr b) (mm_size b) w) (mm_len_offset b), w)"
  have l: "with_rdlock os (mm_rwlock b) ?body w = Some (Ok d, w')" and b: "b' = b" using r by (auto simp: mmap_read_def)
  obtain w1 w2 where 1: "lock_calm fc os w w1" "?body w1 = Some (Ok d, w2)" "lock_calm fc os w2 w'"
    using with_rd_eq[OF l] by metis
  from 1(2) have "w2 = w1" "read_blob_from_mem os (mem_at os (mm_ptr b) (mm_size b) w1) (mm_len_offset b) = Ok d" by auto
  then have "mmap_db b w1 = Some d" "w2 = w1" by (simp_all add: mmap_db_def)
  then show "mmap_db b w = Some d \<and> mmap_db b' w' = Some d \<and> mmap_good b' w'"
    using lock_calm_mem[OF 1(1), of b] lock_calm_mem[OF 1(3), of b] good by (simp add: mmap_good_def b)
next
  fix b w f u b' w' assume good: "mmap_good b w" and r: "mmap_with_write os f b w = Some (Ok u, b', w')"
  have l: "with_wrlock os (mm_rwlock b) (mmap_update os b f) w = Some (Ok u, w')" and b: "b' = b"
    using r by (auto simp: mmap_with_write_def)
  obtain w1 w2 where 1: "lock_calm fc os w w1" "mmap_update os b f w1 = Some (Ok u, w2)" "lock_calm fc os w2 w'"
    using with_wr_eq[OF l] by metis
  have "mmap_good b w1" using good by (simp add: mmap_good_def)
  from mmap_update_eq[OF this 1(2)]
  show "(\<exists>d. mmap_db b w = Some d \<and> mmap_db b' w' = Some (snd (f d))) \<and> mmap_good b' w'"
    using lock_calm_mem[OF 1(1), of b] lock_calm_mem[OF 1(3), of b] good by (simp add: mmap_good_def b)
qed

text \<open>The three together.\<close>

fun handle_db :: "locked_database \<Rightarrow> 'w \<Rightarrow> database option" where
  "handle_db (Flock b) w = flock_db b w"
| "handle_db (Memfd b) w = memfd_db b w"
| "handle_db (Mmap b) w = mmap_db b w"

fun handle_good :: "locked_database \<Rightarrow> 'w \<Rightarrow> bool" where
  "handle_good (Flock b) w = flock_good b w"
| "handle_good (Memfd b) w = memfd_good b w"
| "handle_good (Mmap b) w = mmap_good b w"

sublocale handles: db_backend "db_read os" "db_with_write os" handle_db handle_good
proof
  fix b w d b' w' assume good: "handle_good b w" and r: "db_read os b w = Some (Ok d, b', w')"
  show "handle_db b w = Some d \<and> handle_db b' w' = Some d \<and> handle_good b' w'"
  proof (cases b)
    case (Flock c)
    then obtain c' where "flock_read os c w = Some (Ok d, c', w')" "b' = Flock c'" using r by (auto simp: db_read_def)
    then show ?thesis using flocked.reads_contents[of c w d c' w'] good Flock by simp
  next
    case (Memfd c)
    then obtain c' where "memfd_read os c w = Some (Ok d, c', w')" "b' = Memfd c'" using r by (auto simp: db_read_def)
    then show ?thesis using memfds.reads_contents[of c w d c' w'] good Memfd by simp
  next
    case (Mmap c)
    then obtain c' where "mmap_read os c w = Some (Ok d, c', w')" "b' = Mmap c'" using r by (auto simp: db_read_def)
    then show ?thesis using mmaps.reads_contents[of c w d c' w'] good Mmap by simp
  qed
next
  fix b w and f :: "database \<Rightarrow> unit \<times> database" and u b' w'
  assume good: "handle_good b w" and r: "db_with_write os f b w = Some (Ok u, b', w')"
  show "(\<exists>d. handle_db b w = Some d \<and> handle_db b' w' = Some (snd (f d))) \<and> handle_good b' w'"
  proof (cases b)
    case (Flock c)
    then obtain c' where "flock_with_write os f c w = Some (Ok u, c', w')" "b' = Flock c'" using r by (auto simp: db_with_write_def)
    then show ?thesis using flocked.updates_contents[of c w f u c' w'] good Flock by simp
  next
    case (Memfd c)
    then obtain c' where "memfd_with_write os f c w = Some (Ok u, c', w')" "b' = Memfd c'" using r by (auto simp: db_with_write_def)
    then show ?thesis using memfds.updates_contents[of c w f u c' w'] good Memfd by simp
  next
    case (Mmap c)
    then obtain c' where "mmap_with_write os f c w = Some (Ok u, c', w')" "b' = Mmap c'" using r by (auto simp: db_with_write_def)
    then show ?thesis using mmaps.updates_contents[of c w f u c' w'] good Mmap by simp
  qed
qed

end

section \<open>Files as byte strings\<close>

text \<open>A system of open files and regions of memory, by descriptor and by address.
  A file that is not open, or would be larger than \<open>2 ^ 32\<close> bytes, is an error.\<close>

record disk =
  disk_pid :: nat
  disk_files :: "int \<Rightarrow> string option"
  disk_mem :: "address \<Rightarrow> string"

definition disk_pread :: "int \<Rightarrow> nat \<Rightarrow> nat \<Rightarrow> 'z disk_scheme \<Rightarrow> read_result" where
  "disk_pread fd n off w =
     (case disk_files w fd of
        None \<Rightarrow> Read_error
      | Some c \<Rightarrow> if off + n \<le> length c then Read (take n (drop off c)) else Unexpected_eof)"

definition disk_resize :: "int \<Rightarrow> nat \<Rightarrow> 'z disk_scheme \<Rightarrow> bool \<times> 'z disk_scheme" where
  "disk_resize fd n w =
     (case disk_files w fd of
        None \<Rightarrow> (False, w)
      | Some c \<Rightarrow> if 2 ^ 32 < n then (False, w)
                  else (True, w\<lparr>disk_files := (disk_files w)(fd \<mapsto> take n c @ replicate (n - length c) (CHR 0x00))\<rparr>))"

definition disk_pwrite :: "int \<Rightarrow> string \<Rightarrow> nat \<Rightarrow> 'z disk_scheme \<Rightarrow> bool \<times> 'z disk_scheme" where
  "disk_pwrite fd bs off w =
     (case disk_files w fd of
        None \<Rightarrow> (False, w)
      | Some c \<Rightarrow> if 2 ^ 32 < off + length bs then (False, w)
                  else (True, w\<lparr>disk_files := (disk_files w)(fd \<mapsto>
                         take off (c @ replicate (off - length c) (CHR 0x00)) @ bs @ drop (off + length bs) c)\<rparr>))"

definition disk_create :: "int \<Rightarrow> string \<Rightarrow> 'z disk_scheme \<Rightarrow> int \<times> 'z disk_scheme" where
  "disk_create fd name w = (fd, w\<lparr>disk_files := (disk_files w)(fd \<mapsto> (case disk_files w fd of None \<Rightarrow> [] | Some c \<Rightarrow> c))\<rparr>)"

definition disk_ops :: "(database \<Rightarrow> string option) \<Rightarrow> (string \<Rightarrow> database option) \<Rightarrow> 'z disk_scheme db_ops" where
  "disk_ops ser unser =
     \<lparr>file_len = \<lambda>fd w. map_option length (disk_files w fd), read_exact_at = disk_pread, write_all_at = disk_pwrite,
      set_len = disk_resize, sync_all = \<lambda>_. Pair True, flock_call = \<lambda>_ _. Pair Flock_ok, flock_unlock = \<lambda>_ w. w,
      getpid = disk_pid, create_parent = \<lambda>_. Pair True, open_rw_create = disk_create 90, shm_open_create = disk_create 91,
      memfd_create = disk_create 92, dupfd = \<lambda>fd _ _. Pair (fd + 80), close_file = \<lambda>_ w. w,
      map_file_shared = \<lambda>_ _. Pair (Some 4096), map_anon_shared = \<lambda>_. Pair (Some 8192),
      rwlockattr_init = Pair True, rwlockattr_setpshared = Pair True, rwlock_init = \<lambda>_. Pair True,
      rwlock_rdlock = \<lambda>_. Pair True, rwlock_wrlock = \<lambda>_. Pair True, rwlock_unlock = \<lambda>_ w. w, rwlock_size = 56,
      mem_at = \<lambda>p n w. take n (disk_mem w p @ replicate n (CHR 0x00)), mem_put = \<lambda>p m w. w\<lparr>disk_mem := (disk_mem w)(p := m)\<rparr>,
      remove_file = \<lambda>_ w. w, unlink_object = \<lambda>_ w. w, to_bytes = ser, from_bytes = unser\<rparr>"

lemma disk_simps [simp]:
  "rwlock_rdlock (disk_ops ser unser) l w = (True, w)" "rwlock_wrlock (disk_ops ser unser) l w = (True, w)"
  "rwlock_unlock (disk_ops ser unser) l w = w" "rwlock_size (disk_ops ser unser) = 56"
  "mem_at (disk_ops ser unser) p n w = take n (disk_mem w p @ replicate n (CHR 0x00))"
  "mem_put (disk_ops ser unser) p m w = w\<lparr>disk_mem := (disk_mem w)(p := m)\<rparr>"
  "to_bytes (disk_ops ser unser) = ser" "from_bytes (disk_ops ser unser) = unser"
  by (simp_all add: disk_ops_def)

lemma disk_file_system:
  assumes "\<And>repr bs. ser repr = Some bs \<Longrightarrow> unser bs = Some repr \<and> 8 \<le> length bs"
  shows "file_system (disk_ops ser unser) (disk_files :: 'z disk_scheme \<Rightarrow> int \<Rightarrow> string option)"
proof unfold_locales
  fix fd n off c and w :: "'z disk_scheme" assume "disk_files w fd = Some c"
  then show "read_exact_at (disk_ops ser unser) fd n off w = (if off + n \<le> length c then Read (take n (drop off c)) else Unexpected_eof)"
    by (simp add: disk_ops_def disk_pread_def)
next
  fix fd n c and w w' :: "'z disk_scheme" assume "set_len (disk_ops ser unser) fd n w = (True, w')" "disk_files w fd = Some c"
  then show "disk_files w' fd = Some (take n c @ replicate (n - length c) (CHR 0x00)) \<and>
      getpid (disk_ops ser unser) w' = getpid (disk_ops ser unser) w"
    by (auto simp: disk_ops_def disk_resize_def split: if_splits)
next
  fix fd bs off c and w w' :: "'z disk_scheme"
  assume "write_all_at (disk_ops ser unser) fd bs off w = (True, w')" "disk_files w fd = Some c"
  then show "disk_files w' fd = Some (take off (c @ replicate (off - length c) (CHR 0x00)) @ bs @ drop (off + length bs) c) \<and>
      getpid (disk_ops ser unser) w' = getpid (disk_ops ser unser) w"
    by (auto simp: disk_ops_def disk_pwrite_def split: if_splits)
qed (use assms in \<open>auto simp: disk_ops_def calm_def lock_calm_def\<close>)

text \<open>Two databases and their bytes.\<close>

definition demo_repr :: database where
  "demo_repr = [(''v'', Array_data [(0, ''a'')])]"

definition demo_enc :: "database \<Rightarrow> string option" where
  "demo_enc d = (if d = demo_repr then Some ''demoblob'' else if d = [] then Some ''emptydat'' else None)"

definition demo_dec :: "string \<Rightarrow> database option" where
  "demo_dec s = (if s = ''demoblob'' then Some demo_repr else if s = ''emptydat'' then Some [] else None)"

lemma demo_codec: "demo_enc repr = Some bs \<Longrightarrow> demo_dec bs = Some repr \<and> 8 \<le> length bs"
  by (auto simp: demo_enc_def demo_dec_def demo_repr_def split: if_splits)

interpretation disk: file_system "disk_ops demo_enc demo_dec" disk_files
  by (rule disk_file_system) (rule demo_codec)

section \<open>Reading back what was written\<close>

text \<open>An open handle: not inherited over a fork, its file there, its region laid out
  as on creation.\<close>

fun db_good :: "'w db_ops \<Rightarrow> ('w \<Rightarrow> int \<Rightarrow> string option) \<Rightarrow> locked_database \<Rightarrow> 'w \<Rightarrow> bool" where
  "db_good os fc (Flock b) w \<longleftrightarrow> fb_pid b = getpid os w \<and> (\<exists>c. fc w (fb_file b) = Some c \<and> MAGIC_SIZE \<le> length c)"
| "db_good os fc (Memfd b) w \<longleftrightarrow> (\<exists>c. fc w (mf_file b) = Some c \<and> rwlock_size os \<le> length c)"
| "db_good os fc (Mmap b) w \<longleftrightarrow> mm_len_offset b = rwlock_size os \<and> mm_size b < 2 ^ 64"

fun db_updates :: "'w db_ops \<Rightarrow> (database \<Rightarrow> unit \<times> database) list \<Rightarrow> ('w, locked_database, unit) on_backing" where
  "db_updates os [] b w = Some (Ok (), b, w)"
| "db_updates os (f # fs) b w =
     (case db_with_write os f b w of
        Some (Ok _, b, w) \<Rightarrow> db_updates os fs b w
      | r \<Rightarrow> r)"

context file_system
begin

lemma handle_good_eq: "handle_good b w = db_good os fc b w"
  by (cases b) (simp_all add: flock_good_def memfd_good_def mmap_good_def open_at_def BLOB_OFFSET_FLOCK_def)

lemma db_updates_eq: "db_updates os fs b w = handles.update_all fs b w"
  by (induction fs arbitrary: b w) (auto split: option.splits result.splits)

lemma handle_read_updates:
  assumes "db_good os fc b w" "db_read os b w = Some (Ok d0, b0, w0)"
    and "db_updates os fs b0 w0 = Some (Ok u, b1, w1)" "db_read os b1 w1 = Some (Ok d, b2, w2)"
  shows "d = fold (\<lambda>f. snd \<circ> f) fs d0"
  using handles.reads_contents[OF assms(1)[folded handle_good_eq] assms(2)] assms(3,4)
    handles.read_after_updates[of b0 w0 d0 fs u b1 w1 d b2 w2] by (simp add: db_updates_eq)

lemma magic_length: "length MAGIC = 32" "MAGIC_SIZE = 32" "BLOB_OFFSET_FLOCK = 32"
  by (simp_all add: MAGIC_def MAGIC_SIZE_def BLOB_OFFSET_FLOCK_def)

lemma stamp_file:
  assumes "fc w fd = Some c" "init_magic_and_truncate os fd w = Some (Ok u, w1)"
  shows "fc w1 fd = Some MAGIC"
proof -
  obtain w2 w3 x where 1: "write_all_at os fd MAGIC 0 w = (True, w2)" and 2: "set_len os fd 32 w2 = (True, w3)" and 3: "sync_all os fd w3 = (x, w1)"
    using assms(2) by (auto simp: init_magic_and_truncate_def thenM_def call_def magic_length split: prod.splits if_splits)
  have "fc w2 fd = Some (MAGIC @ drop 32 c)" using writeat[OF 1 assms(1)] by (simp add: magic_length)
  then have "fc w3 fd = Some MAGIC" using setlen[OF 2] by (simp add: magic_length)
  then show ?thesis using sync[OF 3] by (simp add: calm_def)
qed

lemma header_kept:
  assumes "fc w fd = Some c" "take 32 c = MAGIC"
  shows "init_or_check_magic os fd w = Some (Ok (), w)" "32 \<le> length c"
proof -
  have "length (take 32 c) = 32" unfolding assms(2) by (simp add: magic_length)
  then show l: "32 \<le> length c" by simp
  have "classify_magic os fd w = Some (Ok Magic_ok, w)"
    using assms(2) l readat[OF assms(1), of 32 0] by (simp add: classify_magic_def magic_length)
  then show "init_or_check_magic os fd w = Some (Ok (), w)"
    by (simp add: init_or_check_magic_def thenM_def ret_def)
qed

lemma checked_header:
  assumes "fc w fd = Some c" "init_or_check_magic os fd w = Some (Ok u, w1)"
    and "read_blob_into os fd BLOB_OFFSET_FLOCK w1 = Some (r, w2)"
  shows "if take MAGIC_SIZE c = MAGIC then fc w1 fd = Some c else fc w1 fd = Some MAGIC \<and> r = Ok []"
proof (cases "take 32 c = MAGIC")
  case True
  then show ?thesis using assms(1,2) header_kept(1)[OF assms(1)] by (simp add: magic_length)
next
  case False
  then have "classify_magic os fd w = Some (Ok (if 32 \<le> length c then Mismatch else Fresh), w)"
    using readat[OF assms(1), of 32 0] by (simp add: classify_magic_def magic_length)
  then have "init_magic_and_truncate os fd w = Some (Ok u, w1)"
    using assms(2) by (simp add: init_or_check_magic_def thenM_def split: if_splits)
  then have "fc w1 fd = Some MAGIC" using stamp_file[OF assms(1)] by blast
  then show ?thesis using assms(3) False
    by (simp add: read_blob_into_def thenM_def read_blob_at_def len magic_length)
qed

end

text \<open>A write into an empty mapping of 100 bytes and the reads around it.\<close>

definition demo_mmap :: locked_database where
  "demo_mmap = Mmap \<lparr>mm_ptr = 8192, mm_size = 100, mm_rwlock = 8192, mm_len_offset = 56, mm_name = ''m''\<rparr>"

definition demo_disk :: disk where
  "demo_disk = \<lparr>disk_pid = 7, disk_files = \<lambda>_. None, disk_mem = \<lambda>_. []\<rparr>"

lemma demo_mmap_run:
  assumes "f [] = ((), demo_repr)"
  obtains w1 where "db_read (disk_ops demo_enc demo_dec) demo_mmap demo_disk = Some (Ok [], demo_mmap, demo_disk)"
    "db_updates (disk_ops demo_enc demo_dec) [f] demo_mmap demo_disk = Some (Ok (), demo_mmap, w1)"
    "db_read (disk_ops demo_enc demo_dec) demo_mmap w1 = Some (Ok demo_repr, demo_mmap, w1)"
proof -
  let ?os = "disk_ops demo_enc demo_dec :: disk db_ops"
  have "le_value (replicate n (CHR 0x00)) = 0" for n by (induction n) simp_all
  then have r0: "read_blob_from_mem ?os (replicate 100 (CHR 0x00)) 56 = Ok []"
    by (simp add: read_blob_from_mem_def Let_def slice_def)
  have d0: "db_read ?os demo_mmap demo_disk = Some (Ok [], demo_mmap, demo_disk)"
    by (simp add: demo_mmap_def demo_disk_def db_read_def mmap_read_def with_rdlock_def thenM_def call_def ensuring_def r0)
  obtain m where m: "write_blob_to_mem ?os (replicate 100 (CHR 0x00)) demo_repr 56 = Ok m"
    using write_blob_to_mem_cases[of ?os demo_repr "''demoblob''" "replicate 100 (CHR 0x00)" 56]
    by (simp add: demo_enc_def)
  let ?w1 = "demo_disk\<lparr>disk_mem := (disk_mem demo_disk)(8192 := m)\<rparr>"
  have u: "db_updates ?os [f] demo_mmap demo_disk = Some (Ok (), demo_mmap, ?w1)"
    by (simp add: assms demo_mmap_def demo_disk_def db_with_write_def mmap_with_write_def with_wrlock_def thenM_def call_def
        ensuring_def mmap_update_def r0 m)
  have "length m = 100" "read_blob_from_mem ?os m 56 = Ok demo_repr"
    using read_after_write_mem[OF _ _ _ _ m, of "''demoblob''"] by (simp_all add: demo_enc_def demo_dec_def)
  then have "db_read ?os demo_mmap ?w1 = Some (Ok demo_repr, demo_mmap, ?w1)"
    by (simp add: demo_mmap_def demo_disk_def db_read_def mmap_read_def with_rdlock_def thenM_def call_def ensuring_def)
  with d0 u show ?thesis by (rule that)
qed

lemma demo_mmap_good: "db_good (disk_ops demo_enc demo_dec) disk_files demo_mmap demo_disk"
  by (simp add: demo_mmap_def demo_disk_def)

text \<open>
  C8: On every backing (file, POSIX shared memory, anonymous file, fixed-size
  mapping) a database is exactly what the writes make of it: when a read gave
  \<open>d0\<close> and a sequence of writes succeeded, the next read gives the functions of
  the writes applied to \<open>d0\<close> in order.
\<close>

theorem db_reads_what_was_written:
  assumes "file_system os fc" "db_good os fc db w" "db_read os db w = Some (Ok d0, db0, w0)"
    and "db_updates os fs db0 w0 = Some (Ok u, db1, w1)" "db_read os db1 w1 = Some (Ok d, db2, w2)"
  shows "d = fold (\<lambda>f. snd \<circ> f) fs d0"
  using file_system.handle_read_updates[OF assms] .

theorem db_reads_what_was_written_witness:
  "\<exists>db1 w1 db2 w2. db_updates (disk_ops demo_enc demo_dec) [\<lambda>_. ((), demo_repr)] demo_mmap demo_disk = Some (Ok (), db1, w1) \<and>
     db_read (disk_ops demo_enc demo_dec) db1 w1 = Some (Ok demo_repr, db2, w2)"
proof -
  obtain w1 where run: "db_read (disk_ops demo_enc demo_dec) demo_mmap demo_disk = Some (Ok [], demo_mmap, demo_disk)"
      "db_updates (disk_ops demo_enc demo_dec) [\<lambda>_. ((), demo_repr)] demo_mmap demo_disk = Some (Ok (), demo_mmap, w1)"
      "db_read (disk_ops demo_enc demo_dec) demo_mmap w1 = Some (Ok demo_repr, demo_mmap, w1)"
    using demo_mmap_run[of "\<lambda>_. ((), demo_repr)"] by auto
  have "demo_repr = fold (\<lambda>f. snd \<circ> f) [\<lambda>_. ((), demo_repr)] []"
    by (rule db_reads_what_was_written[OF disk.file_system_axioms demo_mmap_good run])
  then show ?thesis using run by blast
qed

text \<open>
  C10: Opening a file or shared-memory store whose first 32 bytes are not the magic
  header, or that is shorter, leaves just the header, so the next read gives the
  empty database and never what was there; a store with the header is kept as it is.
\<close>

theorem foreign_store_reinitialized:
  assumes "file_system os fc" "fc w fd = Some c" "init_or_check_magic os fd w = Some (Ok u, w1)"
    and "read_blob_into os fd BLOB_OFFSET_FLOCK w1 = Some (r, w2)"
  shows "if take MAGIC_SIZE c = MAGIC then fc w1 fd = Some c else fc w1 fd = Some MAGIC \<and> r = Ok []"
  using file_system.checked_header[OF assms] .

theorem foreign_store_reinitialized_witness:
  "\<exists>w1. init_or_check_magic (disk_ops demo_enc demo_dec) 90
       \<lparr>disk_pid = 7, disk_files = [90 \<mapsto> ''something else''], disk_mem = \<lambda>_. []\<rparr> = Some (Ok (), w1) \<and> disk_files w1 90 = Some MAGIC"
proof -
  let ?os = "disk_ops demo_enc demo_dec :: disk db_ops"
  let ?w = "\<lparr>disk_pid = 7, disk_files = [90 \<mapsto> ''something else''], disk_mem = \<lambda>_. []\<rparr> :: disk"
  have l: "length MAGIC = 32" "MAGIC_SIZE = 32" "BLOB_OFFSET_FLOCK = 32"
    by (simp_all add: MAGIC_def MAGIC_SIZE_def BLOB_OFFSET_FLOCK_def)
  let ?w1 = "\<lparr>disk_pid = 7, disk_files = [90 \<mapsto> MAGIC], disk_mem = \<lambda>_. []\<rparr> :: disk"
  have i: "init_or_check_magic ?os 90 ?w = Some (Ok (), ?w1)"
    by (simp add: init_or_check_magic_def thenM_def classify_magic_def init_magic_and_truncate_def call_def disk_ops_def
        disk_pread_def disk_pwrite_def disk_resize_def l)
  have r: "read_blob_into ?os 90 BLOB_OFFSET_FLOCK ?w1 = Some (Ok [], ?w1)"
    by (simp add: read_blob_into_def thenM_def read_blob_at_def disk_ops_def l)
  have "take MAGIC_SIZE ''something else'' \<noteq> MAGIC" by (simp add: MAGIC_SIZE_def MAGIC_def)
  then show ?thesis
    using foreign_store_reinitialized[OF disk.file_system_axioms _ i r, of "''something else''"] i by simp
qed

theorem mem_blob_roundtrip_witness:
  "\<exists>mem'. write_blob_to_mem (disk_ops demo_enc demo_dec :: disk db_ops) (replicate 80 (CHR ''x'')) demo_repr 56 = Ok mem' \<and>
     read_blob_from_mem (disk_ops demo_enc demo_dec :: disk db_ops) mem' 56 = Ok demo_repr"
proof -
  let ?os = "disk_ops demo_enc demo_dec :: disk db_ops"
  let ?m = "replicate 80 (CHR ''x'')"
  obtain mem' where "write_blob_to_mem ?os ?m demo_repr 56 = Ok mem'"
    using write_blob_to_mem_cases[of ?os demo_repr "''demoblob''" ?m 56] by (simp add: demo_enc_def)
  moreover from this have "read_blob_from_mem ?os mem' 56 = Ok demo_repr"
    using mem_blob_roundtrip[of ?os demo_repr "''demoblob''" ?m 56] by (simp add: demo_enc_def demo_dec_def)
  ultimately show ?thesis by blast
qed

end
