(* ===== verification/New_Fd.thy ===== *)
theory New_Fd
  imports Fd_Io Backings
begin

text \<open>
  Subcommands that make new descriptors and move them above the shell's own:
  \<open>l_builtin/src/eventfd.rs\<close>, \<open>memfd.rs\<close> and \<open>pipe.rs\<close>, over \<open>ensure_high_fd\<close> of
  \<open>shared.rs\<close>. System calls are parameters.
\<close>

section \<open>A descriptor into a variable\<close>

text \<open>A system call that makes a descriptor, then \<open>ensure_high_fd\<close>.\<close>

definition new_fd :: "'w db_ops \<Rightarrow> ('w, int) syscall \<Rightarrow> bool \<Rightarrow> 'w \<Rightarrow> ((int, exit_code) result \<times> 'w) option" where
  "new_fd os opener cloexec w =
     (case opener w of
        (Err _, w) \<Rightarrow> Some (Err EXECUTION_FAILURE, w)
      | (Ok fd, w) \<Rightarrow> map_option (\<lambda>(r, w). (map_err (\<lambda>_. EXECUTION_FAILURE) r, w)) (ensure_high_fd os fd cloexec w))"

definition new_fd_into ::
    "'w bash_vars \<Rightarrow> 'w db_ops \<Rightarrow> ('w, int) syscall \<Rightarrow> bool \<Rightarrow> string \<Rightarrow> 'w \<Rightarrow> (cmd_result \<times> 'w) run option" where
  "new_fd_into bv os opener cloexec var w =
     (case new_fd os opener cloexec w of
        None \<Rightarrow> None
      | Some (Err e, w) \<Rightarrow> Some (Val (Err e, w))
      | Some (Ok fd, w) \<Rightarrow> Some (bash_var_set_signed bv var (word_of_int fd :: 64 word) w))"

definition var_positional :: "'w bash_vars \<Rightarrow> 'w \<Rightarrow> string \<Rightarrow> fd_arg field" where
  "var_positional bv w n = Field n (Positional_kind (Text [])) (var_arg bv w)"

definition text_of :: "fd_arg field_value \<Rightarrow> string" where
  "text_of v = (case text_val v of Some x \<Rightarrow> x | None \<Rightarrow> [])"

record ('w, 'g) newfd_env =
  nf_getopt :: "'g getopt"
  nf_vars :: "'w bash_vars"
  nf_texts :: "string \<Rightarrow> string \<times> string"
  nf_print :: "string \<Rightarrow> 'w \<Rightarrow> 'w"
  nf_os :: "'w db_ops"
  nf_calls :: "'w fd_sys"
  sys_eventfd :: "nat \<Rightarrow> 32 word \<Rightarrow> ('w, int) syscall"
  sys_memfd :: "string \<Rightarrow> ('w, int) syscall"
  sys_pipe :: "('w, int \<times> int) syscall"
  prepare_indexed :: "string \<Rightarrow> 'w \<Rightarrow> bool \<times> 'w"
  put_element :: "string \<Rightarrow> int \<Rightarrow> string \<Rightarrow> 'w \<Rightarrow> 'w"

section \<open>eventfd\<close>

definition EFD_NONBLOCK :: "32 word" where "EFD_NONBLOCK = 2048"
definition EFD_SEMAPHORE :: "32 word" where "EFD_SEMAPHORE = 1"

definition eventfd_create_fields :: "'w bash_vars \<Rightarrow> 'w \<Rightarrow> fd_arg field list" where
  "eventfd_create_fields bv w =
     [flag_field ''nonblock'' (CHR ''n''), flag_field ''semaphore'' (CHR ''s''), flag_field ''nocloexec'' (CHR ''C''),
      var_positional bv w ''var'', Field ''initval'' (Optional_kind (Some (Nat_val 0))) (nat_arg 32)]"

definition eventfd_flags :: "bool \<Rightarrow> bool \<Rightarrow> 32 word" where
  "eventfd_flags nonblock semaphore = (if nonblock then EFD_NONBLOCK else 0) OR (if semaphore then EFD_SEMAPHORE else 0)"

definition eventfd_create_subcommand :: "('w, 'g) newfd_env \<Rightarrow> 'w handler" where
  "eventfd_create_subcommand E list s =
     (let s = cmd_enter (described (nf_texts E) ''create'') s in
      with_args (nf_getopt E) (eventfd_create_fields (nf_vars E) (world s)) list s (\<lambda>vs.
      on_shell (new_fd_into (nf_vars E) (nf_os E)
        (sys_eventfd E (nat_val (arg vs 4)) (eventfd_flags (flag_of (arg vs 0)) (flag_of (arg vs 1))))
        (\<not> flag_of (arg vs 2)) (text_of (arg vs 3))) s))"

definition eventfd_write_fields :: "fd_arg field list" where
  "eventfd_write_fields = [fd_field ''fd'', Field ''value'' (Optional_kind (Some (Nat_val 1))) (nat_arg 64)]"

definition eventfd_write :: "('w, 'g) newfd_env \<Rightarrow> int \<Rightarrow> nat \<Rightarrow> 'w \<Rightarrow> (cmd_result \<times> 'w) run option" where
  "eventfd_write E fd n w =
     (case sys_write (nf_calls E) fd (le_bytes 8 n) w of
        (Err _, w) \<Rightarrow> Some (Val (Err EXECUTION_FAILURE, w))
      | (Ok _, w) \<Rightarrow> Some (Val (Ok (), w)))"

definition eventfd_write_subcommand :: "('w, 'g) newfd_env \<Rightarrow> 'w handler" where
  "eventfd_write_subcommand E list s =
     (let s = cmd_enter (described (nf_texts E) ''write'') s in
      with_args (nf_getopt E) eventfd_write_fields list s (\<lambda>vs.
      on_shell (eventfd_write E (int_val (arg vs 0)) (nat_val (arg vs 1))) s))"

definition eventfd_read_fields :: "'w bash_vars \<Rightarrow> 'w \<Rightarrow> fd_arg field list" where
  "eventfd_read_fields bv w = [fd_field ''fd'', Field ''var'' (Optional_kind None) (var_arg bv w)]"

definition eventfd_read :: "('w, 'g) newfd_env \<Rightarrow> int \<Rightarrow> string option \<Rightarrow> 'w \<Rightarrow> (cmd_result \<times> 'w) run option" where
  "eventfd_read E fd var w =
     (case sys_read (nf_calls E) fd 8 w of
        (Err _, w) \<Rightarrow> Some (Val (Err EXECUTION_FAILURE, w))
      | (Ok buf, w) \<Rightarrow>
          if length buf \<noteq> 8 then Some (Val (Err EXECUTION_FAILURE, w))
          else case var of
            Some v \<Rightarrow> Some (bash_var_set_unsigned (nf_vars E) v (of_nat (le_value buf) :: 64 word) w)
          | None \<Rightarrow> Some (Val (Ok (), nf_print E (dec (le_value buf) @ [CHR 0x0A]) w)))"

definition eventfd_read_subcommand :: "('w, 'g) newfd_env \<Rightarrow> 'w handler" where
  "eventfd_read_subcommand E list s =
     (let s = cmd_enter (described (nf_texts E) ''read'') s in
      with_args (nf_getopt E) (eventfd_read_fields (nf_vars E) (world s)) list s (\<lambda>vs.
      on_shell (eventfd_read E (int_val (arg vs 0)) (text_val (arg vs 1))) s))"

definition eventfd_subcommands :: "('w, 'g) newfd_env \<Rightarrow> (string \<times> 'w handler) list" where
  "eventfd_subcommands E =
     [(''create'', eventfd_create_subcommand E), (''write'', eventfd_write_subcommand E), (''read'', eventfd_read_subcommand E)]"

definition eventfd_table :: "('w, 'g) newfd_env \<Rightarrow> (64 word, 'w handler) int_lookup run" where
  "eventfd_table E = int_lookup_new 3 (eventfd_subcommands E)"

definition eventfd_subcommand :: "('w, 'g) newfd_env \<Rightarrow> 'w handler" where
  "eventfd_subcommand E =
     subcommand_group (nf_getopt E) (described (nf_texts E) ''eventfd'') (\<lambda>q. bindR (eventfd_table E) (\<lambda>t. lookup t q))"

section \<open>memfd\<close>

definition memfd_fields :: "'w bash_vars \<Rightarrow> 'w \<Rightarrow> fd_arg field list" where
  "memfd_fields bv w =
     [flag_field ''nocloexec'' (CHR ''C''), var_positional bv w ''var'',
      Field ''name'' (Optional_kind (Some (Text ''L_builtin_memfd''))) text_arg]"

definition memfd_subcommand :: "('w, 'g) newfd_env \<Rightarrow> 'w handler" where
  "memfd_subcommand E list s =
     (let s = cmd_enter (described (nf_texts E) ''memfd'') s in
      with_args (nf_getopt E) (memfd_fields (nf_vars E) (world s)) list s (\<lambda>vs.
      on_shell (new_fd_into (nf_vars E) (nf_os E) (sys_memfd E (text_of (arg vs 2))) (\<not> flag_of (arg vs 0)) (text_of (arg vs 1))) s))"

section \<open>pipe\<close>

text \<open>The two descriptors of the guard, closed by its drop when not negative.\<close>

definition pipe_guard_drop :: "'w db_ops \<Rightarrow> int \<times> int \<Rightarrow> 'w \<Rightarrow> 'w" where
  "pipe_guard_drop os fds w =
     (let w = (if fst fds \<ge> 0 then close_file os (fst fds) w else w)
      in if snd fds \<ge> 0 then close_file os (snd fds) w else w)"

definition pipe_into :: "('w, 'g) newfd_env \<Rightarrow> string \<Rightarrow> 'w \<Rightarrow> (cmd_result \<times> 'w) run option" where
  "pipe_into E array_name w =
     (let os = nf_os E;
          fail = (\<lambda>fds w. Some (Val (Err EXECUTION_FAILURE, pipe_guard_drop os fds w))) in
      case sys_pipe E w of
        (Err _, w) \<Rightarrow> fail (0, 0) w
      | (Ok fds, w) \<Rightarrow>
     (case ensure_high_fd os (fst fds) True w of
        None \<Rightarrow> None
      | Some (Err _, w) \<Rightarrow> fail fds w
      | Some (Ok read_fd, w) \<Rightarrow>
     (case ensure_high_fd os (snd fds) True w of
        None \<Rightarrow> None
      | Some (Err _, w) \<Rightarrow> fail fds w
      | Some (Ok write_fd, w) \<Rightarrow>
     (case prepare_indexed E array_name w of
        (False, w) \<Rightarrow> fail (- 1, - 1) w
      | (True, w) \<Rightarrow>
          Some (Val (Ok (), pipe_guard_drop os (- 1, - 1)
            (put_element E array_name 1 (dec_int write_fd) (put_element E array_name 0 (dec_int read_fd) w))))))))"

definition pipe_subcommand :: "('w, 'g) newfd_env \<Rightarrow> 'w handler" where
  "pipe_subcommand E list s =
     (let s = cmd_enter (described (nf_texts E) ''pipe'') s in
      with_args (nf_getopt E) [var_positional (nf_vars E) (world s) ''array_name''] list s (\<lambda>vs.
      on_shell (pipe_into E (text_of (arg vs 0))) s))"

section \<open>Properties\<close>

text \<open>
  When the system cannot make a pipe, the guard still holds zeros for the two
  ends and closes descriptor 0 twice: the shell loses its standard input.
\<close>

lemma pipe_failure_closes_stdin:
  assumes "sys_pipe E w = (Err e, w1)"
  shows "pipe_into E a w = Some (Val (Err EXECUTION_FAILURE, close_file (nf_os E) 0 (close_file (nf_os E) 0 w1)))"
  using assms by (simp add: pipe_into_def pipe_guard_drop_def Let_def)

text \<open>When only the second end cannot be moved up, the two low ends, which the moves
  have closed, are closed once more.\<close>

lemma pipe_second_failure_closes_again:
  assumes "sys_pipe E w = (Ok (r, v), w1)" "0 \<le> r" "0 \<le> v" "ensure_high_fd (nf_os E) r True w1 = Some (Ok fd, w2)"
    and "ensure_high_fd (nf_os E) v True w2 = Some (Err x, w3)"
  shows "pipe_into E a w = Some (Val (Err EXECUTION_FAILURE, close_file (nf_os E) v (close_file (nf_os E) r w3)))"
  using assms by (simp add: pipe_into_def pipe_guard_drop_def Let_def)

text \<open>A machine with files and one eventfd, which cannot make pipes.\<close>

record counter_disk = disk +
  counter :: nat
  shell_vars :: "(string \<times> string) list"

definition counter_calls :: "counter_disk fd_sys" where
  "counter_calls = \<lparr>sys_read = \<lambda>fd n w. (Ok (le_bytes 8 (counter w)), w\<lparr>counter := 0\<rparr>), sys_recv = \<lambda>fd n nb w. (Err 88, w),
     sys_write = \<lambda>fd bs w. (Ok (length bs), w\<lparr>counter := counter w + le_value bs\<rparr>), sys_send = \<lambda>fd bs w. (Err 88, w),
     get_status = \<lambda>fd w. (Ok 0, w), set_status = \<lambda>fd f w. (Ok (), w)\<rparr>"

definition demo_newfd :: "(counter_disk, (char \<times> string) list) newfd_env" where
  "demo_newfd = \<lparr>nf_getopt = demo_getopt [] [],
     nf_vars = \<lparr>legal_identifier = \<lambda>_. True, var_readonly = \<lambda>_ _. False,
       bind_variable = \<lambda>v x w. (True, w\<lparr>shell_vars := AList.update v x (shell_vars w)\<rparr>)\<rparr>,
     nf_texts = \<lambda>_. ([], []), nf_print = \<lambda>_ w. w,
     nf_os = (disk_ops demo_enc demo_dec)\<lparr>close_file := \<lambda>fd w. w\<lparr>disk_files := (disk_files w)(fd := None)\<rparr>\<rparr>,
     nf_calls = counter_calls, sys_eventfd = \<lambda>_ _ w. (Ok 5, w), sys_memfd = \<lambda>_ w. (Ok 6, w), sys_pipe = \<lambda>w. (Err 24, w),
     prepare_indexed = \<lambda>_ w. (True, w), put_element = \<lambda>_ _ _ w. w\<rparr>"

lemma pipe_failure_closes_stdin_witness:
  "\<exists>w'. pipe_into demo_newfd ''p'' \<lparr>disk_pid = 7, disk_files = [0 \<mapsto> ''input'', 1 \<mapsto> []], disk_mem = \<lambda>_. [], counter = 0, shell_vars = []\<rparr>
      = Some (Val (Err EXECUTION_FAILURE, w')) \<and> disk_files w' 0 = None"
  by (rule exI, rule conjI, rule pipe_failure_closes_stdin[of _ _ 24])
    (simp add: demo_newfd_def, simp add: demo_newfd_def)

lemma set_uint_text: "bash_var_set_unsigned bv v (x :: 64 word) w = Val (bash_var_set bv v (dec (unat x)) w)"
  using unsigned_to_intstr_text[where 'a = 64, of x] by (auto simp: bash_var_set_unsigned_def)

text \<open>An eventfd is a counter that a write of eight bytes adds to and a read takes.\<close>

definition eventfd_laws :: "'w fd_sys \<Rightarrow> int \<Rightarrow> ('w \<Rightarrow> nat) \<Rightarrow> bool" where
  "eventfd_laws calls fd cnt \<longleftrightarrow>
     (\<forall>bs w. length bs = 8 \<longrightarrow> (case sys_write calls fd bs w of
        (Ok _, w') \<Rightarrow> cnt w' = cnt w + le_value bs | (Err _, w') \<Rightarrow> cnt w' = cnt w)) \<and>
     (\<forall>w. case sys_read calls fd 8 w of
        (Ok buf, w') \<Rightarrow> buf = le_bytes 8 (cnt w) \<and> cnt w' = 0 | (Err _, w') \<Rightarrow> cnt w' = cnt w)"

fun eventfd_writes :: "('w, 'g) newfd_env \<Rightarrow> int \<Rightarrow> nat list \<Rightarrow> 'w \<Rightarrow> 'w option" where
  "eventfd_writes E fd [] w = Some w"
| "eventfd_writes E fd (n # ns) w =
     (case eventfd_write E fd n w of Some (Val (Ok _, w)) \<Rightarrow> eventfd_writes E fd ns w | _ \<Rightarrow> None)"

lemma eventfd_writes_add:
  assumes "eventfd_laws (nf_calls E) fd cnt"
  shows "eventfd_writes E fd ns w = Some w1 \<Longrightarrow> cnt w + sum_list ns < 2 ^ 64 \<Longrightarrow> cnt w1 = cnt w + sum_list ns"
proof (induction ns arbitrary: w)
  case (Cons n ns)
  obtain r w2 where c: "sys_write (nf_calls E) fd (le_bytes 8 n) w = (r, w2)" by fastforce
  have "le_value (le_bytes 8 n) = n" using Cons.prems(2) by (intro le_value_le_bytes) simp
  then have "r = Ok m \<Longrightarrow> cnt w2 = cnt w + n" for m
    using assms[unfolded eventfd_laws_def, THEN conjunct1, rule_format, of "le_bytes 8 n" w] by (simp add: c)
  then show ?case using Cons by (cases r) (auto simp: eventfd_write_def c)
qed simp

text \<open>
  Reading an eventfd into a variable stores in decimal what it held plus
  everything written since by \<open>eventfd write\<close>, and takes it out, as long as the sum
  fits 64 bits.
\<close>

lemma eventfd_read_sum:
  assumes "eventfd_laws (nf_calls E) fd cnt" "eventfd_writes E fd ns w = Some w1" "cnt w + sum_list ns < 2 ^ 64"
    and "eventfd_read E fd (Some v) w1 = Some (Val (Ok (), w'))"
  shows "cnt (snd (sys_read (nf_calls E) fd 8 w1)) = 0 \<and>
    bash_var_set (nf_vars E) v (dec (cnt w + sum_list ns)) (snd (sys_read (nf_calls E) fd 8 w1)) = (Ok (), w')"
proof -
  have cnt: "cnt w1 = cnt w + sum_list ns" by (rule eventfd_writes_add[OF assms(1-3)])
  obtain r w2 where c: "sys_read (nf_calls E) fd 8 w1 = (r, w2)" by fastforce
  then obtain buf where buf: "r = Ok buf" using assms(4) by (cases r) (auto simp: eventfd_read_def)
  then have b: "buf = le_bytes 8 (cnt w1)" "cnt w2 = 0"
    using assms(1)[unfolded eventfd_laws_def, THEN conjunct2, rule_format, of w1] by (simp_all add: c)
  then have v: "le_value buf = cnt w + sum_list ns" using assms(3) cnt by (simp add: le_value_le_bytes)
  have "unat (of_nat n :: 64 word) = n" if "n < 2 ^ 64" for n
    using that by (simp add: unsigned_of_nat take_bit_nat_eq_self)
  then have "unat (of_nat (le_value buf) :: 64 word) = cnt w + sum_list ns"
    using assms(3) unfolding v by blast
  then show ?thesis
    using assms(4) b by (simp add: eventfd_read_def c buf set_uint_text del: of_nat_add)
qed

lemma eventfd_read_sum_witness:
  "\<exists>w1 w'. eventfd_writes demo_newfd 5 [3, 4] \<lparr>disk_pid = 7, disk_files = \<lambda>_. None, disk_mem = \<lambda>_. [], counter = 5, shell_vars = []\<rparr> = Some w1 \<and>
     eventfd_read demo_newfd 5 (Some ''v'') w1 = Some (Val (Ok (), w')) \<and> shell_vars w' = [(''v'', ''12'')]"
proof -
  let ?w = "\<lparr>disk_pid = 7, disk_files = \<lambda>_. None, disk_mem = \<lambda>_. [], counter = 5, shell_vars = []\<rparr> :: counter_disk"
  have laws: "eventfd_laws (nf_calls demo_newfd) 5 counter"
    by (simp add: eventfd_laws_def demo_newfd_def counter_calls_def)
  let ?w1 = "\<lparr>disk_pid = 7, disk_files = \<lambda>_. None, disk_mem = \<lambda>_. [], counter = 12, shell_vars = []\<rparr> :: counter_disk"
  have "le_value (le_bytes 8 3) = 3" "le_value (le_bytes 8 4) = 4" by (simp_all add: le_value_le_bytes)
  then have w1: "eventfd_writes demo_newfd 5 [3, 4] ?w = Some ?w1"
    by (simp add: eventfd_write_def demo_newfd_def counter_calls_def)
  have set: "bash_var_set (nf_vars demo_newfd) v x w = (Ok (), w\<lparr>shell_vars := AList.update v x (shell_vars w)\<rparr>)" for v x w
    by (simp add: bash_var_set_def l_bind_variable_check_def demo_newfd_def)
  have c: "sys_read (nf_calls demo_newfd) 5 8 ?w1 = (Ok (le_bytes 8 12), ?w1\<lparr>counter := 0\<rparr>)"
    by (simp add: demo_newfd_def counter_calls_def del: le_bytes.simps)
  obtain w' where r: "eventfd_read demo_newfd 5 (Some ''v'') ?w1 = Some (Val (Ok (), w'))"
    by (simp only: eventfd_read_def c) (simp add: set_uint_text set del: le_bytes.simps)
  have "dec 12 = ''12''" by (simp add: dec_eval)
  then have "shell_vars w' = [(''v'', ''12'')]"
    using eventfd_read_sum[OF laws w1 _ r] by (auto simp: c set)
  then show ?thesis using w1 r by blast
qed

end
