(* ===== verification/Entry_Point.thy ===== *)
theory Entry_Point
  imports Dispatch New_Fd
begin

text \<open>
  \<open>l_builtin/src/entrypoint.rs\<close>: what bash calls. The entry point, the table of the
  subcommands, and the capture of a subcommand's output into a variable, which
  redirects the standard output to an anonymous file (\<open>Memfd\<close> of \<open>shared.rs\<close>) and
  back. The system calls are parameters over the world \<open>'w\<close>. The release profile
  aborts on a panic, so a panic of the captured command ends the run.
\<close>

section \<open>Capturing output\<close>

text \<open>The bytes end with a NUL, which is not looked at.\<close>

function trim_index :: "string \<Rightarrow> nat \<Rightarrow> nat" where
  "trim_index bytes i =
     (if i > 0
      then if bytes ! (i - 1) = CHR 0x0A
           then if i - 1 > 0 \<and> bytes ! (i - 2) = CHR 0x0D then trim_index bytes (i - 2)
                else trim_index bytes (i - 1)
           else i
      else i)"
  by pat_completeness auto
termination
  by (relation "measure snd") auto

declare trim_index.simps [simp del]

definition trim_trailing_newlines :: "string \<Rightarrow> string" where
  "trim_trailing_newlines bytes =
     (let orig_len = length bytes - 1; i = trim_index bytes orig_len
      in if i < orig_len then bytes[i := CHR 0x00] else bytes)"

text \<open>The standard output has two buffers, Rust's and that of C; a write gives
  whether it succeeded, a mapping the bytes of the file.\<close>

record 'w capture_ops =
  cp_os :: "'w db_ops"
  flush_rust :: "'w \<Rightarrow> 'w"
  fflush_all :: "'w \<Rightarrow> 'w"
  dup2 :: "int \<Rightarrow> int \<Rightarrow> 'w \<Rightarrow> int \<times> 'w"
  write_file :: "int \<Rightarrow> string \<Rightarrow> 'w \<Rightarrow> bool \<times> 'w"
  map_file :: "int \<Rightarrow> 'w \<Rightarrow> string option"

definition flush_stdout_buffers :: "'w capture_ops \<Rightarrow> 'w \<Rightarrow> 'w" where
  "flush_stdout_buffers cap w = fflush_all cap (flush_rust cap w)"

definition memfd_new :: "'w capture_ops \<Rightarrow> ('w, int) io" where
  "memfd_new cap = high_fd (cp_os cap) (memfd_create (cp_os cap) ''L_capture'')"

text \<open>The redirection is the copy of the old standard output.\<close>

definition redirect_new :: "'w capture_ops \<Rightarrow> int \<Rightarrow> 'w \<Rightarrow> (int, io_error) result \<times> 'w" where
  "redirect_new cap target w =
     (let w = flush_stdout_buffers cap w in
      case dupfd (cp_os cap) 1 True 256 w of (saved_fd, w) \<Rightarrow>
        if saved_fd < 0 then (Err Io_failed, w)
        else case dup2 cap target 1 w of (res, w) \<Rightarrow>
          if res < 0 then (Err Io_failed, close_file (cp_os cap) saved_fd w)
          else (Ok saved_fd, w))"

definition redirect_drop :: "'w capture_ops \<Rightarrow> int \<Rightarrow> 'w \<Rightarrow> 'w" where
  "redirect_drop cap saved w =
     close_file (cp_os cap) saved (snd (dup2 cap saved 1 (flush_stdout_buffers cap w)))"

text \<open>The NUL byte, the mapping, the assignment: what follows the redirection.\<close>

definition bind_captured ::
    "'w capture_ops \<Rightarrow> 'w bash_vars \<Rightarrow> string \<Rightarrow> bool \<Rightarrow> int \<Rightarrow> cmd_result \<Rightarrow> 'w \<Rightarrow> cmd_result \<times> 'w" where
  "bind_captured cap bv var trimnewlines memfd result w =
     (case write_file cap memfd [CHR 0x00] w of
        (False, w) \<Rightarrow> (Err EXECUTION_FAILURE, w)
      | (True, w) \<Rightarrow>
     (case map_file cap memfd w of
        None \<Rightarrow> (Err EXECUTION_FAILURE, w)
      | Some mmap \<Rightarrow>
          (let mmap = (if trimnewlines then trim_trailing_newlines mmap else mmap) in
           case bash_var_set bv var (c_str mmap) w of
             (Err e, w) \<Rightarrow> (Err e, w)
           | (Ok _, w) \<Rightarrow> (result, w))))"

text \<open>The file is closed on every path.\<close>

definition capture_into_variable ::
    "'w capture_ops \<Rightarrow> 'w bash_vars \<Rightarrow> string \<Rightarrow> bool
     \<Rightarrow> ('w shell \<Rightarrow> (cmd_result \<times> 'w shell) run option) \<Rightarrow> 'w shell \<Rightarrow> (cmd_result \<times> 'w shell) run option" where
  "capture_into_variable cap bv var trimnewlines f s =
     (case memfd_new cap (world s) of
        None \<Rightarrow> None
      | Some (Err _, w) \<Rightarrow> Some (Val (Err EXECUTION_FAILURE, set_world w s))
      | Some (Ok memfd, w) \<Rightarrow>
     (case redirect_new cap memfd w of
        (Err _, w) \<Rightarrow> Some (Val (Err EXECUTION_FAILURE, set_world (close_file (cp_os cap) memfd w) s))
      | (Ok saved, w) \<Rightarrow>
     (case f (set_world w s) of
        None \<Rightarrow> None
      | Some Panic \<Rightarrow> Some Panic
      | Some (Val (result, s)) \<Rightarrow>
     (case bind_captured cap bv var trimnewlines memfd result (redirect_drop cap saved (world s)) of
        (res, w) \<Rightarrow> Some (Val (res, set_world (close_file (cp_os cap) memfd w) s))))))"

section \<open>The entry point\<close>

text \<open>\<open>SUBCOMMAND_ENTRIES\<close> of a release build for bash 4.3 or later without
  \<open>ppoll\<close>.\<close>

definition subcommand_names :: "string list" where
  "subcommand_names =
     [''listen'', ''accept'', ''connect'', ''send'', ''recv'', ''shutdown'',
      ''pipe'', ''eventfd'', ''memfd'', ''timerfd'', ''signalfd'', ''splice'', ''lseek'',
      ''read'', ''write'', ''fcntl'', ''flock'', ''close'', ''epoll'', ''poll'',
      ''sig'',
      ''barrier'', ''mutex'', ''semaphore'', ''shm'',
      ''replace'', ''sedvar'',
      ''sleep'', ''core'', ''lua'', ''ext'', ''run'', ''version'']"

definition subcommand_entries :: "(string \<Rightarrow> 'h) \<Rightarrow> (string \<times> 'h) list" where
  "subcommand_entries handlers = map (\<lambda>n. (n, handlers n)) subcommand_names"

definition subcommand_table :: "(string \<Rightarrow> 'h) \<Rightarrow> (128 word, 'h) int_lookup run" where
  "subcommand_table handlers = int_lookup_new (length subcommand_names) (subcommand_entries handlers)"

definition entrypoint_fields :: "'w bash_vars \<Rightarrow> 'w \<Rightarrow> string field list" where
  "entrypoint_fields bv w = [Field ''var'' (Opt_kind (CHR ''v'') None) (bash_var_validate bv w),
                             Field ''rest'' Rest_view_kind bytes_from_cpnt]"

fun entrypoint_args :: "string field_value list \<Rightarrow> string option \<times> word_list" where
  "entrypoint_args [Value var, Words rest] = (Some var, rest)"
| "entrypoint_args [Absent, Words rest] = (None, rest)"
| "entrypoint_args _ = (None, [])"

definition entrypoint ::
    "'g getopt \<Rightarrow> 'w bash_vars \<Rightarrow> 'w capture_ops \<Rightarrow> string \<Rightarrow> string
     \<Rightarrow> (128 word, 'w handler) int_lookup \<Rightarrow> 'w handler" where
  "entrypoint ops bv cap sdoc ldoc table list s =
     (let s = l_enter_subcommand None sdoc ldoc s in
      with_args ops (entrypoint_fields bv (world s)) list s (\<lambda>vs.
      case words_next (snd (entrypoint_args vs)) of
        (None, _) \<Rightarrow> Some (Val (Err EX_USAGE, s))
      | (Some first, list) \<Rightarrow>
     (case lookup table first of
        Panic \<Rightarrow> Some Panic
      | Val None \<Rightarrow> Some (Val (Err EX_USAGE, s))
      | Val (Some subcommand) \<Rightarrow>
          (let guard = guard_new s in
           map_option (\<lambda>r. bindR r (\<lambda>(res, s'). Val (res, guard_drop guard s')))
             (case fst (entrypoint_args vs) of
                Some var \<Rightarrow> capture_into_variable cap bv var True (subcommand list) s
              | None \<Rightarrow> subcommand list s)))))"

text \<open>\<open>extract_first\<close> and the usage text.\<close>

definition extract_first :: "(string \<times> 'h) list \<Rightarrow> string list" where
  "extract_first a = fold (\<lambda>i names. names[i := fst (a ! i)]) [0..<length a] (replicate (length a) [])"

definition usage_lines :: "string \<Rightarrow> string list" where
  "usage_lines cmd_name =
     [cmd_name @ '': usage: '' @ cmd_name @ '' [-v VAR] <subcommand> [options] [args]'', [], ''Available subcommands:'']
     @ map (\<lambda>name. ''  '' @ name) (extract_first (subcommand_entries (\<lambda>_. ())))"

text \<open>A subcommand written in C.\<close>

definition c_wrap :: "(word_list \<Rightarrow> 'w shell \<Rightarrow> int \<times> 'w shell) \<Rightarrow> 'w handler" where
  "c_wrap f list s =
     (case f list s of (rc, s) \<Rightarrow> Some (Val (if rc = 0 then Ok () else Err (Code rc), s)))"

text \<open>What bash calls, with the values of bash's exit codes.\<close>

definition l_entrypoint ::
    "'w capture_ops \<Rightarrow> (exit_code \<Rightarrow> int) \<Rightarrow> 'w handler \<Rightarrow> word_list \<Rightarrow> 'w shell \<Rightarrow> (int \<times> 'w shell) run option" where
  "l_entrypoint cap hdr entry list s =
     map_option (\<lambda>r. bindR r (\<lambda>(res, s).
         Val (cmd_result_to_cint hdr res, set_world (flush_stdout_buffers cap (world s)) s)))
       (entry list (set_world (flush_stdout_buffers cap (world s)) s))"

section \<open>Trailing newlines\<close>

text \<open>Newlines are removed from the end, each with a carriage return before it.\<close>

fun strip_rev :: "string \<Rightarrow> string" where
  "strip_rev (a # b # s) =
     (if a = CHR 0x0A then if b = CHR 0x0D then strip_rev s else strip_rev (b # s) else a # b # s)"
| "strip_rev [a] = (if a = CHR 0x0A then [] else [a])"
| "strip_rev [] = []"

definition strip_newlines :: "string \<Rightarrow> string" where
  "strip_newlines s = rev (strip_rev (rev s))"

text \<open>What \<open>$(...)\<close> gives for an output.\<close>

definition command_substitution :: "string \<Rightarrow> string" where
  "command_substitution out = rev (dropWhile (\<lambda>c. c = CHR 0x0A) (rev out))"

lemma rev_take_Suc: "0 < i \<Longrightarrow> i \<le> length xs \<Longrightarrow> rev (take i xs) = xs ! (i - 1) # rev (take (i - 1) xs)"
  by (cases i) (simp_all add: take_Suc_conv_app_nth)

lemma strip_rev_other: "a \<noteq> CHR 0x0A \<Longrightarrow> strip_rev (a # s) = a # s"
  by (cases s) simp_all

lemma trim_index_strip:
  "i \<le> length bytes \<Longrightarrow> trim_index bytes i \<le> i \<and> take (trim_index bytes i) bytes = strip_newlines (take i bytes)"
proof (induction bytes i rule: trim_index.induct)
  case (1 bytes i)
  show ?case
  proof (cases "i > 0 \<and> bytes ! (i - 1) = CHR 0x0A")
    case False
    then have "trim_index bytes i = i" by (subst trim_index.simps) auto
    moreover have "strip_newlines (take i bytes) = take i bytes"
    proof (cases "i > 0")
      case True
      then have "bytes ! (i - 1) \<noteq> CHR 0x0A" using False by blast
      then have "strip_rev (rev (take i bytes)) = rev (take i bytes)"
        unfolding rev_take_Suc[OF True "1.prems"] by (rule strip_rev_other)
      then show ?thesis by (simp add: strip_newlines_def)
    qed (simp add: strip_newlines_def)
    ultimately show ?thesis by simp
  next
    case True
    then have r: "rev (take i bytes) = CHR 0x0A # rev (take (i - 1) bytes)"
      using rev_take_Suc[of i bytes] "1.prems" by simp
    show ?thesis
    proof (cases "i - 1 > 0 \<and> bytes ! (i - 2) = CHR 0x0D")
      case cr: True
      then have "rev (take (i - 1) bytes) = CHR 0x0D # rev (take (i - 2) bytes)"
        using rev_take_Suc[of "i - 1" bytes] "1.prems" by (simp add: numeral_2_eq_2)
      then have "strip_newlines (take i bytes) = strip_newlines (take (i - 2) bytes)"
        by (simp add: strip_newlines_def r)
      moreover have "trim_index bytes i = trim_index bytes (i - 2)"
        using True cr by (subst trim_index.simps) simp
      moreover have "trim_index bytes (i - 2) \<le> i - 2 \<and> take (trim_index bytes (i - 2)) bytes = strip_newlines (take (i - 2) bytes)"
        using "1.IH"(1) True cr "1.prems" by auto
      ultimately show ?thesis by auto
    next
      case ncr: False
      have "strip_rev (rev (take i bytes)) = strip_rev (rev (take (i - 1) bytes))"
      proof (cases "i - 1 > 0")
        case pos: True
        then have "bytes ! (i - 2) \<noteq> CHR 0x0D" using ncr by blast
        then show ?thesis
          using rev_take_Suc[of "i - 1" bytes] pos "1.prems" by (simp add: r numeral_2_eq_2)
      next
        case False
        then show ?thesis by (simp add: r)
      qed
      then have "strip_newlines (take i bytes) = strip_newlines (take (i - 1) bytes)"
        by (simp add: strip_newlines_def)
      moreover have "trim_index bytes i = trim_index bytes (i - 1)"
        using True ncr by (subst trim_index.simps) auto
      moreover have "i - 1 \<le> length bytes" using "1.prems" by simp
      ultimately show ?thesis using "1.IH"(2) True ncr by fastforce
    qed
  qed
qed

lemma strip_rev_no_cr: "CHR 0x0D \<notin> set s \<Longrightarrow> strip_rev s = dropWhile (\<lambda>c. c = CHR 0x0A) s"
  by (induction s rule: strip_rev.induct) auto

lemma nul_free_take: "nul_free s \<Longrightarrow> nul_free (take n s)"
  by (auto simp: nul_free_def dest: in_set_takeD)

text \<open>
  The value captured from an output without NUL bytes is the output less its
  trailing newlines, each taken with a carriage return before it; without
  carriage returns that is what command substitution gives.
\<close>

lemma capture_strips_newlines:
  assumes "nul_free out"
  shows "c_str (trim_trailing_newlines (out @ [CHR 0x00])) = strip_newlines out
    \<and> (CHR 0x0D \<notin> set out \<longrightarrow> strip_newlines out = command_substitution out)"
proof -
  let ?i = "trim_index (out @ [CHR 0x00]) (length out)"
  have i: "?i \<le> length out" "take ?i out = strip_newlines out"
    using trim_index_strip[of "length out" "out @ [CHR 0x00]"] by auto
  have "c_str (trim_trailing_newlines (out @ [CHR 0x00])) = take ?i out"
  proof (cases "?i < length out")
    case True
    then have "(out @ [CHR 0x00])[?i := CHR 0x00] = take ?i out @ CHR 0x00 # drop (Suc ?i) out @ [CHR 0x00]"
      by (simp add: upd_conv_take_nth_drop)
    then show ?thesis using True assms by (simp add: trim_trailing_newlines_def nul_free_take Let_def)
  next
    case False
    then show ?thesis using i assms by (simp add: trim_trailing_newlines_def Let_def)
  qed
  then show ?thesis using i strip_rev_no_cr[of "rev out"] by (simp add: strip_newlines_def command_substitution_def)
qed

lemma capture_strips_newlines_witness:
  "c_str (trim_trailing_newlines (''ok'' @ [CHR 0x0D, CHR 0x0A, CHR 0x00])) = ''ok''"
  using capture_strips_newlines[of "''ok'' @ [CHR 0x0D, CHR 0x0A]"]
  by (simp add: strip_newlines_def)

section \<open>The entry point\<close>

lemma len_8_dvd_128: "8 dvd LENGTH(128)"
  by simp

lemma subcommand_table_builds: "\<exists>t es. subcommand_table handlers = Val t \<and> holds t es \<and> mset es = mset (subcommand_entries handlers)"
proof -
  have names: "map fst (subcommand_entries handlers) = subcommand_names"
    by (simp add: subcommand_entries_def comp_def)
  have "length subcommand_names = length (subcommand_entries handlers)" by (simp add: subcommand_entries_def)
  moreover have "subcommand_entries handlers \<noteq> []" by (simp add: subcommand_entries_def subcommand_names_def)
  moreover have "distinct subcommand_names" by (simp add: subcommand_names_def)
  moreover have "list_all (\<lambda>k. k \<noteq> [] \<and> length k \<le> 16) subcommand_names" by (simp add: subcommand_names_def)
  moreover have "list_ex (\<lambda>k. 9 \<le> length k) subcommand_names" by (simp add: subcommand_names_def)
  ultimately have "table_ok TYPE(128) (length subcommand_names) (subcommand_entries handlers)"
    by (simp add: table_ok_def names t_bytes_def min_required_len_def)
  moreover have "list_all nul_free (map fst (subcommand_entries handlers))"
    unfolding names by (simp add: subcommand_names_def)
  ultimately show ?thesis
    using int_lookup_new_holds[where 'a = 128, of "length subcommand_names" "subcommand_entries handlers"]
    unfolding subcommand_table_def by (metis len_8_dvd_128)
qed

lemma entrypoint_parse:
  assumes "getopt_yields ops list ''v:h'' (getopt_reset ops) [] (Some q # args)"
  shows "parse ops (entrypoint_fields bv w) list = Some (Ok [Absent, Words (Some q # args)])"
proof -
  have "optstring (entrypoint_fields bv w) = ''v:h''"
    by (simp add: optstring_def entrypoint_fields_def)
  then show ?thesis
    using parse_yields[of ops list "entrypoint_fields bv w"] assms
    by (simp add: entrypoint_fields_def new_default_def has_rest_def)
qed

lemma entrypoint_runs:
  assumes "subcommand_table handlers = Val table" "q \<noteq> []" "nul_free q"
    and "getopt_yields ops list ''v:h'' (getopt_reset ops) [] (Some q # args)"
  shows "entrypoint ops bv cap sdoc ldoc table list s =
    (let s0 = l_enter_subcommand None sdoc ldoc s in
     case prefix_lookup (subcommand_entries handlers) q of
       None \<Rightarrow> Some (Val (Err EX_USAGE, s0))
     | Some h \<Rightarrow> map_option (\<lambda>r. bindR r (\<lambda>(res, s'). Val (res, s'\<lparr>short_doc := sdoc, long_doc := ldoc\<rparr>))) (h args s0))"
proof -
  obtain es where es: "holds table es" "mset es = mset (subcommand_entries handlers)"
    using subcommand_table_builds[of handlers] assms(1) by auto
  have "lookup table q = Val (prefix_lookup es q)"
    using u128.find_prefix[OF es(1) assms(2,3)] .
  moreover have "prefix_lookup es q = prefix_lookup (subcommand_entries handlers) q"
    using prefix_lookup_mset[OF es(2) u128.entries_distinct[OF es(1)]] .
  ultimately show ?thesis
    using entrypoint_parse[OF assms(4), of bv]
    by (auto simp: entrypoint_def with_args_def Let_def words_next_def iter_current_def iter_advance_def
        l_enter_subcommand_def guard_new_def guard_drop_def split: option.splits)
qed

lemma entrypoint_empty_name:
  assumes "getopt_yields ops list ''v:h'' (getopt_reset ops) [] (Some [] # args)"
  shows "entrypoint ops bv cap sdoc ldoc table list s = Some Panic"
  using entrypoint_parse[OF assms, of bv]
  by (simp add: entrypoint_def with_args_def Let_def words_next_def iter_current_def lookup_empty l_enter_subcommand_def)

lemma entrypoint_no_word:
  assumes "getopt_yields ops list ''v:h'' (getopt_reset ops) [] []"
  shows "entrypoint ops bv cap sdoc ldoc table list s = Some (Val (Err EX_USAGE, l_enter_subcommand None sdoc ldoc s))"
proof -
  have "optstring (entrypoint_fields bv w) = ''v:h''" for w
    by (simp add: optstring_def entrypoint_fields_def)
  then have "parse ops (entrypoint_fields bv w) list = Some (Ok [Absent, Words []])" for w
    using parse_yields[of ops list "entrypoint_fields bv w"] assms
    by (simp add: entrypoint_fields_def new_default_def has_rest_def)
  then show ?thesis by (simp add: entrypoint_def with_args_def Let_def words_next_def iter_current_def)
qed

text \<open>
  C18: Without options, the first word selects the subcommand of that name or the only
  one it abbreviates, which gets the words after it; a word that names none, or
  abbreviates several, is a usage error and nothing runs, and so is no word at all;
  an empty first word panics instead.
\<close>

theorem entrypoint_dispatch:
  assumes "subcommand_table handlers = Val table" "list_all (\<lambda>w. \<exists>x. w = Some x \<and> nul_free x) words"
    and "getopt_yields ops list ''v:h'' (getopt_reset ops) [] words"
  shows "entrypoint ops bv cap sdoc ldoc table list s =
    (let s0 = l_enter_subcommand None sdoc ldoc s in
     case words of
       [] \<Rightarrow> Some (Val (Err EX_USAGE, s0))
     | q # args \<Rightarrow>
         if q = Some [] then Some Panic
         else case prefix_lookup (subcommand_entries handlers) (the q) of
           None \<Rightarrow> Some (Val (Err EX_USAGE, s0))
         | Some h \<Rightarrow> map_option (\<lambda>r. bindR r (\<lambda>(res, s'). Val (res, s'\<lparr>short_doc := sdoc, long_doc := ldoc\<rparr>))) (h args s0))"
proof (cases words)
  case Nil
  then show ?thesis using entrypoint_no_word assms(3) by simp
next
  case (Cons w args)
  then obtain q where q: "w = Some q" "nul_free q" using assms(2) by auto
  show ?thesis
  proof (cases "q = []")
    case True
    then show ?thesis using entrypoint_empty_name assms(3) Cons q(1) by simp
  next
    case False
    then show ?thesis
      using entrypoint_runs[OF assms(1) False q(2), of ops list args] assms(3) Cons q(1) by (simp add: Let_def)
  qed
qed

lemma prefix_lookup_names:
  "prefix_lookup (subcommand_entries h) ''sem'' = Some (h ''semaphore'')" "prefix_lookup (subcommand_entries h) ''s'' = None"
  by (simp_all add: prefix_lookup_def subcommand_entries_def subcommand_names_def)

theorem entrypoint_dispatch_witness:
  "\<forall>bv cap. \<exists>table. subcommand_table (\<lambda>name (list :: word_list) (s :: string shell). Some (Val (Ok () :: cmd_result, s\<lparr>world := name\<rparr>))) = Val table
     \<and> entrypoint (demo_getopt [] [Some ''sem'', Some ''x'']) bv cap [] [] table [] \<lparr>this_command = [], short_doc = [], long_doc = [], world = []\<rparr>
       = Some (Val (Ok (), \<lparr>this_command = [], short_doc = [], long_doc = [], world = ''semaphore''\<rparr>))"
proof (intro allI)
  fix bv cap
  let ?h = "\<lambda>name (list :: word_list) (s :: string shell). Some (Val (Ok () :: cmd_result, s\<lparr>world := name\<rparr>))"
  obtain t where t: "subcommand_table ?h = Val t" using subcommand_table_builds by blast
  have y: "getopt_yields (demo_getopt [] [Some ''sem'', Some ''x'']) [] ''v:h''
      (getopt_reset (demo_getopt [] [Some ''sem'', Some ''x''])) [] [Some ''sem'', Some ''x'']"
    using demo_getopt_yields[of "[]"] by (simp add: demo_getopt_def)
  show "\<exists>table. subcommand_table ?h = Val table
     \<and> entrypoint (demo_getopt [] [Some ''sem'', Some ''x'']) bv cap [] [] table [] \<lparr>this_command = [], short_doc = [], long_doc = [], world = []\<rparr>
       = Some (Val (Ok (), \<lparr>this_command = [], short_doc = [], long_doc = [], world = ''semaphore''\<rparr>))"
    using entrypoint_dispatch[OF t _ y, of bv cap] t
    by (simp add: prefix_lookup_names l_enter_subcommand_def nul_free_def)
qed

text \<open>
  C23: Whatever the words are and whatever the subcommand does with the documentation
  of the running builtin, after the entry point returns it is again that of
  L_builtin itself.
\<close>

theorem entrypoint_restores_docs:
  assumes "entrypoint ops bv cap sdoc ldoc table list s = Some (Val (res, s'))"
  shows "short_doc s' = sdoc \<and> long_doc s' = ldoc"
  using assms
  by (auto simp: entrypoint_def with_args_def Let_def l_enter_subcommand_def guard_new_def guard_drop_def bindR_eq_Val
      split: option.splits result.splits run.splits prod.splits)

theorem entrypoint_restores_docs_witness:
  "\<forall>bv cap s. \<exists>table. subcommand_table (\<lambda>name (list :: word_list) (s :: unit shell). Some (Val (Ok () :: cmd_result, s\<lparr>short_doc := ''other''\<rparr>))) = Val table
     \<and> (\<exists>s'. entrypoint (demo_getopt [] [Some ''sem'']) bv cap ''short'' ''long'' table [] s = Some (Val (Ok (), s')) \<and> short_doc s' = ''short'')"
proof (intro allI)
  fix bv cap and s :: "unit shell"
  let ?h = "\<lambda>name (list :: word_list) (s :: unit shell). Some (Val (Ok () :: cmd_result, s\<lparr>short_doc := ''other''\<rparr>))"
  obtain t where t: "subcommand_table ?h = Val t" using subcommand_table_builds by blast
  have y: "getopt_yields (demo_getopt [] [Some ''sem'']) [] ''v:h'' (getopt_reset (demo_getopt [] [Some ''sem''])) [] [Some ''sem'']"
    using demo_getopt_yields[of "[]"] by (simp add: demo_getopt_def)
  obtain s' where "entrypoint (demo_getopt [] [Some ''sem'']) bv cap ''short'' ''long'' t [] s = Some (Val (Ok (), s'))"
    using entrypoint_runs[OF t _ _ y] by (simp add: prefix_lookup_names)
  with entrypoint_restores_docs[OF this] t show "\<exists>table. subcommand_table ?h = Val table
     \<and> (\<exists>s'. entrypoint (demo_getopt [] [Some ''sem'']) bv cap ''short'' ''long'' table [] s = Some (Val (Ok (), s')) \<and> short_doc s' = ''short'')" by blast
qed

section \<open>The redirection\<close>

text \<open>What the system promises about the table of descriptors \<open>tb\<close>, which maps the
  open ones to open files: a new descriptor was closed before, a failing call
  changes nothing.\<close>

definition table_laws :: "'w capture_ops \<Rightarrow> 'w bash_vars \<Rightarrow> ('w \<Rightarrow> int \<Rightarrow> 'o option) \<Rightarrow> bool" where
  "table_laws cap bv tb \<longleftrightarrow>
     (\<forall>n w r w'. memfd_create (cp_os cap) n w = (r, w') \<longrightarrow>
        (if r < 0 then tb w' = tb w else tb w r = None \<and> (\<exists>x. tb w' = (tb w)(r \<mapsto> x)))) \<and>
     (\<forall>fd c lo w r w'. dupfd (cp_os cap) fd c lo w = (r, w') \<longrightarrow>
        (if r < 0 then tb w' = tb w else tb w r = None \<and> tb w fd \<noteq> None \<and> tb w' = (tb w)(r := tb w fd))) \<and>
     (\<forall>a w r w'. dup2 cap a 1 w = (r, w') \<longrightarrow>
        (if r < 0 then tb w' = tb w else tb w' = (tb w)(1 := tb w a))) \<and>
     (\<forall>fd w. tb (close_file (cp_os cap) fd w) = (tb w)(fd := None)) \<and>
     (\<forall>w. tb (flush_rust cap w) = tb w) \<and> (\<forall>w. tb (fflush_all cap w) = tb w) \<and>
     (\<forall>fd bs w. tb (snd (write_file cap fd bs w)) = tb w) \<and>
     (\<forall>v x w. tb (snd (bind_variable bv v x w)) = tb w)"

text \<open>A command may open descriptors, among them none outside \<open>D\<close> that was closed.\<close>

definition opens_only ::
    "('w \<Rightarrow> int \<Rightarrow> 'o option) \<Rightarrow> int set \<Rightarrow> ('w shell \<Rightarrow> (cmd_result \<times> 'w shell) run option) \<Rightarrow> bool" where
  "opens_only tb D f \<longleftrightarrow>
     (\<forall>s r s'. f s = Some (Val (r, s')) \<longrightarrow>
        tb (world s) \<subseteq>\<^sub>m tb (world s') \<and> dom (tb (world s')) \<subseteq> dom (tb (world s)) \<union> D)"

lemma map_le_Some: "m \<subseteq>\<^sub>m n \<Longrightarrow> m k = Some v \<Longrightarrow> n k = Some v"
  by (metis domI map_le_def)

lemma table_memfd:
  assumes L: "table_laws cap bv tb" and e: "memfd_create (cp_os cap) n w = (r, w')"
  shows "if r < 0 then tb w' = tb w else tb w r = None \<and> (\<exists>x. tb w' = (tb w)(r \<mapsto> x))"
  by (rule conjunct1[OF L[unfolded table_laws_def], rule_format, OF e])

lemma table_dupfd:
  assumes L: "table_laws cap bv tb" and e: "dupfd (cp_os cap) fd c lo w = (r, w')"
  shows "if r < 0 then tb w' = tb w else tb w r = None \<and> tb w fd \<noteq> None \<and> tb w' = (tb w)(r := tb w fd)"
  by (rule conjunct1[OF conjunct2[OF L[unfolded table_laws_def]], rule_format, OF e])

lemma table_dup2:
  assumes L: "table_laws cap bv tb" and e: "dup2 cap a 1 w = (r, w')"
  shows "if r < 0 then tb w' = tb w else tb w' = (tb w)(1 := tb w a)"
  using L e unfolding table_laws_def by blast

lemma table_same:
  assumes "table_laws cap bv tb"
  shows "tb (close_file (cp_os cap) fd w) = (tb w)(fd := None)" "tb (flush_stdout_buffers cap w) = tb w"
    "tb (snd (write_file cap fd bs w)) = tb w" "tb (snd (bind_variable bv v x w)) = tb w"
  using assms by (simp_all add: table_laws_def flush_stdout_buffers_def)

lemma memfd_new_table:
  assumes L: "table_laws cap bv tb" and e: "memfd_new cap w = Some (r, w')"
  shows "case r of Ok m \<Rightarrow> tb w m = None \<and> (\<exists>x. tb w' = (tb w)(m \<mapsto> x)) | Err _ \<Rightarrow> tb w' = tb w"
proof -
  obtain fd w1 where c: "memfd_create (cp_os cap) ''L_capture'' w = (fd, w1)" by force
  note t = table_memfd[OF L c]
  show ?thesis
  proof (cases "fd < 0 \<or> fd \<ge> L_FD_MIN")
    case True
    then show ?thesis using e t
      by (auto simp: memfd_new_def high_fd_def ensure_high_fd_def c L_FD_MIN_def split: if_splits)
  next
    case False
    then obtain x where x: "tb w fd = None" "tb w1 = (tb w)(fd \<mapsto> x)" using t by auto
    obtain n w2 where d: "dupfd (cp_os cap) fd True L_FD_MIN w1 = (n, w2)" by force
    then have w': "w' = close_file (cp_os cap) fd w2" "r = (if n < 0 then Err Io_failed else Ok n)"
      using e False by (auto simp: memfd_new_def high_fd_def ensure_high_fd_def c)
    show ?thesis
    proof (cases "n < 0")
      case True
      then show ?thesis using table_dupfd[OF L d] x w' by (auto simp: table_same[OF L])
    next
      case n: False
      then have t2: "tb w1 n = None" "tb w2 = (tb w1)(n := tb w1 fd)" using table_dupfd[OF L d] by auto
      then have "n \<noteq> fd" using x by auto
      then have "tb w n = None" "tb w' = (tb w)(n \<mapsto> x)"
        using t2 x w' by (auto simp: table_same[OF L] fun_eq_iff)
      then show ?thesis using w' n by auto
    qed
  qed
qed

lemma redirect_new_table:
  assumes L: "table_laws cap bv tb" and e: "redirect_new cap m w = (r, w')"
    and o: "tb w 1 = Some x" "tb w m = Some y"
  shows "case r of Ok sv \<Rightarrow> tb w sv = None \<and> tb w' = (tb w)(sv \<mapsto> x, 1 \<mapsto> y) | Err _ \<Rightarrow> tb w' = tb w"
proof -
  obtain sv w1 where d: "dupfd (cp_os cap) 1 True 256 (flush_stdout_buffers cap w) = (sv, w1)" by force
  note t = table_dupfd[OF L d, unfolded table_same[OF L]]
  obtain q w2 where q: "dup2 cap m 1 w1 = (q, w2)" by force
  note t2 = table_dup2[OF L q]
  show ?thesis
  proof (cases "sv < 0")
    case True
    then show ?thesis using e d t by (auto simp: redirect_new_def)
  next
    case False
    then have s: "tb w sv = None" "tb w1 = (tb w)(sv \<mapsto> x)" using t o by auto
    then have "sv \<noteq> m" "sv \<noteq> 1" using o by auto
    then have "tb w1 m = Some y" using s o by auto
    then show ?thesis using e d q t2 s False o by (auto simp: redirect_new_def table_same[OF L] fun_upd_idem split: if_splits)
  qed
qed

lemma redirect_drop_table:
  assumes L: "table_laws cap bv tb" and o: "tb w sv = Some x"
  shows "tb (redirect_drop cap sv w) =
    (if fst (dup2 cap sv 1 (flush_stdout_buffers cap w)) < 0 then (tb w)(sv := None) else (tb w)(1 \<mapsto> x, sv := None))"
proof -
  obtain q w2 where q: "dup2 cap sv 1 (flush_stdout_buffers cap w) = (q, w2)" by force
  then show ?thesis using table_dup2[OF L q] o by (auto simp: redirect_drop_def table_same[OF L] split: if_splits)
qed

lemma bash_var_set_table:
  assumes L: "table_laws cap bv tb" and e: "bash_var_set bv v x w = (r, w')"
  shows "tb w' = tb w"
  using e table_same(4)[OF L, of v x w]
  by (cases "bind_variable bv v x w") (auto simp: bash_var_set_def l_bind_variable_check_def split: bool.splits if_splits)

lemma bind_captured_table:
  assumes L: "table_laws cap bv tb"
  shows "tb (snd (bind_captured cap bv var trimnl m res w)) = tb w"
proof -
  obtain ok w1 where w1: "write_file cap m [CHR 0x00] w = (ok, w1)" by force
  then have t: "tb w1 = tb w" using table_same(3)[OF L, of m "[CHR 0x00]" w] by simp
  show ?thesis
    by (auto simp: bind_captured_def w1 Let_def t split: option.splits prod.splits result.splits bool.splits
        dest!: bash_var_set_table[OF L])
qed

lemma capture_cases:
  assumes "capture_into_variable cap bv var trimnl f s = Some (Val (r, s'))"
  obtains (no_file) e w where "memfd_new cap (world s) = Some (Err e, w)" "r = Err EXECUTION_FAILURE" "s' = set_world w s"
  | (no_redirect) m w1 e w2 where "memfd_new cap (world s) = Some (Ok m, w1)" "redirect_new cap m w1 = (Err e, w2)"
      "r = Err EXECUTION_FAILURE" "s' = set_world (close_file (cp_os cap) m w2) s"
  | (ran) m w1 sv w2 res s1 w3 where "memfd_new cap (world s) = Some (Ok m, w1)" "redirect_new cap m w1 = (Ok sv, w2)"
      "f (set_world w2 s) = Some (Val (res, s1))"
      "bind_captured cap bv var trimnl m res (redirect_drop cap sv (world s1)) = (r, w3)"
      "s' = set_world (close_file (cp_os cap) m w3) s1"
  using assms unfolding capture_into_variable_def
  by (auto split: option.splits prod.splits result.splits run.splits)

text \<open>The command has run and the copy of the old standard output cannot be put back:
  the \<open>dup2\<close> of the drop fails, which the code ignores.\<close>

definition stdout_lost :: "'w capture_ops \<Rightarrow> ('w shell \<Rightarrow> (cmd_result \<times> 'w shell) run option) \<Rightarrow> 'w shell \<Rightarrow> bool" where
  "stdout_lost cap f s =
     (case memfd_new cap (world s) of
        Some (Ok memfd, w) \<Rightarrow>
          (case redirect_new cap memfd w of
             (Ok saved, w) \<Rightarrow>
               (case f (set_world w s) of
                  Some (Val (_, s)) \<Rightarrow> fst (dup2 cap saved 1 (flush_stdout_buffers cap (world s))) < 0
                | _ \<Rightarrow> False)
           | _ \<Rightarrow> False)
      | _ \<Rightarrow> False)"

text \<open>
  C22: Capturing the output of a command leaves the descriptors as the command alone
  would, on every path, whichever system call of the capture fails: those that were
  open are open on the same files, and neither the anonymous file nor the copy of the
  standard output stays open. The one exception is the standard output itself when it
  cannot be put back after the command.
\<close>

theorem capture_keeps_descriptors:
  assumes L: "table_laws cap bv tb" and f: "opens_only tb D f" and o: "tb (world s) 1 \<noteq> None"
    and c: "capture_into_variable cap bv var trimnl f s = Some (Val (r, s'))"
  shows "(if stdout_lost cap f s then (tb (world s))(1 := None) else tb (world s)) \<subseteq>\<^sub>m tb (world s') \<and>
    dom (tb (world s')) \<subseteq> dom (tb (world s)) \<union> D"
  using c
proof (cases rule: capture_cases)
  case (no_file e w)
  then show ?thesis using memfd_new_table[OF L no_file(1)] by (simp add: set_world_def stdout_lost_def)
next
  case (no_redirect m w1 e w2)
  obtain x y where t: "tb (world s) m = None" "tb w1 = (tb (world s))(m \<mapsto> x)" "tb (world s) 1 = Some y"
    using memfd_new_table[OF L no_redirect(1)] o by auto
  moreover have "m \<noteq> 1" using t by auto
  ultimately have "tb w2 = (tb (world s))(m \<mapsto> x)"
    using redirect_new_table[OF L no_redirect(2), of y x] by simp
  then show ?thesis using no_redirect t by (auto simp: stdout_lost_def set_world_def table_same[OF L] map_le_def)
next
  case (ran m w1 sv w2 res s1 w3)
  obtain x y where t: "tb (world s) m = None" "tb w1 = (tb (world s))(m \<mapsto> x)" "tb (world s) 1 = Some y"
    using memfd_new_table[OF L ran(1)] o by auto
  then have "m \<noteq> 1" by auto
  then have t2: "tb w1 sv = None" "tb w2 = (tb w1)(sv \<mapsto> y, 1 \<mapsto> x)"
    using redirect_new_table[OF L ran(2), of y x] t by auto
  then have ne: "sv \<noteq> m" "sv \<noteq> 1" "tb (world s) sv = None" using t \<open>m \<noteq> 1\<close> by (auto split: if_splits)
  have t3: "tb w2 \<subseteq>\<^sub>m tb (world s1)" "dom (tb (world s1)) \<subseteq> dom (tb w2) \<union> D"
    using f ran(3) unfolding opens_only_def by (force simp: set_world_def)+
  have "tb (world s1) sv = Some y"
    by (rule map_le_Some[OF t3(1)]) (simp add: t2 ne)
  moreover have "stdout_lost cap f s = (fst (dup2 cap sv 1 (flush_stdout_buffers cap (world s1))) < 0)"
    by (simp add: stdout_lost_def ran)
  ultimately have "tb (world s') = (if stdout_lost cap f s then (tb (world s1))(sv := None, m := None)
      else (tb (world s1))(1 \<mapsto> y, sv := None, m := None))"
    using ran bind_captured_table[OF L, of var trimnl m res "redirect_drop cap sv (world s1)"]
    by (simp add: set_world_def table_same[OF L] redirect_drop_table[OF L])
  then show ?thesis
    using t3 t t2 ne \<open>m \<noteq> 1\<close> by (auto simp: map_le_def split: if_splits)
qed

text \<open>What the system promises about output: the contents of open files, the bytes
  \<open>held\<close> that are still in a buffer, and the values of variables. A buffer is
  written to the standard output by flushing; a new anonymous file is empty and
  nothing else refers to it.\<close>

definition output_laws ::
    "'w capture_ops \<Rightarrow> 'w bash_vars \<Rightarrow> ('w \<Rightarrow> int \<Rightarrow> 'o option) \<Rightarrow> ('w \<Rightarrow> 'o \<Rightarrow> string) \<Rightarrow> ('w \<Rightarrow> string)
     \<Rightarrow> (string \<Rightarrow> 'w \<Rightarrow> string option) \<Rightarrow> bool" where
  "output_laws cap bv tb contents held shown \<longleftrightarrow>
     (\<forall>n w r w'. memfd_create (cp_os cap) n w = (r, w') \<and> 0 \<le> r \<longrightarrow>
        (\<exists>x. tb w' r = Some x \<and> x \<notin> ran (tb w) \<and> contents w' = (contents w)(x := []) \<and> held w' = held w)) \<and>
     (\<forall>fd c lo w. contents (snd (dupfd (cp_os cap) fd c lo w)) = contents w \<and> held (snd (dupfd (cp_os cap) fd c lo w)) = held w) \<and>
     (\<forall>a b w. contents (snd (dup2 cap a b w)) = contents w \<and> held (snd (dup2 cap a b w)) = held w) \<and>
     (\<forall>fd w. contents (close_file (cp_os cap) fd w) = contents w \<and> held (close_file (cp_os cap) fd w) = held w \<and>
        (\<forall>v. shown v (close_file (cp_os cap) fd w) = shown v w)) \<and>
     (\<forall>w x. tb w 1 = Some x \<longrightarrow> contents (flush_stdout_buffers cap w) = (contents w)(x := contents w x @ held w)
        \<and> held (flush_stdout_buffers cap w) = []) \<and>
     (\<forall>fd bs w w' x. write_file cap fd bs w = (True, w') \<and> tb w fd = Some x \<longrightarrow> contents w' = (contents w)(x := contents w x @ bs)) \<and>
     (\<forall>fd w c x. map_file cap fd w = Some c \<and> tb w fd = Some x \<longrightarrow> c = contents w x) \<and>
     (\<forall>v x w w'. bind_variable bv v x w = (True, w') \<longrightarrow> shown v w' = Some x \<and> contents w' = contents w)"

text \<open>A command that writes \<open>out\<close> to the standard output, by a buffer or directly,
  and to no other file.\<close>

definition prints ::
    "('w \<Rightarrow> int \<Rightarrow> 'o option) \<Rightarrow> ('w \<Rightarrow> 'o \<Rightarrow> string) \<Rightarrow> ('w \<Rightarrow> string) \<Rightarrow> string
     \<Rightarrow> ('w shell \<Rightarrow> (cmd_result \<times> 'w shell) run option) \<Rightarrow> bool" where
  "prints tb contents held out f \<longleftrightarrow>
     (\<forall>s r s' x. f s = Some (Val (r, s')) \<and> tb (world s) 1 = Some x \<longrightarrow>
        contents (world s') x @ held (world s') = contents (world s) x @ held (world s) @ out \<and>
        (\<forall>y. y \<noteq> x \<longrightarrow> contents (world s') y = contents (world s) y))"

lemma output_memfd:
  assumes L: "output_laws cap bv tb contents held shown" and e: "memfd_create (cp_os cap) n w = (r, w')" "0 \<le> r"
  shows "\<exists>x. tb w' r = Some x \<and> x \<notin> ran (tb w) \<and> contents w' = (contents w)(x := []) \<and> held w' = held w"
  using conjunct1[OF L[unfolded output_laws_def], rule_format, OF conjI[OF e]] .

lemma output_quiet:
  assumes "output_laws cap bv tb contents held shown"
  shows "dupfd (cp_os cap) fd c lo w = (r, w') \<Longrightarrow> contents w' = contents w \<and> held w' = held w"
    "dup2 cap a b w = (r, w') \<Longrightarrow> contents w' = contents w \<and> held w' = held w"
    "contents (close_file (cp_os cap) fd w) = contents w" "held (close_file (cp_os cap) fd w) = held w"
    "shown v (close_file (cp_os cap) fd w) = shown v w"
  using assms unfolding output_laws_def by (metis snd_conv)+

lemma output_flush:
  assumes "output_laws cap bv tb contents held shown" "tb w 1 = Some x"
  shows "contents (flush_stdout_buffers cap w) = (contents w)(x := contents w x @ held w)"
    "held (flush_stdout_buffers cap w) = []"
  using assms unfolding output_laws_def by blast+

lemma output_write:
  assumes "output_laws cap bv tb contents held shown"
  shows "write_file cap fd bs w = (True, w') \<Longrightarrow> tb w fd = Some x \<Longrightarrow> contents w' = (contents w)(x := contents w x @ bs)"
    "map_file cap fd w = Some c \<Longrightarrow> tb w fd = Some x \<Longrightarrow> c = contents w x"
    "bash_var_set bv v t w = (Ok u, w') \<Longrightarrow> shown v w' = Some t \<and> contents w' = contents w"
proof -
  show "write_file cap fd bs w = (True, w') \<Longrightarrow> tb w fd = Some x \<Longrightarrow> contents w' = (contents w)(x := contents w x @ bs)"
    using assms unfolding output_laws_def by blast
  show "map_file cap fd w = Some c \<Longrightarrow> tb w fd = Some x \<Longrightarrow> c = contents w x"
    using assms unfolding output_laws_def by blast
  have "bind_variable bv v t w = (True, w') \<Longrightarrow> shown v w' = Some t \<and> contents w' = contents w"
    using assms unfolding output_laws_def by blast
  then show "bash_var_set bv v t w = (Ok u, w') \<Longrightarrow> shown v w' = Some t \<and> contents w' = contents w"
    by (auto simp: bash_var_set_def l_bind_variable_check_def split: prod.splits bool.splits if_splits)
qed

lemma memfd_new_output:
  assumes T: "table_laws cap bv tb" and L: "output_laws cap bv tb contents held shown"
    and e: "memfd_new cap w = Some (Ok m, w')"
  obtains x where "tb w' = (tb w)(m \<mapsto> x)" "x \<notin> ran (tb w)" "contents w' = (contents w)(x := [])" "held w' = held w"
proof -
  obtain fd w1 where c: "memfd_create (cp_os cap) ''L_capture'' w = (fd, w1)" by force
  then have fd: "0 \<le> fd" using e by (auto simp: memfd_new_def high_fd_def split: if_splits)
  from output_memfd[OF L c fd] obtain x where
    x: "tb w1 fd = Some x" "x \<notin> ran (tb w)" "contents w1 = (contents w)(x := [])" "held w1 = held w" by blast
  have w1: "tb w fd = None" "tb w1 = (tb w)(fd \<mapsto> x)" using table_memfd[OF T c] fd x(1) by auto
  have "tb w' = (tb w)(m \<mapsto> x) \<and> contents w' = contents w1 \<and> held w' = held w1"
  proof (cases "L_FD_MIN \<le> fd")
    case True
    then show ?thesis using e w1 fd by (auto simp: memfd_new_def high_fd_def ensure_high_fd_def c)
  next
    case False
    obtain n w2 where d: "dupfd (cp_os cap) fd True L_FD_MIN w1 = (n, w2)" by force
    then have r: "0 \<le> n" "m = n" "w' = close_file (cp_os cap) fd w2"
      using e False fd by (auto simp: memfd_new_def high_fd_def ensure_high_fd_def c split: if_splits)
    then have t2: "tb w1 n = None" "tb w2 = (tb w1)(n := tb w1 fd)" using table_dupfd[OF T d] by auto
    then have "tb w' = (tb w)(m \<mapsto> x)" using r w1 by (auto simp: table_same[OF T] fun_eq_iff)
    then show ?thesis using r output_quiet(1)[OF L d] by (simp add: output_quiet[OF L])
  qed
  then show thesis using that x by simp
qed

lemma redirect_new_output:
  assumes L: "output_laws cap bv tb contents held shown" and e: "redirect_new cap m w = (Ok sv, w')"
    and y: "tb w 1 = Some y"
  shows "contents w' = (contents w)(y := contents w y @ held w) \<and> held w' = []"
proof -
  obtain n w1 where d: "dupfd (cp_os cap) 1 True 256 (flush_stdout_buffers cap w) = (n, w1)" by force
  obtain q w2 where q: "dup2 cap m 1 w1 = (q, w2)" by force
  have "w' = w2" using e d q by (auto simp: redirect_new_def split: if_splits)
  then show ?thesis using output_quiet(1)[OF L d] output_quiet(2)[OF L q] output_flush[OF L y] by simp
qed

lemma redirect_drop_output:
  assumes L: "output_laws cap bv tb contents held shown" and y: "tb w 1 = Some y"
  shows "contents (redirect_drop cap sv w) = (contents w)(y := contents w y @ held w)"
proof -
  obtain q w2 where q: "dup2 cap sv 1 (flush_stdout_buffers cap w) = (q, w2)" by force
  then show ?thesis using output_quiet(2)[OF L q] output_flush[OF L y] by (simp add: redirect_drop_def output_quiet[OF L])
qed

lemma bind_captured_output:
  assumes T: "table_laws cap bv tb" and L: "output_laws cap bv tb contents held shown"
    and e: "bind_captured cap bv var True m res w = (Ok u, w')" and x: "tb w m = Some x" and n: "nul_free (contents w x)"
  shows "shown var w' = Some (strip_newlines (contents w x)) \<and> contents w' = (contents w)(x := contents w x @ [CHR 0x00])"
proof -
  obtain ok w1 where o: "write_file cap m [CHR 0x00] w = (ok, w1)" by force
  then obtain c where ok: ok "map_file cap m w1 = Some c"
    using e by (auto simp: bind_captured_def split: bool.splits option.splits)
  have w1: "contents w1 = (contents w)(x := contents w x @ [CHR 0x00])" "tb w1 m = Some x"
    using output_write(1)[OF L] o ok(1) x table_same(3)[OF T, of m "[CHR 0x00]" w] by auto
  then have "c = contents w x @ [CHR 0x00]" using output_write(2)[OF L ok(2)] by simp
  then have "c_str (trim_trailing_newlines c) = strip_newlines (contents w x)"
    using capture_strips_newlines[OF n] by simp
  then have "\<exists>u. bash_var_set bv var (strip_newlines (contents w x)) w1 = (Ok u, w')"
    using e o ok by (auto simp: bind_captured_def Let_def split: prod.splits result.splits)
  then show ?thesis using output_write(3)[OF L] w1(1) by metis
qed

text \<open>
  C19: Capturing a command gives the variable what the command wrote to the standard
  output, whether it went through a buffer or not, less trailing newlines, each with a
  carriage return before it; for an output without carriage returns this is what
  command substitution gives. What was in a buffer before goes to the old standard
  output, as it would have without the capture.
\<close>

theorem capture_gets_output:
  assumes T: "table_laws cap bv tb" and L: "output_laws cap bv tb contents held shown"
    and f: "opens_only tb D f" "prints tb contents held out f" and n: "nul_free out"
    and y: "tb (world s) 1 = Some y"
    and c: "capture_into_variable cap bv var True f s = Some (Val (Ok (), s'))"
  shows "shown var (world s') = Some (strip_newlines out) \<and>
    (CHR 0x0D \<in> set out \<or> strip_newlines out = command_substitution out) \<and>
    contents (world s') y = contents (world s) y @ held (world s)"
  using c
proof (cases rule: capture_cases)
  case (ran m w1 sv w2 res s1 w3)
  obtain x where t: "tb w1 = (tb (world s))(m \<mapsto> x)" "x \<notin> ran (tb (world s))"
    "contents w1 = (contents (world s))(x := [])" "held w1 = held (world s)"
    by (rule memfd_new_output[OF T L ran(1)])
  have "tb (world s) m = None" using memfd_new_table[OF T ran(1)] by simp
  then have ne: "m \<noteq> 1" "y \<noteq> x" using t(2) y by (auto simp: ran_def)
  then have w1: "tb w1 1 = Some y" "tb w1 m = Some x" using t y by auto
  have w2: "tb w1 sv = None" "tb w2 = (tb w1)(sv \<mapsto> y, 1 \<mapsto> x)" using redirect_new_table[OF T ran(2) w1] by auto
  have c2: "contents w2 = (contents w1)(y := contents w1 y @ held w1)" "held w2 = []"
    using redirect_new_output[OF L ran(2) w1(1)] by auto
  have s1: "tb w2 \<subseteq>\<^sub>m tb (world s1)" using f(1) ran(3) by (force simp: opens_only_def set_world_def)
  have sv: "sv \<noteq> m" "sv \<noteq> 1" using w1 w2(1) by auto
  have t1: "tb (world s1) 1 = Some x" "tb (world s1) sv = Some y" "tb (world s1) m = Some x"
    by (rule map_le_Some[OF s1], simp add: w2(2) w1 sv sv[symmetric] ne(1))+
  have cs: "contents (world s1) x @ held (world s1) = out" "contents (world s1) y = contents (world s) y @ held (world s)"
    using f(2) ran(3) c2 t ne w2(2) unfolding prints_def by (fastforce simp: set_world_def)+
  let ?w = "redirect_drop cap sv (world s1)"
  have d: "contents ?w = (contents (world s1))(x := out)" "tb ?w m = Some x"
    using redirect_drop_output[OF L t1(1), of sv] redirect_drop_table[OF T t1(2)] cs(1) t1 sv ne(1) by (auto split: if_splits)
  have "shown var w3 = Some (strip_newlines out)" "contents w3 = (contents ?w)(x := out @ [CHR 0x00])"
    using bind_captured_output[OF T L ran(4) d(2)] d(1) n by simp_all
  then show ?thesis using ran(5) d(1) cs(2) ne(2) capture_strips_newlines[OF n] by (auto simp: set_world_def output_quiet[OF L])
qed simp_all

text \<open>A small system on which the laws hold: descriptors number open files, the
  standard output is buffered.\<close>

record console = disk +
  con_open :: "(int \<times> nat) list"
  con_bytes :: "nat \<Rightarrow> string"
  con_held :: string
  con_vars :: "string \<Rightarrow> string option"

definition con_table :: "console \<Rightarrow> int \<Rightarrow> nat option" where
  "con_table w = map_of (con_open w)"

definition fresh_fd :: "int \<Rightarrow> console \<Rightarrow> int" where
  "fresh_fd lo w = foldr (\<lambda>e. max (fst e + 1)) (con_open w) lo"

definition fresh_file :: "console \<Rightarrow> nat" where
  "fresh_file w = foldr (\<lambda>e. max (snd e + 1)) (con_open w) 0"

definition con_put :: "nat \<Rightarrow> string \<Rightarrow> console \<Rightarrow> console" where
  "con_put x bs w = w\<lparr>con_bytes := (con_bytes w)(x := bs)\<rparr>"

definition con_flush :: "console \<Rightarrow> console" where
  "con_flush w = (case con_table w 1 of None \<Rightarrow> w
     | Some x \<Rightarrow> con_put x (con_bytes w x @ con_held w) (w\<lparr>con_held := []\<rparr>))"

definition con_dup :: "int \<Rightarrow> int \<Rightarrow> console \<Rightarrow> int \<times> console" where
  "con_dup a b w = (case con_table w a of None \<Rightarrow> (-1, w) | Some x \<Rightarrow> (b, w\<lparr>con_open := AList.update b x (con_open w)\<rparr>))"

definition con_capture :: "console capture_ops" where
  "con_capture =
     \<lparr>cp_os = (disk_ops demo_enc demo_dec)\<lparr>
        memfd_create := \<lambda>n w. (fresh_fd 3 w, con_put (fresh_file w) [] (w\<lparr>con_open := (fresh_fd 3 w, fresh_file w) # con_open w\<rparr>)),
        dupfd := \<lambda>fd c lo w. con_dup fd (fresh_fd (max lo 0) w) w,
        close_file := \<lambda>fd w. w\<lparr>con_open := AList.delete fd (con_open w)\<rparr>\<rparr>,
      flush_rust = con_flush, fflush_all = \<lambda>w. w, dup2 = con_dup,
      write_file = \<lambda>fd bs w. (case con_table w fd of None \<Rightarrow> (False, w) | Some x \<Rightarrow> (True, con_put x (con_bytes w x @ bs) w)),
      map_file = \<lambda>fd w. map_option (con_bytes w) (con_table w fd)\<rparr>"

definition con_bash_vars :: "console bash_vars" where
  "con_bash_vars = \<lparr>legal_identifier = \<lambda>_. True, var_readonly = \<lambda>_ _. False,
     bind_variable = \<lambda>v x w. (True, w\<lparr>con_vars := (con_vars w)(v \<mapsto> x)\<rparr>)\<rparr>"

lemma fresh_fd_closed: "lo \<le> fresh_fd lo w" "con_table w (fresh_fd lo w) = None"
proof -
  have "lo \<le> foldr (\<lambda>e. max (fst e + 1)) xs lo \<and> (\<forall>e\<in>set xs. fst e < foldr (\<lambda>e. max (fst e + 1)) xs lo)" for xs :: "(int \<times> nat) list"
    by (induction xs) auto
  from this[of "con_open w"] show "lo \<le> fresh_fd lo w" "con_table w (fresh_fd lo w) = None"
    by (auto simp: fresh_fd_def con_table_def map_of_eq_None_iff)
qed

lemma fresh_file_unused: "fresh_file w \<notin> ran (con_table w)"
proof -
  have "\<forall>e\<in>set xs. snd e < foldr (\<lambda>e. max (snd e + 1)) xs 0" for xs :: "(int \<times> nat) list"
    by (induction xs) auto
  from this[of "con_open w"] show ?thesis
    by (auto simp: fresh_file_def con_table_def ran_def dest!: map_of_SomeD)
qed

lemma con_table_simps [simp]:
  "con_table (con_put x bs w) = con_table w" "con_table (con_flush w) = con_table w"
  "con_table (w\<lparr>con_held := h\<rparr>) = con_table w" "con_table (w\<lparr>con_vars := v\<rparr>) = con_table w"
  by (auto simp: con_table_def con_put_def con_flush_def split: option.splits)

lemma con_dup_table:
  assumes "con_dup a b w = (r, w')"
  shows "if r < 0 then b < 0 \<or> con_table w a = None \<and> con_table w' = con_table w
    else con_table w a \<noteq> None \<and> r = b \<and> con_table w' = (con_table w)(b := con_table w a)"
    "con_bytes w' = con_bytes w" "con_held w' = con_held w"
  using assms by (auto simp: con_dup_def con_table_def update_conv' split: option.splits)

lemma console_table: "table_laws con_capture con_bash_vars con_table"
proof -
  have c: "con_table (w\<lparr>con_open := AList.delete fd (con_open w)\<rparr>) = (con_table w)(fd := None)" for fd w
    by (simp add: con_table_def delete_conv')
  have m: "con_table (w\<lparr>con_open := (fd, x) # con_open w\<rparr>) = (con_table w)(fd \<mapsto> x)" for fd x w
    by (simp add: con_table_def)
  have "\<not> fresh_fd lo w < 0" if "0 \<le> lo" for lo w using fresh_fd_closed(1)[of lo w] that by simp
  then have d: "if r < 0 then con_table w' = con_table w
      else con_table w r = None \<and> con_table w fd \<noteq> None \<and> con_table w' = (con_table w)(r := con_table w fd)"
    if "con_dup fd (fresh_fd (max lo 0) w) w = (r, w')" for fd lo w r w'
    using con_dup_table(1)[OF that] fresh_fd_closed(2)[of w "max lo 0"] by (auto split: if_splits)
  have d2: "if r < 0 then con_table w' = con_table w else con_table w' = (con_table w)(1 := con_table w a)"
    if "con_dup a 1 w = (r, w')" for a w r w'
    using con_dup_table(1)[OF that] by (auto split: if_splits)
  have f: "\<not> fresh_fd 3 w < 0" for w using fresh_fd_closed(1)[of 3 w] by simp
  show ?thesis
    unfolding table_laws_def
    by (intro conjI allI impI)
      (use d d2 f fresh_fd_closed(2)[of _ 3] in \<open>auto simp: con_capture_def con_bash_vars_def c m split: option.splits\<close>)
qed

lemma console_output: "output_laws con_capture con_bash_vars con_table con_bytes con_held (\<lambda>v w. con_vars w v)"
proof -
  have q: "con_bytes (snd (con_dup a b w)) = con_bytes w" "con_held (snd (con_dup a b w)) = con_held w" for a b w
    using con_dup_table(2,3)[of a b w] by (cases "con_dup a b w"; simp)+
  have f: "\<exists>x. con_table (con_put (fresh_file w) [] (w\<lparr>con_open := (fd, fresh_file w) # con_open w\<rparr>)) fd = Some x
      \<and> x \<notin> ran (con_table w) \<and> con_bytes (con_put (fresh_file w) [] (w\<lparr>con_open := (fd, fresh_file w) # con_open w\<rparr>)) = (con_bytes w)(x := [])" for fd w
    using fresh_file_unused[of w] by (simp add: con_table_def con_put_def)
  show ?thesis
    unfolding output_laws_def
    by (intro conjI allI impI)
      (use q f in \<open>auto simp: con_capture_def con_bash_vars_def flush_stdout_buffers_def con_flush_def con_put_def split: option.splits\<close>)
qed

definition con_echo :: "string \<Rightarrow> console shell \<Rightarrow> (cmd_result \<times> console shell) run option" where
  "con_echo out s = Some (Val (Ok (), set_world ((world s)\<lparr>con_held := con_held (world s) @ out\<rparr>) s))"

definition con_shell :: "console shell" where
  "con_shell = \<lparr>this_command = [], short_doc = [], long_doc = [],
     world = \<lparr>disk_pid = 7, disk_files = \<lambda>_. None, disk_mem = \<lambda>_. [], con_open = [(0, 0), (1, 1), (2, 2)],
              con_bytes = (\<lambda>_. []), con_held = ''early'', con_vars = (\<lambda>_. None)\<rparr>\<rparr>"

lemma con_echo_laws: "opens_only con_table {} (con_echo out)" "prints con_table con_bytes con_held out (con_echo out)"
  by (auto simp: opens_only_def prints_def con_echo_def set_world_def)

lemma con_capture_runs:
  "\<exists>s'. capture_into_variable con_capture con_bash_vars ''v'' True (con_echo [CHR ''h'', CHR ''i'', CHR 0x0A]) con_shell = Some (Val (Ok (), s'))"
  by (simp add: capture_into_variable_def memfd_new_def high_fd_def ensure_high_fd_def con_capture_def con_shell_def L_FD_MIN_def
      fresh_fd_def fresh_file_def con_put_def con_table_def con_dup_def redirect_new_def redirect_drop_def flush_stdout_buffers_def
      con_flush_def con_echo_def set_world_def bind_captured_def bash_var_set_def l_bind_variable_check_def con_bash_vars_def Let_def
      split: option.splits prod.splits)

text \<open>The same command where the output cannot be redirected, as \<open>dup2\<close> fails.\<close>

definition no_dup2 :: "console capture_ops" where
  "no_dup2 = con_capture\<lparr>dup2 := \<lambda>_ _. Pair (-1)\<rparr>"

lemma no_dup2_table: "table_laws no_dup2 con_bash_vars con_table"
  using console_table by (simp add: table_laws_def no_dup2_def)

lemma no_dup2_runs:
  "\<exists>s'. capture_into_variable no_dup2 con_bash_vars ''v'' True (con_echo [CHR ''h'', CHR ''i'', CHR 0x0A]) con_shell =
     Some (Val (Err EXECUTION_FAILURE, s'))"
  by (simp add: capture_into_variable_def memfd_new_def high_fd_def ensure_high_fd_def no_dup2_def con_capture_def con_shell_def L_FD_MIN_def
      fresh_fd_def fresh_file_def con_put_def con_table_def con_dup_def redirect_new_def flush_stdout_buffers_def
      con_flush_def set_world_def Let_def split: option.splits prod.splits)

theorem capture_keeps_descriptors_witness:
  "(\<exists>s'. capture_into_variable con_capture con_bash_vars ''v'' True (con_echo [CHR ''h'', CHR ''i'', CHR 0x0A]) con_shell = Some (Val (Ok (), s'))
     \<and> con_table (world con_shell) \<subseteq>\<^sub>m con_table (world s') \<and> dom (con_table (world s')) \<subseteq> {0, 1, 2}) \<and>
   (\<exists>s'. capture_into_variable no_dup2 con_bash_vars ''v'' True (con_echo [CHR ''h'', CHR ''i'', CHR 0x0A]) con_shell =
       Some (Val (Err EXECUTION_FAILURE, s')) \<and> dom (con_table (world s')) \<subseteq> {0, 1, 2})"
proof -
  let ?f = "con_echo [CHR ''h'', CHR ''i'', CHR 0x0A]"
  obtain s' where s: "capture_into_variable con_capture con_bash_vars ''v'' True ?f con_shell = Some (Val (Ok (), s'))"
    using con_capture_runs by blast
  obtain t' where t: "capture_into_variable no_dup2 con_bash_vars ''v'' True ?f con_shell = Some (Val (Err EXECUTION_FAILURE, t'))"
    using no_dup2_runs by blast
  have o: "con_table (world con_shell) 1 \<noteq> None" and d: "dom (con_table (world con_shell)) = {0, 1, 2}"
    by (auto simp: con_shell_def con_table_def)
  have "\<not> stdout_lost con_capture ?f con_shell"
    by (simp add: stdout_lost_def memfd_new_def high_fd_def ensure_high_fd_def con_capture_def con_shell_def L_FD_MIN_def
      fresh_fd_def fresh_file_def con_put_def con_table_def con_dup_def redirect_new_def flush_stdout_buffers_def
      con_flush_def con_echo_def set_world_def Let_def split: option.splits prod.splits)
  then show ?thesis
    using capture_keeps_descriptors[OF console_table con_echo_laws(1) o s]
      capture_keeps_descriptors[OF no_dup2_table con_echo_laws(1) o t] s t by (auto simp: d)
qed

theorem capture_gets_output_witness:
  "\<exists>s'. capture_into_variable con_capture con_bash_vars ''v'' True (con_echo [CHR ''h'', CHR ''i'', CHR 0x0A]) con_shell = Some (Val (Ok (), s'))
     \<and> con_vars (world s') ''v'' = Some ''hi'' \<and> con_bytes (world s') 1 = ''early''"
proof -
  obtain s' where s: "capture_into_variable con_capture con_bash_vars ''v'' True (con_echo [CHR ''h'', CHR ''i'', CHR 0x0A]) con_shell = Some (Val (Ok (), s'))"
    using con_capture_runs by blast
  have y: "con_table (world con_shell) 1 = Some 1" by (simp add: con_shell_def con_table_def)
  have "nul_free [CHR ''h'', CHR ''i'', CHR 0x0A]" by (simp add: nul_free_def)
  from capture_gets_output[OF console_table console_output con_echo_laws this y s] s show ?thesis
    by (auto simp: strip_newlines_def con_shell_def)
qed

end
