(* ===== verification/Barrier.thy ===== *)
theory Barrier
  imports Sync
begin

text \<open>
  \<open>l_builtin/src/cmd_barrier.rs\<close>: barriers in shared memory. The counters of a
  barrier are a record; the code between taking the lock and sleeping or
  returning (\<open>barrier_enter\<close>), and the code after a wake-up (\<open>barrier_woken\<close>), are
  functions of them, which both \<open>barrier_wait\<close> and the interleaving of many
  processes are made of.
\<close>

section \<open>Definitions\<close>

record barrier =
  count :: "32 word"
  target :: "32 word"
  satisfied :: "32 word"

text \<open>The barrier at an address of the shared memory, and its size.\<close>

record 'm barrier_mem =
  barrier_bytes :: nat
  bar_at :: "address \<Rightarrow> 'm \<Rightarrow> barrier"
  bar_put :: "address \<Rightarrow> barrier \<Rightarrow> 'm \<Rightarrow> 'm"

definition barrier_init ::
    "('m, 'f) pthread_ops \<Rightarrow> 'm barrier_mem \<Rightarrow> address \<Rightarrow> 32 word \<Rightarrow> 'm \<Rightarrow> (unit, unit) result \<times> 'm" where
  "barrier_init pt bm b n m =
     (case mutexattr_init pt m of (rc, m) \<Rightarrow> if rc \<noteq> 0 then (Err (), m) else
      case condattr_init pt m of (rc, m) \<Rightarrow> if rc \<noteq> 0 then (Err (), m) else
      case pthread_mutex_init pt b False m of (rc, m) \<Rightarrow> if rc \<noteq> 0 then (Err (), m) else
      case pthread_cond_init pt b m of (rc, m) \<Rightarrow> if rc \<noteq> 0 then (Err (), m) else
      (Ok (), bar_put bm b \<lparr>count = 0, target = n, satisfied = 0\<rparr> m))"

text \<open>One arrival: is the barrier satisfied, its new counters, and whether to wake
  the sleeping processes.\<close>

definition barrier_arrive :: "barrier \<Rightarrow> bool \<times> barrier \<times> bool" where
  "barrier_arrive bar =
     (let bar = bar\<lparr>count := count bar + 1\<rparr>;
          broadcast = (count bar = target bar);
          bar = (if broadcast then bar\<lparr>satisfied := 1\<rparr> else bar)
      in (satisfied bar \<noteq> 0, bar, broadcast))"

text \<open>\<open>None\<close> when the process goes to sleep.\<close>

definition barrier_enter :: "bool \<Rightarrow> barrier \<Rightarrow> cmd_result option \<times> barrier \<times> bool" where
  "barrier_enter nonblock bar =
     (if satisfied bar \<noteq> 0 then (Some (Ok ()), bar, False)
      else case barrier_arrive bar of (ready, bar, broadcast) \<Rightarrow>
        if nonblock then (Some (if ready then Ok () else Err EXECUTION_FAILURE), bar, broadcast)
        else if ready then (Some (Ok ()), bar, broadcast)
        else (None, bar, broadcast))"

definition barrier_woken :: "int \<Rightarrow> barrier \<Rightarrow> cmd_result option" where
  "barrier_woken rc bar =
     (if rc \<noteq> 0 then Some (Err EXECUTION_FAILURE) else if satisfied bar \<noteq> 0 then Some (Ok ()) else None)"

definition barrier_cond_wait :: "('m, 'f) pthread_ops \<Rightarrow> address \<Rightarrow> 'f option \<Rightarrow> 'm \<Rightarrow> int \<times> 'm" where
  "barrier_cond_wait pt b timeout m =
     (case timeout of
        Some secs \<Rightarrow> pthread_cond_timedwait pt b (deadline pt secs m) m
      | None \<Rightarrow> pthread_cond_wait pt b m)"

partial_function (option) barrier_sleep ::
    "('m, 'f) pthread_ops \<Rightarrow> 'm barrier_mem \<Rightarrow> address \<Rightarrow> 'f option \<Rightarrow> 'm \<Rightarrow> (cmd_result \<times> 'm) option" where
  "barrier_sleep pt bm b timeout m =
     (case barrier_cond_wait pt b timeout m of
        (rc, m) \<Rightarrow> (case barrier_woken rc (bar_at bm b m) of
           Some r \<Rightarrow> Some (r, m)
         | None \<Rightarrow> barrier_sleep pt bm b timeout m))"

definition barrier_wait ::
    "('m, 'f) pthread_ops \<Rightarrow> 'm barrier_mem \<Rightarrow> address \<Rightarrow> 'f option \<Rightarrow> bool \<Rightarrow> 'm \<Rightarrow> (cmd_result \<times> 'm) option" where
  "barrier_wait pt bm b timeout nonblock m =
     (case guard_lock pt b m of
        (False, m) \<Rightarrow> Some (Err EXECUTION_FAILURE, m)
      | (True, m) \<Rightarrow>
     (case barrier_enter nonblock (bar_at bm b m) of
        (r, bar, broadcast) \<Rightarrow>
          (let m = bar_put bm b bar m;
               m = (if broadcast then pthread_cond_broadcast pt b m else m)
           in map_option (\<lambda>(r, m). (r, guard_unlock pt b m))
                (case r of Some r \<Rightarrow> Some (r, m) | None \<Rightarrow> barrier_sleep pt bm b timeout m))))"

definition barrier_cleared :: "barrier \<Rightarrow> barrier" where
  "barrier_cleared bar = bar\<lparr>count := 0, satisfied := 0\<rparr>"

definition barrier_reset :: "('m, 'f) pthread_ops \<Rightarrow> 'm barrier_mem \<Rightarrow> address \<Rightarrow> 'm \<Rightarrow> cmd_result \<times> 'm" where
  "barrier_reset pt bm b m =
     (case guard_lock pt b m of
        (False, m) \<Rightarrow> (Err EXECUTION_FAILURE, m)
      | (True, m) \<Rightarrow>
          (let m = bar_put bm b (barrier_cleared (bar_at bm b m)) m;
               m = pthread_cond_broadcast pt b m
           in (Ok (), guard_unlock pt b m)))"

section \<open>Subcommands\<close>

text \<open>What the subcommands call outside the sources.\<close>

record ('m, 'f, 'g) barrier_env =
  b_getopt :: "'g getopt"
  b_vars :: "'m bash_vars"
  b_map :: "'m map_ops"
  b_pt :: "('m, 'f) pthread_ops"
  b_mem :: "'m barrier_mem"
  b_texts :: "string \<Rightarrow> string \<times> string"

definition store_barrier :: "address \<Rightarrow> string option \<Rightarrow> 'm proc shell \<Rightarrow> 64 word \<times> 'm proc shell" where
  "store_barrier ptr name s =
     (case registry_store ptr name (barriers (world s)) of (i, r) \<Rightarrow> (i, s\<lparr>world := world s\<lparr>barriers := r\<rparr>\<rparr>))"

definition lookup_barrier :: "64 word \<Rightarrow> 'm proc shell \<Rightarrow> address option" where
  "lookup_barrier i s = registry_lookup (barriers (world s)) i"

definition take_barrier :: "64 word \<Rightarrow> 'm proc shell \<Rightarrow> handle_entry option \<times> 'm proc shell" where
  "take_barrier i s =
     (case registry_take i (barriers (world s)) of (e, r) \<Rightarrow> (e, s\<lparr>world := world s\<lparr>barriers := r\<rparr>\<rparr>))"

definition barrier_create_fields :: "'m bash_vars \<Rightarrow> 'm \<Rightarrow> 'f arg field list" where
  "barrier_create_fields bv m =
     [name_option, var_field bv m ''var'', Field ''count'' (Positional_kind (Nat_arg 0)) (uint_conv 32)]"

definition barrier_create_subcommand :: "('m, 'f, 'g) barrier_env \<Rightarrow> 'm proc handler" where
  "barrier_create_subcommand E list s =
     (let s = cmd_enter (described (b_texts E) ''create'') s in
      with_args (b_getopt E) (barrier_create_fields (b_vars E) (sys (world s)) :: 'f arg field list) list s (\<lambda>vs.
      let name = str_opt (arg vs 0); n = of_nat (nat_of (arg vs 2)) :: 32 word in
      if n = 0 then done_with (Err EX_USAGE) s else
      case on_sys (map_for_create (b_map E) name (barrier_bytes (b_mem E))) s of
        (None, s) \<Rightarrow> done_with (Err EXECUTION_FAILURE) s
      | (Some ptr, s) \<Rightarrow>
     (case on_sys (barrier_init (b_pt E) (b_mem E) ptr n) s of
        (Err _, s) \<Rightarrow> done_with (Err EXECUTION_FAILURE) (set_sys (munmap (b_map E) ptr (barrier_bytes (b_mem E)) (sys (world s))) s)
      | (Ok _, s) \<Rightarrow>
     (case store_barrier ptr name s of
        (i, s) \<Rightarrow> set_handle_var (b_vars E) (str_of (arg vs 1)) i s))))"

definition barrier_open_subcommand :: "('m, 'f, 'g) barrier_env \<Rightarrow> 'm proc handler" where
  "barrier_open_subcommand E list s =
     (let s = cmd_enter (described (b_texts E) ''open'') s in
      with_args (b_getopt E) ([var_field (b_vars E) (sys (world s)) ''barrier'', text_field ''name''] :: 'f arg field list) list s (\<lambda>vs.
      let name = str_of (arg vs 1) in
      case on_sys (map_named (b_map E) name (barrier_bytes (b_mem E)) False) s of
        (None, s) \<Rightarrow> done_with (Err EXECUTION_FAILURE) s
      | (Some ptr, s) \<Rightarrow>
     (case store_barrier ptr (Some name) s of
        (i, s) \<Rightarrow> set_handle_var (b_vars E) (str_of (arg vs 0)) i s)))"

definition barrier_wait_fields :: "('m, 'f) pthread_ops \<Rightarrow> 'f arg field list" where
  "barrier_wait_fields pt = wait_options (parse_float pt) @ [id_field ''id'']"

definition barrier_wait_subcommand :: "('m, 'f, 'g) barrier_env \<Rightarrow> 'm proc handler" where
  "barrier_wait_subcommand E list s =
     (let s = cmd_enter (described (b_texts E) ''wait'') s in
      with_args (b_getopt E) (barrier_wait_fields (b_pt E)) list s (\<lambda>vs.
      case lookup_barrier (id_of (arg vs 2)) s of
        None \<Rightarrow> done_with (Err EXECUTION_FAILURE) s
      | Some ptr \<Rightarrow>
          map_option (\<lambda>(r, m). Val (r, set_sys m s))
            (barrier_wait (b_pt E) (b_mem E) ptr (f64_opt (arg vs 1)) (flag_of (arg vs 0)) (sys (world s)))))"

definition barrier_close_subcommand :: "('m, 'f, 'g) barrier_env \<Rightarrow> 'm proc handler" where
  "barrier_close_subcommand E list s =
     (let s = cmd_enter (described (b_texts E) ''close'') s in
      with_args (b_getopt E) ([id_field ''id''] :: 'f arg field list) list s (\<lambda>vs.
      case take_barrier (id_of (arg vs 0)) s of
        (None, s) \<Rightarrow> done_with (Err EXECUTION_FAILURE) s
      | (Some e, s) \<Rightarrow>
          done_with (Ok ()) (set_sys (munmap (b_map E) (he_ptr e) (barrier_bytes (b_mem E)) (sys (world s))) s)))"

definition barrier_reset_subcommand :: "('m, 'f, 'g) barrier_env \<Rightarrow> 'm proc handler" where
  "barrier_reset_subcommand E list s =
     (let s = cmd_enter (described (b_texts E) ''reset'') s in
      with_args (b_getopt E) ([id_field ''barrier''] :: 'f arg field list) list s (\<lambda>vs.
      case lookup_barrier (id_of (arg vs 0)) s of
        None \<Rightarrow> done_with (Err EXECUTION_FAILURE) s
      | Some ptr \<Rightarrow>
     (case on_sys (barrier_reset (b_pt E) (b_mem E) ptr) s of (r, s) \<Rightarrow> done_with r s)))"

definition barrier_destroy_subcommand :: "('m, 'f, 'g) barrier_env \<Rightarrow> 'm proc handler" where
  "barrier_destroy_subcommand E list s =
     (let s = cmd_enter (described (b_texts E) ''destroy'') s in
      with_args (b_getopt E) ([id_field ''barrier''] :: 'f arg field list) list s (\<lambda>vs.
      case take_barrier (id_of (arg vs 0)) s of
        (None, s) \<Rightarrow> done_with (Err EXECUTION_FAILURE) s
      | (Some e, s) \<Rightarrow>
          (let m = munmap (b_map E) (he_ptr e) (barrier_bytes (b_mem E)) (sys (world s));
               m = (case he_name e of Some n \<Rightarrow> shm_unlink (b_map E) n m | None \<Rightarrow> m)
           in done_with (Ok ()) (set_sys m s))))"

definition barrier_subcommands :: "('m, 'f, 'g) barrier_env \<Rightarrow> (string \<times> 'm proc handler) list" where
  "barrier_subcommands E =
     [(''create'', barrier_create_subcommand E), (''open'', barrier_open_subcommand E),
      (''wait'', barrier_wait_subcommand E), (''close'', barrier_close_subcommand E),
      (''reset'', barrier_reset_subcommand E), (''destroy'', barrier_destroy_subcommand E)]"

definition barrier_table :: "('m, 'f, 'g) barrier_env \<Rightarrow> (64 word, 'm proc handler) int_lookup run" where
  "barrier_table E = int_lookup_new 6 (barrier_subcommands E)"

definition barrier_subcommand :: "('m, 'f, 'g) barrier_env \<Rightarrow> 'm proc handler" where
  "barrier_subcommand E =
     subcommand_group (b_getopt E) (described (b_texts E) ''barrier'')
       (\<lambda>q. bindR (barrier_table E) (\<lambda>t. lookup t q))"

section \<open>Many processes\<close>

text \<open>The barrier's lock makes the code between taking and releasing it atomic: a
  process enters \<open>wait\<close>, is woken with a return code, or resets. The event holds
  the result, \<open>None\<close> for going (back) to sleep.\<close>

datatype bevent =
    Enters nat bool "cmd_result option"
  | Wakes nat int "cmd_result option"
  | Resets nat

inductive bstep :: "barrier \<Rightarrow> bevent \<Rightarrow> barrier \<Rightarrow> bool" where
  enters: "barrier_enter nonblock bar = (r, bar', broadcast) \<Longrightarrow> bstep bar (Enters p nonblock r) bar'"
| wakes: "barrier_woken rc bar = r \<Longrightarrow> bstep bar (Wakes p rc r) bar"
| resets: "bstep bar (Resets p) (barrier_cleared bar)"

inductive_cases bstep_enters: "bstep bar (Enters p nonblock r) bar'"
inductive_cases bstep_wakes: "bstep bar (Wakes p rc r) bar'"
inductive_cases bstep_resets: "bstep bar (Resets p) bar'"

inductive bruns :: "barrier \<Rightarrow> bevent list \<Rightarrow> barrier \<Rightarrow> bool" where
  bruns_nil: "bruns bar [] bar"
| bruns_snoc: "bruns bar evs bar' \<Longrightarrow> bstep bar' e bar'' \<Longrightarrow> bruns bar (evs @ [e]) bar''"

lemmas bruns_intros = bruns_nil bruns_snoc

lemma bruns_append: "bruns b evs2 c \<Longrightarrow> bruns a evs1 b \<Longrightarrow> bruns a (evs1 @ evs2) c"
proof (induction rule: bruns.induct)
  case (bruns_snoc bar evs bar' e bar'')
  then have "bruns a ((evs1 @ evs) @ [e]) bar''" by (intro bruns.bruns_snoc)
  then show ?case by simp
qed simp

lemma bruns_one: "bstep a e b \<Longrightarrow> bruns a [e] b"
  using bruns_snoc[OF bruns_nil] by fastforce

lemma bruns_nilE: "bruns a [] b \<Longrightarrow> b = a"
  by (auto elim: bruns.cases)

lemma bruns_snocE:
  assumes "bruns a (evs @ [e]) c"
  obtains b where "bruns a evs b" "bstep b e c"
  using assms by (auto elim: bruns.cases)

text \<open>How often \<open>wait\<close> was entered since the last reset.\<close>

fun entries_after :: "nat \<Rightarrow> bevent list \<Rightarrow> nat" where
  "entries_after n [] = n"
| "entries_after n (Enters p nonblock r # evs) = entries_after (Suc n) evs"
| "entries_after n (Wakes p rc r # evs) = entries_after n evs"
| "entries_after n (Resets p # evs) = entries_after 0 evs"

definition entries :: "bevent list \<Rightarrow> nat" where
  "entries evs = entries_after 0 evs"

lemma entries_after_snoc:
  "entries_after n (evs @ [Enters p nb r]) = Suc (entries_after n evs)"
  "entries_after n (evs @ [Wakes p rc r]) = entries_after n evs"
  "entries_after n (evs @ [Resets p]) = 0"
  by (induction n evs rule: entries_after.induct) simp_all

lemma entries_simps [simp]:
  "entries [] = 0" "entries (evs @ [Enters p nb r]) = Suc (entries evs)"
  "entries (evs @ [Wakes p rc r]) = entries evs" "entries (evs @ [Resets p]) = 0"
  by (simp_all add: entries_def entries_after_snoc)

definition barrier_new :: "32 word \<Rightarrow> barrier" where
  "barrier_new n = \<lparr>count = 0, target = n, satisfied = 0\<rparr>"

text \<open>The counters after \<open>k\<close> entries.\<close>

definition barrier_after :: "32 word \<Rightarrow> nat \<Rightarrow> barrier \<Rightarrow> bool" where
  "barrier_after n k bar \<longleftrightarrow>
     target bar = n \<and> unat (count bar) = min k (unat n) \<and> satisfied bar = (if unat n \<le> k then 1 else 0)"

lemma barrier_enter_after:
  assumes "barrier_after n k bar" "barrier_enter nb bar = (r, bar', bc)"
  shows "barrier_after n (Suc k) bar' \<and>
    r = (if unat n \<le> Suc k then Some (Ok ()) else if nb then Some (Err EXECUTION_FAILURE) else None)"
proof (cases "unat n \<le> k")
  case True
  then show ?thesis using assms by (auto simp: barrier_after_def barrier_enter_def)
next
  case False
  then have c: "unat (count bar) = k" "k < unat n" using assms(1) by (auto simp: barrier_after_def)
  then have "count bar < n" by (simp add: word_less_nat_alt)
  then have "count bar \<noteq> - 1" using word_order.extremum_strict by auto
  then have s: "unat (count bar + 1) = Suc k" using c by (simp add: unat_add_one)
  then have "count bar + 1 = n \<longleftrightarrow> unat n \<le> Suc k" using c by (auto simp: word_unat_eq_iff)
  then show ?thesis using assms c s
    by (auto simp: barrier_after_def barrier_enter_def barrier_arrive_def Let_def split: if_splits)
qed

lemma bruns_after:
  assumes "bruns (barrier_new n) evs bar" "n \<noteq> 0"
  shows "barrier_after n (entries evs) bar"
proof -
  have "bruns a evs bar \<Longrightarrow> a = barrier_new n \<Longrightarrow> barrier_after n (entries evs) bar" for a
  proof (induction rule: bruns.induct)
    case (bruns_nil bar)
    then show ?case using assms(2) by (simp add: barrier_after_def barrier_new_def unat_gt_0)
  next
    case (bruns_snoc bar evs bar' e bar'')
    then have IH: "barrier_after n (entries evs) bar'" by simp
    from bruns_snoc.hyps(2) show ?case
    proof cases
      case (enters nb r bc p)
      then show ?thesis using barrier_enter_after[OF IH] by simp
    next
      case (wakes rc r p)
      then show ?thesis using IH by simp
    next
      case (resets p)
      then show ?thesis using IH assms(2) by (simp add: barrier_after_def barrier_cleared_def unat_gt_0)
    qed
  qed
  then show ?thesis using assms(1) by blast
qed

text \<open>The result of every entry and wake-up is decided by the entries so far.\<close>

lemma bstep_results:
  assumes "bruns (barrier_new n) evs bar" "n \<noteq> 0" "bstep bar e bar'"
  shows "(e = Enters p nb r \<longrightarrow>
            r = (if unat n \<le> entries (evs @ [e]) then Some (Ok ())
                 else if nb then Some (Err EXECUTION_FAILURE) else None)) \<and>
         (e = Wakes p rc r \<longrightarrow>
            r = (if rc \<noteq> 0 then Some (Err EXECUTION_FAILURE)
                 else if unat n \<le> entries (evs @ [e]) then Some (Ok ()) else None))"
proof -
  have after: "barrier_after n (entries evs) bar" by (rule bruns_after) fact+
  then have "barrier_woken rc bar = (if rc \<noteq> 0 then Some (Err EXECUTION_FAILURE)
       else if unat n \<le> entries evs then Some (Ok ()) else None)"
    by (simp add: barrier_woken_def barrier_after_def)
  then have w: "e = Wakes p rc r \<Longrightarrow> ?thesis"
    using assms(3) by (auto elim!: bstep_wakes)
  have "e = Enters p nb r \<Longrightarrow> ?thesis"
  proof -
    assume e: "e = Enters p nb r"
    then obtain bc where "barrier_enter nb bar = (r, bar', bc)" using assms(3) by (auto elim: bstep_enters)
    from barrier_enter_after[OF after this] show ?thesis by (simp add: e)
  qed
  then show ?thesis using w by blast
qed

section \<open>One process among the others\<close>

text \<open>What the pthread functions promise: other processes run barrier code of
  their own while the caller waits for the lock, sleeps or has unlocked; while
  the caller holds the lock nothing else changes the barrier.\<close>

definition pthread_laws :: "('m, 'f) pthread_ops \<Rightarrow> 'm barrier_mem \<Rightarrow> address \<Rightarrow> bool" where
  "pthread_laws pt bm b \<longleftrightarrow>
     (\<forall>m bar. bar_at bm b (bar_put bm b bar m) = bar) \<and>
     (\<forall>m. bar_at bm b (pthread_cond_broadcast pt b m) = bar_at bm b m) \<and>
     (\<forall>m rc m'. pthread_mutex_lock pt b m = (rc, m') \<longrightarrow> (\<exists>evs. bruns (bar_at bm b m) evs (bar_at bm b m'))) \<and>
     (\<forall>m rc m'. pthread_mutex_unlock pt b m = (rc, m') \<longrightarrow> (\<exists>evs. bruns (bar_at bm b m) evs (bar_at bm b m'))) \<and>
     (\<forall>m rc m'. pthread_cond_wait pt b m = (rc, m') \<longrightarrow> (\<exists>evs. bruns (bar_at bm b m) evs (bar_at bm b m'))) \<and>
     (\<forall>m ts rc m'. pthread_cond_timedwait pt b ts m = (rc, m') \<longrightarrow> (\<exists>evs. bruns (bar_at bm b m) evs (bar_at bm b m')))"

lemma cond_wait_runs:
  "pthread_laws pt bm b \<Longrightarrow> barrier_cond_wait pt b timeout m = (rc, m') \<Longrightarrow>
     \<exists>evs. bruns (bar_at bm b m) evs (bar_at bm b m')"
  unfolding pthread_laws_def barrier_cond_wait_def by (cases timeout) auto

lemma barrier_sleep_runs:
  assumes "pthread_laws pt bm b" "barrier_sleep pt bm b timeout m = Some (r, m')"
  shows "\<exists>evs. bruns (bar_at bm b m) evs (bar_at bm b m') \<and> (r = Ok () \<longrightarrow> satisfied (bar_at bm b m') \<noteq> 0)"
proof -
  let ?Q = "\<lambda>m y. \<exists>evs. bruns (bar_at bm b m) evs (bar_at bm b (snd y)) \<and> (fst y = Ok () \<longrightarrow> satisfied (bar_at bm b (snd y)) \<noteq> 0)"
  let ?P = "\<lambda>pt' bm' b' timeout' m y. pt' = pt \<longrightarrow> bm' = bm \<longrightarrow> b' = b \<longrightarrow> ?Q m y"
  have "?P pt bm b timeout m (r, m')"
  proof (rule barrier_sleep.raw_induct[where P = ?P, OF _ assms(2)])
    fix sl pt' bm' b' timeout' m y
    assume IH: "\<And>pt' bm' b' timeout' m y. sl pt' bm' b' timeout' m = Some y \<Longrightarrow> ?P pt' bm' b' timeout' m y"
      and eq: "(case barrier_cond_wait pt' b' timeout' m of
         (rc, m) \<Rightarrow> (case barrier_woken rc (bar_at bm' b' m) of Some r \<Rightarrow> Some (r, m) | None \<Rightarrow> sl pt' bm' b' timeout' m)) = Some y"
    show "?P pt' bm' b' timeout' m y"
    proof (intro impI)
      assume [simp]: "pt' = pt" "bm' = bm" "b' = b"
      obtain rc m1 where w: "barrier_cond_wait pt b timeout' m = (rc, m1)" by fastforce
      obtain evs where evs: "bruns (bar_at bm b m) evs (bar_at bm b m1)"
        using cond_wait_runs[OF assms(1) w] by blast
      have wake: "bruns (bar_at bm b m) (evs @ [Wakes 0 rc (barrier_woken rc (bar_at bm b m1))]) (bar_at bm b m1)"
        by (rule bruns_snoc[OF evs]) (rule bstep.wakes, rule refl)
      show "?Q m y"
      proof (cases "barrier_woken rc (bar_at bm b m1)")
        case None
        then have "sl pt bm b timeout' m1 = Some y" using eq w by simp
        from IH[OF this] obtain evs' where "bruns (bar_at bm b m1) evs' (bar_at bm b (snd y))"
          "fst y = Ok () \<longrightarrow> satisfied (bar_at bm b (snd y)) \<noteq> 0" by blast
        then show ?thesis using bruns_append[OF _ wake] by blast
      next
        case (Some r)
        then have "y = (r, m1)" using eq w by simp
        then show ?thesis using wake Some by (auto simp: barrier_woken_def split: if_splits)
      qed
    qed
  qed
  then show ?thesis by simp
qed

lemma barrier_enter_ready:
  "barrier_enter nb bar = (Some r, bar', bc) \<Longrightarrow> r = Ok () \<longleftrightarrow> satisfied bar' \<noteq> 0"
  "barrier_enter True bar = (None, bar', bc) \<Longrightarrow> False"
  by (auto simp: barrier_enter_def barrier_arrive_def Let_def split: if_splits prod.splits)

lemma barrier_wait_runs:
  assumes laws: "pthread_laws pt bm b" and w: "barrier_wait pt bm b timeout nb m = Some (r, m')"
    and lock: "guard_lock pt b m = (True, m1)"
  shows "\<exists>m3 evs. m' = guard_unlock pt b m3 \<and> bruns (bar_at bm b m) evs (bar_at bm b m3) \<and>
    (r = Ok () \<longrightarrow> satisfied (bar_at bm b m3) \<noteq> 0) \<and> (nb \<and> r \<noteq> Ok () \<longrightarrow> satisfied (bar_at bm b m3) = 0)"
proof -
  obtain evs0 where evs0: "bruns (bar_at bm b m) evs0 (bar_at bm b m1)"
    using laws lock unfolding pthread_laws_def guard_lock_def by (fastforce split: prod.splits if_splits)
  obtain r1 bar bc where ent: "barrier_enter nb (bar_at bm b m1) = (r1, bar, bc)" by (metis prod_cases3)
  define m2 where "m2 = (if bc then pthread_cond_broadcast pt b (bar_put bm b bar m1) else bar_put bm b bar m1)"
  have m2: "bar_at bm b m2 = bar" using laws by (simp add: pthread_laws_def m2_def)
  have step: "bruns (bar_at bm b m) (evs0 @ [Enters 0 nb r1]) (bar_at bm b m2)"
    unfolding m2 using bruns_snoc[OF evs0 bstep.enters[OF ent]] .
  obtain m3 where m3: "(case r1 of Some r \<Rightarrow> Some (r, m2) | None \<Rightarrow> barrier_sleep pt bm b timeout m2) = Some (r, m3)"
      "m' = guard_unlock pt b m3"
    using w unfolding barrier_wait_def lock ent prod.case bool.case Let_def m2_def[symmetric] by auto
  show ?thesis
  proof (cases r1)
    case None
    then have "\<not> nb" using ent barrier_enter_ready(2)[of "bar_at bm b m1" bar bc] by (cases nb) auto
    moreover have "barrier_sleep pt bm b timeout m2 = Some (r, m3)" using m3(1) None by simp
    ultimately show ?thesis
      using barrier_sleep_runs[OF laws] bruns_append[OF _ step] m3(2) by blast
  next
    case (Some r2)
    then have "r2 = r" "m3 = m2" using m3(1) by auto
    then show ?thesis using step m3(2) barrier_enter_ready(1)[of nb "bar_at bm b m1" r bar bc] ent Some m2 by auto
  qed
qed

text \<open>
  C11: Take a barrier made for the count \<open>n\<close> and the moment in which a call of \<open>wait\<close>
  that got the lock releases it. If the call succeeds, \<open>wait\<close> has been entered at least
  \<open>n\<close> times since the creation or the last reset in every history of entries, wake-ups
  and resets that leads to this moment; if it is non-blocking and fails, fewer times. A
  call that does not get the lock fails.
\<close>

theorem barrier_wait_success:
  assumes "pthread_laws pt bm b" "n \<noteq> 0" "bruns (barrier_new n) past (bar_at bm b m)"
    "barrier_wait pt bm b timeout nonblock m = Some (r, m')"
  shows "if \<not> fst (guard_lock pt b m) then r = Err EXECUTION_FAILURE
    else \<exists>m1. m' = guard_unlock pt b m1 \<and> (\<exists>evs. bruns (barrier_new n) (past @ evs) (bar_at bm b m1)) \<and>
      (\<forall>history. bruns (barrier_new n) history (bar_at bm b m1) \<longrightarrow>
        (if r = Ok () then unat n \<le> entries history else nonblock \<longrightarrow> entries history < unat n))"
proof (cases "guard_lock pt b m")
  case (Pair ok m0)
  show ?thesis
  proof (cases ok)
    case True
    then have l: "guard_lock pt b m = (True, m0)" using Pair by simp
    obtain m1 evs where 1: "m' = guard_unlock pt b m1" "bruns (bar_at bm b m) evs (bar_at bm b m1)"
      "r = Ok () \<longrightarrow> satisfied (bar_at bm b m1) \<noteq> 0" "nonblock \<and> r \<noteq> Ok () \<longrightarrow> satisfied (bar_at bm b m1) = 0"
      using barrier_wait_runs[OF assms(1,4) l] by blast
    have "satisfied (bar_at bm b m1) \<noteq> 0 \<longleftrightarrow> unat n \<le> entries h" if "bruns (barrier_new n) h (bar_at bm b m1)" for h
      using bruns_after[OF that assms(2)] by (simp add: barrier_after_def)
    then have "\<forall>h. bruns (barrier_new n) h (bar_at bm b m1) \<longrightarrow>
        (if r = Ok () then unat n \<le> entries h else nonblock \<longrightarrow> entries h < unat n)"
      using 1(3,4) by force
    then have "\<exists>m1. m' = guard_unlock pt b m1 \<and> (\<exists>evs. bruns (barrier_new n) (past @ evs) (bar_at bm b m1)) \<and>
      (\<forall>history. bruns (barrier_new n) history (bar_at bm b m1) \<longrightarrow>
        (if r = Ok () then unat n \<le> entries history else nonblock \<longrightarrow> entries history < unat n))"
      using 1(1) bruns_append[OF 1(2) assms(3)] by blast
    then show ?thesis by (simp add: l)
  qed (use assms(4) Pair in \<open>simp add: barrier_wait_def\<close>)
qed

text \<open>A process alone with its barrier: every call succeeds at once.\<close>

definition no_arith :: "unit f64_ops" where
  "no_arith = \<lparr>f_of_int = \<lambda>_. (), f_add = \<lambda>_ _. (), f_sub = \<lambda>_ _. (), f_mul = \<lambda>_ _. (), f_div = \<lambda>_ _. (),
     f_floor = \<lambda>_. (), f_round = \<lambda>_. (), f_to_i64 = \<lambda>_. 0\<rparr>"

definition alone :: "('m, unit) pthread_ops" where
  "alone = \<lparr>arith = no_arith, parse_float = \<lambda>_. None, clock_gettime = \<lambda>_. \<lparr>tv_sec = 0, tv_nsec = 0\<rparr>,
     mutexattr_init = Pair 0, condattr_init = Pair 0, mutexattr_setrobust = Pair 0,
     pthread_mutex_init = \<lambda>_ _. Pair 0, pthread_cond_init = \<lambda>_. Pair 0, pthread_mutex_lock = \<lambda>_. Pair 0,
     pthread_mutex_trylock = \<lambda>_. Pair 0, pthread_mutex_timedlock = \<lambda>_ _. Pair 0,
     pthread_mutex_consistent = \<lambda>_. Pair 0, pthread_mutex_unlock = \<lambda>_. Pair 0, pthread_cond_wait = \<lambda>_. Pair 0,
     pthread_cond_timedwait = \<lambda>_ _. Pair 0, pthread_cond_broadcast = \<lambda>_ m. m\<rparr>"

definition only_barrier :: "barrier barrier_mem" where
  "only_barrier = \<lparr>barrier_bytes = 12, bar_at = \<lambda>_ m. m, bar_put = \<lambda>_ bar _. bar\<rparr>"

theorem barrier_wait_success_witness:
  "barrier_wait alone only_barrier 0 None False (barrier_new 1) = Some (Ok (), \<lparr>count = 1, target = 1, satisfied = 1\<rparr>) \<and>
   \<not> (\<exists>history. bruns (barrier_new 1) history \<lparr>count = 1, target = 1, satisfied = 1\<rparr> \<and> entries history = 0)"
proof -
  let ?m = "\<lparr>count = 1, target = 1, satisfied = 1\<rparr> :: barrier"
  have laws: "pthread_laws alone only_barrier 0"
    by (auto simp: pthread_laws_def alone_def only_barrier_def intro: bruns_nil)
  have at: "bruns (barrier_new 1) [] (bar_at only_barrier 0 (barrier_new 1))"
    by (simp add: only_barrier_def bruns_nil)
  have w: "barrier_wait alone only_barrier 0 None False (barrier_new 1) = Some (Ok (), ?m)"
    by (simp add: barrier_wait_def guard_lock_def guard_unlock_def alone_def only_barrier_def barrier_new_def
        barrier_enter_def barrier_arrive_def)
  have "bruns (barrier_new 1) h ?m \<Longrightarrow> entries h \<noteq> 0" for h
    using barrier_wait_success[OF laws _ at w] by (auto simp: only_barrier_def guard_lock_def guard_unlock_def alone_def)
  then show ?thesis using w by blast
qed

text \<open>
  C7: In every interleaving of the processes that share a barrier made for a count
  \<open>n\<close>, entering \<open>wait\<close> and being woken give exactly what the number of entries
  since the last reset says: success from the \<open>n\<close>-th entry on, until a reset;
  before it a non-blocking call fails and a blocking one sleeps; a timeout fails.
\<close>

theorem barrier_results:
  assumes "n \<noteq> 0" "bruns (barrier_new n) evs bar" "bstep bar e bar'"
  shows "case e of
      Enters p nonblock r \<Rightarrow> r = (if unat n \<le> entries (evs @ [e]) then Some (Ok ())
                                   else if nonblock then Some (Err EXECUTION_FAILURE) else None)
    | Wakes p rc r \<Rightarrow> r = (if rc \<noteq> 0 then Some (Err EXECUTION_FAILURE)
                            else if unat n \<le> entries (evs @ [e]) then Some (Ok ()) else None)
    | Resets p \<Rightarrow> bar' = barrier_new n"
proof (cases e)
  case (Enters p nb r)
  show ?thesis
    using conjunct1[OF bstep_results[OF assms(2,1,3), of p nb r 0]] unfolding Enters bevent.case by blast
next
  case (Wakes p rc r)
  show ?thesis
    using conjunct2[OF bstep_results[OF assms(2,1,3), of p False r rc]] unfolding Wakes bevent.case by blast
next
  case (Resets p)
  have "barrier_after n (entries evs) bar" by (rule bruns_after) fact+
  then show ?thesis using assms(3) Resets
    by (auto elim!: bstep_resets simp: barrier_after_def barrier_cleared_def barrier_new_def)
qed

theorem barrier_results_witness:
  "case Enters 7 True (Some (Err EXECUTION_FAILURE)) of
      Enters p nonblock r \<Rightarrow> r = (if unat (2 :: 32 word) \<le> entries ([] @ [Enters 7 True (Some (Err EXECUTION_FAILURE))]) then Some (Ok ())
                                   else if nonblock then Some (Err EXECUTION_FAILURE) else None)
    | Wakes p rc r \<Rightarrow> r = (if rc \<noteq> 0 then Some (Err EXECUTION_FAILURE)
                            else if unat (2 :: 32 word) \<le> entries ([] @ [Enters 7 True (Some (Err EXECUTION_FAILURE))]) then Some (Ok ()) else None)
    | Resets p \<Rightarrow> \<lparr>count = 1, target = 2, satisfied = 0\<rparr> = barrier_new 2"
  by (rule barrier_results[OF _ bruns_nil bstep.enters[where broadcast = False]])
    (simp_all add: barrier_enter_def barrier_arrive_def barrier_new_def)

lemma polls:
  "k < unat n \<Longrightarrow> \<exists>bar. bruns (barrier_new n) (replicate k (Enters p True (Some (Err EXECUTION_FAILURE)))) bar \<and>
     barrier_after n k bar"
proof (induction k)
  case 0
  then show ?case using bruns_nil[of "barrier_new n"] by (auto simp: barrier_after_def barrier_new_def)
next
  case (Suc k)
  then obtain bar where bar: "bruns (barrier_new n) (replicate k (Enters p True (Some (Err EXECUTION_FAILURE)))) bar"
      "barrier_after n k bar" by auto
  obtain r bar' bc where ent: "barrier_enter True bar = (r, bar', bc)" by (metis prod_cases3)
  then have "barrier_after n (Suc k) bar'" "r = Some (Err EXECUTION_FAILURE)"
    using barrier_enter_after[OF bar(2) ent] Suc.prems by auto
  then show ?case
    using bruns_snoc[OF bar(1) bstep.enters[OF ent, of p]] by (auto simp: replicate_append_same[symmetric])
qed

text \<open>
  The arrivals are not counted by process: one process that polls a barrier for
  \<open>n\<close> processes with \<open>wait -n\<close> satisfies it by itself, its \<open>n\<close>-th poll succeeding.
\<close>

lemma one_process_satisfies:
  assumes "n \<noteq> 0"
  shows "\<exists>bar. bruns (barrier_new n)
    (replicate (unat n - 1) (Enters p True (Some (Err EXECUTION_FAILURE))) @ [Enters p True (Some (Ok ()))]) bar \<and>
    satisfied bar = 1"
proof -
  have n: "unat n - 1 < unat n" "Suc (unat n - 1) = unat n" using assms by (simp_all add: unat_gt_0)
  obtain bar where bar: "bruns (barrier_new n) (replicate (unat n - 1) (Enters p True (Some (Err EXECUTION_FAILURE)))) bar"
      "barrier_after n (unat n - 1) bar" using polls[OF n(1)] by blast
  obtain r bar' bc where ent: "barrier_enter True bar = (r, bar', bc)" by (metis prod_cases3)
  then have "barrier_after n (unat n) bar'" "r = Some (Ok ())"
    using barrier_enter_after[OF bar(2) ent] n(2) by auto
  then show ?thesis
    using bruns_snoc[OF bar(1) bstep.enters[OF ent, of p]] by (auto simp: barrier_after_def)
qed

lemma one_process_satisfies_witness:
  "\<exists>bar. bruns (barrier_new 2) [Enters 7 True (Some (Err EXECUTION_FAILURE)), Enters 7 True (Some (Ok ()))] bar \<and> satisfied bar = 1"
  using one_process_satisfies[of 2 7] by simp

section \<open>Returning\<close>

text \<open>The memory after \<open>k\<close> wake-ups of a sleeping process, and whether the next one
  ends its sleep.\<close>

fun after_wakes :: "('m, 'f) pthread_ops \<Rightarrow> address \<Rightarrow> 'f option \<Rightarrow> nat \<Rightarrow> 'm \<Rightarrow> 'm" where
  "after_wakes pt b timeout 0 m = m"
| "after_wakes pt b timeout (Suc k) m = after_wakes pt b timeout k (snd (barrier_cond_wait pt b timeout m))"

definition woken_up :: "('m, 'f) pthread_ops \<Rightarrow> 'm barrier_mem \<Rightarrow> address \<Rightarrow> 'f option \<Rightarrow> 'm \<Rightarrow> bool" where
  "woken_up pt bm b timeout m \<longleftrightarrow>
     (case barrier_cond_wait pt b timeout m of (rc, m') \<Rightarrow> rc \<noteq> 0 \<or> satisfied (bar_at bm b m') \<noteq> 0)"

text \<open>The memory in which a call goes to sleep, if it does.\<close>

definition falls_asleep :: "('m, 'f) pthread_ops \<Rightarrow> 'm barrier_mem \<Rightarrow> address \<Rightarrow> bool \<Rightarrow> 'm \<Rightarrow> 'm option" where
  "falls_asleep pt bm b nonblock m =
     (case guard_lock pt b m of
        (False, _) \<Rightarrow> None
      | (True, m) \<Rightarrow>
          (case barrier_enter nonblock (bar_at bm b m) of
             (Some _, _, _) \<Rightarrow> None
           | (None, bar, broadcast) \<Rightarrow>
               Some (let m = bar_put bm b bar m in if broadcast then pthread_cond_broadcast pt b m else m)))"

lemma barrier_sleep_step:
  "barrier_sleep pt bm b timeout m =
     (if woken_up pt bm b timeout m
      then Some (the (barrier_woken (fst (barrier_cond_wait pt b timeout m)) (bar_at bm b (snd (barrier_cond_wait pt b timeout m)))),
                 snd (barrier_cond_wait pt b timeout m))
      else barrier_sleep pt bm b timeout (snd (barrier_cond_wait pt b timeout m)))"
  by (subst barrier_sleep.simps) (auto simp: woken_up_def barrier_woken_def split: prod.splits)

lemma barrier_sleep_returns:
  "barrier_sleep pt bm b timeout m \<noteq> None \<longleftrightarrow> (\<exists>k. woken_up pt bm b timeout (after_wakes pt b timeout k m))"
proof
  assume "\<exists>k. woken_up pt bm b timeout (after_wakes pt b timeout k m)"
  then obtain k where "woken_up pt bm b timeout (after_wakes pt b timeout k m)" by blast
  then show "barrier_sleep pt bm b timeout m \<noteq> None"
  proof (induction k arbitrary: m)
    case (Suc k)
    then show ?case by (subst barrier_sleep_step) simp
  qed (subst barrier_sleep_step, simp)
next
  let ?P = "\<lambda>pt' bm' b' timeout' m y. \<exists>k. woken_up pt' bm' b' timeout' (after_wakes pt' b' timeout' k m)"
  assume "barrier_sleep pt bm b timeout m \<noteq> None"
  then obtain y where "barrier_sleep pt bm b timeout m = Some y" by blast
  then show "\<exists>k. woken_up pt bm b timeout (after_wakes pt b timeout k m)"
  proof (rule barrier_sleep.raw_induct[where P = ?P, rotated])
    fix sl pt' bm' b' timeout' m y
    assume IH: "\<And>pt' bm' b' timeout' m y. sl pt' bm' b' timeout' m = Some y \<Longrightarrow> ?P pt' bm' b' timeout' m y"
      and eq: "(case barrier_cond_wait pt' b' timeout' m of
         (rc, m) \<Rightarrow> (case barrier_woken rc (bar_at bm' b' m) of Some r \<Rightarrow> Some (r, m) | None \<Rightarrow> sl pt' bm' b' timeout' m)) = Some y"
    show "?P pt' bm' b' timeout' m y"
    proof (cases "woken_up pt' bm' b' timeout' m")
      case True
      then show ?thesis by (intro exI[of _ 0]) simp
    next
      case False
      obtain rc m1 where w: "barrier_cond_wait pt' b' timeout' m = (rc, m1)" by fastforce
      then have "barrier_woken rc (bar_at bm' b' m1) = None"
        using False by (simp add: woken_up_def barrier_woken_def)
      then obtain k where "woken_up pt' bm' b' timeout' (after_wakes pt' b' timeout' k m1)"
        using eq w IH[of pt' bm' b' timeout' m1 y] by auto
      then show ?thesis using w by (intro exI[of _ "Suc k"]) simp
    qed
  qed
qed

text \<open>
  C12: A call of \<open>wait\<close> returns exactly when it does not go to sleep or one of its
  wake-ups finds the barrier satisfied or is a timeout or an error. Every wake-up
  without either starts the whole timeout again, so a timeout alone bounds nothing
  when the barrier is reset again and again.
\<close>

theorem barrier_wait_returns:
  "barrier_wait pt bm b timeout nonblock m \<noteq> None \<longleftrightarrow>
     (case falls_asleep pt bm b nonblock m of
        None \<Rightarrow> True
      | Some m1 \<Rightarrow> \<exists>k. woken_up pt bm b timeout (after_wakes pt b timeout k m1))"
proof (cases "guard_lock pt b m")
  case (Pair locked m1)
  obtain r bar bc where "barrier_enter nonblock (bar_at bm b m1) = (r, bar, bc)" by (metis prod_cases3)
  then show ?thesis
    by (cases locked; cases r)
      (simp_all add: Pair barrier_wait_def falls_asleep_def Let_def barrier_sleep_returns[symmetric] del: not_None_eq)
qed

text \<open>A process whose every timed sleep is ended by a reset before the deadline
  never returns; one whose first sleep times out does.\<close>

theorem barrier_wait_returns_witness:
  "barrier_wait alone only_barrier 0 (Some ()) False (barrier_new 2) = None \<and>
   barrier_wait (alone\<lparr>pthread_cond_timedwait := \<lambda>_ _. Pair 110\<rparr>) only_barrier 0 (Some ()) False (barrier_new 2) \<noteq> None"
proof -
  have asleep: "falls_asleep pt only_barrier 0 False (barrier_new 2) = Some \<lparr>count = 1, target = 2, satisfied = 0\<rparr>"
    if "pthread_mutex_lock pt = (\<lambda>_. Pair 0)" for pt :: "(barrier, unit) pthread_ops"
    by (simp add: that falls_asleep_def guard_lock_def barrier_enter_def barrier_arrive_def barrier_new_def only_barrier_def)
  have stays: "after_wakes alone 0 (Some ()) k m = m" for k and m :: barrier
    by (induction k) (simp_all add: barrier_cond_wait_def alone_def)
  have "\<not> woken_up alone only_barrier 0 (Some ()) \<lparr>count = 1, target = 2, satisfied = 0\<rparr>"
    by (simp add: woken_up_def barrier_cond_wait_def alone_def only_barrier_def)
  moreover have "falls_asleep alone only_barrier 0 False (barrier_new 2) = Some \<lparr>count = 1, target = 2, satisfied = 0\<rparr>"
    by (rule asleep) (simp add: alone_def)
  ultimately have "barrier_wait alone only_barrier 0 (Some ()) False (barrier_new 2) = None"
    using barrier_wait_returns[of alone only_barrier 0 "Some ()" False "barrier_new 2"] by (simp add: stays del: not_None_eq)
  moreover have "woken_up (alone\<lparr>pthread_cond_timedwait := \<lambda>_ _. Pair 110\<rparr>) only_barrier 0 (Some ())
      (after_wakes (alone\<lparr>pthread_cond_timedwait := \<lambda>_ _. Pair 110\<rparr>) 0 (Some ()) 0 m)" for m
    by (simp add: woken_up_def barrier_cond_wait_def)
  then have "barrier_wait (alone\<lparr>pthread_cond_timedwait := \<lambda>_ _. Pair 110\<rparr>) only_barrier 0 (Some ()) False (barrier_new 2) \<noteq> None"
    unfolding barrier_wait_returns by (auto split: option.split)
  ultimately show ?thesis by blast
qed

end
