(* ===== verification/Mutex.thy ===== *)
theory Mutex
  imports Barrier
begin

text \<open>
  \<open>l_builtin/src/cmd_mutex.rs\<close>: process-shared mutexes. The mutex itself is the
  pthread library's; what it promises to the calling process is stated in
  \<open>errorcheck_laws\<close>.
\<close>

section \<open>Definitions\<close>

definition EOWNERDEAD :: int where "EOWNERDEAD = 130"

definition mutex_init :: "('m, 'f) pthread_ops \<Rightarrow> address \<Rightarrow> bool \<Rightarrow> 'm \<Rightarrow> (unit, unit) result \<times> 'm" where
  "mutex_init pt b robust m =
     (case mutexattr_init pt m of (rc, m) \<Rightarrow> if rc \<noteq> 0 then (Err (), m) else
      case (if robust then mutexattr_setrobust pt m else (0, m)) of (rc, m) \<Rightarrow> if rc \<noteq> 0 then (Err (), m) else
      case pthread_mutex_init pt b robust m of (rc, m) \<Rightarrow> if rc \<noteq> 0 then (Err (), m) else (Ok (), m))"

definition mutex_lock :: "('m, 'f) pthread_ops \<Rightarrow> address \<Rightarrow> 'f option \<Rightarrow> bool \<Rightarrow> 'm \<Rightarrow> cmd_result \<times> 'm" where
  "mutex_lock pt b timeout nonblock m =
     (case (if nonblock then pthread_mutex_trylock pt b m
            else case timeout of
                   Some secs \<Rightarrow> pthread_mutex_timedlock pt b (deadline pt secs m) m
                 | None \<Rightarrow> pthread_mutex_lock pt b m) of
        (rc, m) \<Rightarrow>
          if rc = 0 then (Ok (), m)
          else if rc = EOWNERDEAD then
            (case pthread_mutex_consistent pt b m of
               (rc, m) \<Rightarrow> if rc = 0 then (Ok (), m) else (Err EXECUTION_FAILURE, m))
          else (Err EXECUTION_FAILURE, m))"

definition mutex_unlock :: "('m, 'f) pthread_ops \<Rightarrow> address \<Rightarrow> 'm \<Rightarrow> cmd_result \<times> 'm" where
  "mutex_unlock pt b m =
     (case pthread_mutex_unlock pt b m of (rc, m) \<Rightarrow> if rc = 0 then (Ok (), m) else (Err EXECUTION_FAILURE, m))"

definition mutex_unlock_all :: "('m, 'f) pthread_ops \<Rightarrow> registry \<Rightarrow> 'm \<Rightarrow> 'm" where
  "mutex_unlock_all pt r m = registry_for_each (\<lambda>i ptr m. snd (mutex_unlock pt ptr m)) r m"

section \<open>Subcommands\<close>

record ('m, 'f, 'g) mutex_env =
  m_getopt :: "'g getopt"
  m_vars :: "'m bash_vars"
  m_map :: "'m map_ops"
  m_pt :: "('m, 'f) pthread_ops"
  mutex_bytes :: nat
  m_texts :: "string \<Rightarrow> string \<times> string"

definition store_mutex :: "address \<Rightarrow> string option \<Rightarrow> 'm proc shell \<Rightarrow> 64 word \<times> 'm proc shell" where
  "store_mutex ptr name s =
     (case registry_store ptr name (mutexes (world s)) of (i, r) \<Rightarrow> (i, s\<lparr>world := world s\<lparr>mutexes := r\<rparr>\<rparr>))"

definition lookup_mutex :: "64 word \<Rightarrow> 'm proc shell \<Rightarrow> address option" where
  "lookup_mutex i s = registry_lookup (mutexes (world s)) i"

definition get_mutex_handle :: "64 word \<Rightarrow> 'm proc shell \<Rightarrow> (handle_entry, exit_code) result \<times> 'm proc shell" where
  "get_mutex_handle i s =
     (case registry_take i (mutexes (world s)) of
        (e, r) \<Rightarrow> (ok_or e EXECUTION_FAILURE, s\<lparr>world := world s\<lparr>mutexes := r\<rparr>\<rparr>))"

definition mutex_create_fields :: "'m bash_vars \<Rightarrow> 'm \<Rightarrow> 'f arg field list" where
  "mutex_create_fields bv m =
     [Field ''robust'' (Flag_kind (CHR ''r'')) text_conv, name_option, var_field bv m ''mutex'']"

definition mutex_create_subcommand :: "('m, 'f, 'g) mutex_env \<Rightarrow> 'm proc handler" where
  "mutex_create_subcommand E list s =
     (let s = cmd_enter (described (m_texts E) ''create'') s in
      with_args (m_getopt E) (mutex_create_fields (m_vars E) (sys (world s)) :: 'f arg field list) list s (\<lambda>vs.
      let name = str_opt (arg vs 1) in
      case on_sys (map_for_create (m_map E) name (mutex_bytes E)) s of
        (None, s) \<Rightarrow> done_with (Err EXECUTION_FAILURE) s
      | (Some ptr, s) \<Rightarrow>
     (case on_sys (mutex_init (m_pt E) ptr (flag_of (arg vs 0))) s of
        (Err _, s) \<Rightarrow> done_with (Err EXECUTION_FAILURE) (set_sys (munmap (m_map E) ptr (mutex_bytes E) (sys (world s))) s)
      | (Ok _, s) \<Rightarrow>
     (case store_mutex ptr name s of
        (i, s) \<Rightarrow> set_handle_var (m_vars E) (str_of (arg vs 2)) i s))))"

definition mutex_open_subcommand :: "('m, 'f, 'g) mutex_env \<Rightarrow> 'm proc handler" where
  "mutex_open_subcommand E list s =
     (let s = cmd_enter (described (m_texts E) ''open'') s in
      with_args (m_getopt E) ([var_field (m_vars E) (sys (world s)) ''mutex'', text_field ''name''] :: 'f arg field list) list s (\<lambda>vs.
      let name = str_of (arg vs 1) in
      case on_sys (map_named (m_map E) name (mutex_bytes E) False) s of
        (None, s) \<Rightarrow> done_with (Err EXECUTION_FAILURE) s
      | (Some ptr, s) \<Rightarrow>
     (case store_mutex ptr (Some name) s of
        (i, s) \<Rightarrow> set_handle_var (m_vars E) (str_of (arg vs 0)) i s)))"

definition mutex_lock_fields :: "('m, 'f) pthread_ops \<Rightarrow> 'f arg field list" where
  "mutex_lock_fields pt = wait_options (parse_float pt) @ [id_field ''mutex'']"

definition mutex_lock_subcommand :: "('m, 'f, 'g) mutex_env \<Rightarrow> 'm proc handler" where
  "mutex_lock_subcommand E list s =
     (let s = cmd_enter (described (m_texts E) ''lock'') s in
      with_args (m_getopt E) (mutex_lock_fields (m_pt E)) list s (\<lambda>vs.
      case lookup_mutex (id_of (arg vs 2)) s of
        None \<Rightarrow> done_with (Err EXECUTION_FAILURE) s
      | Some ptr \<Rightarrow>
     (case on_sys (mutex_lock (m_pt E) ptr (f64_opt (arg vs 1)) (flag_of (arg vs 0))) s of (r, s) \<Rightarrow> done_with r s)))"

definition mutex_unlock_fields :: "'f arg field list" where
  "mutex_unlock_fields =
     [Field ''all'' (Flag_kind (CHR ''a'')) text_conv, Field ''mutex'' (Optional_kind None) (uint_conv 64)]"

definition mutex_unlock_subcommand :: "('m, 'f, 'g) mutex_env \<Rightarrow> 'm proc handler" where
  "mutex_unlock_subcommand E list s =
     (let s = cmd_enter (described (m_texts E) ''unlock'') s in
      with_args (m_getopt E) (mutex_unlock_fields :: 'f arg field list) list s (\<lambda>vs.
      if flag_of (arg vs 0) then
        done_with (Ok ()) (set_sys (mutex_unlock_all (m_pt E) (mutexes (world s)) (sys (world s))) s)
      else case nat_opt (arg vs 1) of
        None \<Rightarrow> done_with (Err EX_USAGE) s
      | Some i \<Rightarrow>
     (case lookup_mutex (of_nat i) s of
        None \<Rightarrow> done_with (Err EXECUTION_FAILURE) s
      | Some ptr \<Rightarrow>
     (case on_sys (mutex_unlock (m_pt E) ptr) s of (r, s) \<Rightarrow> done_with r s))))"

definition mutex_close_subcommand :: "('m, 'f, 'g) mutex_env \<Rightarrow> 'm proc handler" where
  "mutex_close_subcommand E list s =
     (let s = cmd_enter (described (m_texts E) ''close'') s in
      with_args (m_getopt E) ([id_field ''mutex''] :: 'f arg field list) list s (\<lambda>vs.
      case get_mutex_handle (id_of (arg vs 0)) s of
        (Err e, s) \<Rightarrow> done_with (Err e) s
      | (Ok e, s) \<Rightarrow> done_with (Ok ()) (set_sys (munmap (m_map E) (he_ptr e) (mutex_bytes E) (sys (world s))) s)))"

definition mutex_destroy_subcommand :: "('m, 'f, 'g) mutex_env \<Rightarrow> 'm proc handler" where
  "mutex_destroy_subcommand E list s =
     (let s = cmd_enter (described (m_texts E) ''destroy'') s in
      with_args (m_getopt E) ([id_field ''mutex''] :: 'f arg field list) list s (\<lambda>vs.
      case get_mutex_handle (id_of (arg vs 0)) s of
        (Err e, s) \<Rightarrow> done_with (Err e) s
      | (Ok e, s) \<Rightarrow>
          (let m = munmap (m_map E) (he_ptr e) (mutex_bytes E) (sys (world s));
               m = (case he_name e of Some n \<Rightarrow> shm_unlink (m_map E) n m | None \<Rightarrow> m)
           in done_with (Ok ()) (set_sys m s))))"

definition mutex_subcommands :: "('m, 'f, 'g) mutex_env \<Rightarrow> (string \<times> 'm proc handler) list" where
  "mutex_subcommands E =
     [(''create'', mutex_create_subcommand E), (''open'', mutex_open_subcommand E),
      (''lock'', mutex_lock_subcommand E), (''unlock'', mutex_unlock_subcommand E),
      (''close'', mutex_close_subcommand E), (''destroy'', mutex_destroy_subcommand E)]"

definition mutex_table :: "('m, 'f, 'g) mutex_env \<Rightarrow> (64 word, 'm proc handler) int_lookup run" where
  "mutex_table E = int_lookup_new 6 (mutex_subcommands E)"

definition mutex_subcommand :: "('m, 'f, 'g) mutex_env \<Rightarrow> 'm proc handler" where
  "mutex_subcommand E =
     subcommand_group (m_getopt E) (described (m_texts E) ''mutex'')
       (\<lambda>q. bindR (mutex_table E) (\<lambda>t. lookup t q))"

section \<open>Ownership\<close>

text \<open>The state of a mutex as the calling process sees it. \<open>Mine_inconsistent\<close>: the
  caller got it from a dead owner and has not repaired it.\<close>

datatype ownership = Mine | Mine_inconsistent | Not_mine

text \<open>What an error-checking, possibly robust mutex promises its caller: a lock
  call on a mutex the caller has fails, a success makes it the caller's, \<open>EOWNERDEAD\<close>
  makes it the caller's to repair, any other failure changes nothing; unlocking
  releases what the caller has and fails on the rest; a call on one mutex does
  not change whether the caller has another.\<close>

definition lock_law :: "('m \<Rightarrow> address \<Rightarrow> ownership) \<Rightarrow> address \<Rightarrow> 'm \<Rightarrow> int \<times> 'm \<Rightarrow> bool" where
  "lock_law own b m res \<longleftrightarrow>
     (let (rc, m') = res in
      (own m b \<noteq> Not_mine \<longrightarrow> rc \<noteq> 0 \<and> rc \<noteq> EOWNERDEAD) \<and>
      own m' b = (if rc = 0 then Mine else if rc = EOWNERDEAD then Mine_inconsistent else own m b) \<and>
      (\<forall>b'. b' \<noteq> b \<longrightarrow> own m' b' = own m b'))"

definition errorcheck_laws :: "('m, 'f) pthread_ops \<Rightarrow> ('m \<Rightarrow> address \<Rightarrow> ownership) \<Rightarrow> bool" where
  "errorcheck_laws pt own \<longleftrightarrow>
     (\<forall>b m. lock_law own b m (pthread_mutex_lock pt b m)) \<and>
     (\<forall>b m. lock_law own b m (pthread_mutex_trylock pt b m)) \<and>
     (\<forall>b ts m. lock_law own b m (pthread_mutex_timedlock pt b ts m)) \<and>
     (\<forall>b m rc m'. pthread_mutex_consistent pt b m = (rc, m') \<longrightarrow>
        own m' b = (if rc = 0 then Mine else own m b) \<and> (\<forall>b'. b' \<noteq> b \<longrightarrow> own m' b' = own m b')) \<and>
     (\<forall>b m rc m'. pthread_mutex_unlock pt b m = (rc, m') \<longrightarrow>
        (rc = 0 \<longleftrightarrow> own m b \<noteq> Not_mine) \<and> own m' b = Not_mine \<and> (\<forall>b'. b' \<noteq> b \<longrightarrow> own m' b' = own m b'))"

lemma mutex_unlock_ownership:
  assumes "errorcheck_laws pt own" "mutex_unlock pt b m = (r, m')"
  shows "(r = Ok () \<longleftrightarrow> own m b \<noteq> Not_mine) \<and> own m' b = Not_mine \<and> (\<forall>b'. b' \<noteq> b \<longrightarrow> own m' b' = own m b')"
proof -
  obtain rc m1 where u: "pthread_mutex_unlock pt b m = (rc, m1)" by fastforce
  have "(rc = 0 \<longleftrightarrow> own m b \<noteq> Not_mine) \<and> own m1 b = Not_mine \<and> (\<forall>b'. b' \<noteq> b \<longrightarrow> own m1 b' = own m b')"
    using assms(1) u unfolding errorcheck_laws_def by blast
  moreover have "m' = m1" "r = Ok () \<longleftrightarrow> rc = 0" using assms(2) u by (auto simp: mutex_unlock_def split: if_splits)
  ultimately show ?thesis by simp
qed

lemma unlock_fold:
  assumes "errorcheck_laws pt own"
  shows "own (fold (\<lambda>(i, e) m. snd (mutex_unlock pt (he_ptr e) m)) xs m) b =
    (if b \<in> (he_ptr \<circ> snd) ` set xs then Not_mine else own m b)"
proof (induction xs arbitrary: m)
  case (Cons x xs)
  obtain i e where x: "x = (i, e)" by fastforce
  obtain r m' where u: "mutex_unlock pt (he_ptr e) m = (r, m')" by fastforce
  have "own m' b = (if b = he_ptr e then Not_mine else own m b)" using mutex_unlock_ownership[OF assms u] by auto
  then show ?case using Cons.IH[of m'] by (auto simp: x u)
qed simp

text \<open>A process alone with its mutexes; \<open>m b\<close> is the state of the mutex at \<open>b\<close>.\<close>

definition solo_lock :: "address \<Rightarrow> (address \<Rightarrow> ownership) \<Rightarrow> int \<times> (address \<Rightarrow> ownership)" where
  "solo_lock b m = (if m b = Not_mine then (0, m(b := Mine)) else (35, m))"

definition solo_unlock :: "address \<Rightarrow> (address \<Rightarrow> ownership) \<Rightarrow> int \<times> (address \<Rightarrow> ownership)" where
  "solo_unlock b m = (if m b = Not_mine then (1, m) else (0, m(b := Not_mine)))"

definition solo_mutexes :: "(address \<Rightarrow> ownership, unit) pthread_ops" where
  "solo_mutexes = alone\<lparr>pthread_mutex_lock := solo_lock, pthread_mutex_trylock := solo_lock,
     pthread_mutex_timedlock := \<lambda>b _. solo_lock b, pthread_mutex_unlock := solo_unlock,
     pthread_mutex_consistent := \<lambda>b m. (0, m(b := Mine))\<rparr>"

lemma solo_laws: "errorcheck_laws solo_mutexes (\<lambda>m. m)"
  by (auto simp: errorcheck_laws_def lock_law_def solo_mutexes_def solo_lock_def solo_unlock_def EOWNERDEAD_def Let_def)

text \<open>
  C13: \<open>mutex lock\<close> returns success exactly when it gave the caller a mutex that it
  did not have, repaired if its owner had died; when it fails the caller has it no
  more than before, but for one whose repair failed; other mutexes are untouched.
\<close>

theorem mutex_lock_ownership:
  assumes "errorcheck_laws pt own" "mutex_lock pt b timeout nonblock m = (r, m')"
  shows "(r = Ok () \<longrightarrow> own m b = Not_mine \<and> own m' b = Mine) \<and>
    (r \<noteq> Ok () \<longrightarrow> own m' b = own m b \<or> own m b = Not_mine \<and> own m' b = Mine_inconsistent) \<and>
    (\<forall>b'. b' \<noteq> b \<longrightarrow> own m' b' = own m b')"
proof -
  define res where "res = (if nonblock then pthread_mutex_trylock pt b m
            else case timeout of
                   Some secs \<Rightarrow> pthread_mutex_timedlock pt b (deadline pt secs m) m
                 | None \<Rightarrow> pthread_mutex_lock pt b m)"
  have law: "lock_law own b m res"
    using assms(1) by (simp add: errorcheck_laws_def res_def split: option.splits)
  obtain rc m1 where res: "res = (rc, m1)" by fastforce
  obtain rc2 m2 where con: "pthread_mutex_consistent pt b m1 = (rc2, m2)" by fastforce
  have con': "own m2 b = (if rc2 = 0 then Mine else own m1 b)" "\<And>b'. b' \<noteq> b \<Longrightarrow> own m2 b' = own m1 b'"
    using assms(1) con unfolding errorcheck_laws_def by blast+
  show ?thesis
    using assms(2) law con' unfolding mutex_lock_def res_def[symmetric] res
    by (auto simp: con lock_law_def split: if_splits)
qed

theorem mutex_lock_ownership_witness:
  "mutex_lock solo_mutexes 8 None True (\<lambda>_. Not_mine) = (Ok (), (\<lambda>_. Not_mine)(8 := Mine)) \<and>
   ((\<lambda>_. Not_mine)(8 := Mine)) (8 :: address) = Mine"
proof -
  have l: "mutex_lock solo_mutexes 8 None True (\<lambda>_. Not_mine) = (Ok (), (\<lambda>_. Not_mine)(8 := Mine))"
    by (simp add: mutex_lock_def solo_mutexes_def solo_lock_def)
  show ?thesis using mutex_lock_ownership[OF solo_laws l] l by blast
qed

text \<open>
  \<open>mutex unlock -a\<close> succeeds and leaves the caller without any mutex that has a
  handle, and every other mutex as it was.
\<close>

lemma mutex_unlock_all_releases:
  assumes "errorcheck_laws (m_pt E) own" "registry_inv (mutexes (world s))"
    and "parse (m_getopt E) (mutex_unlock_fields :: 'f arg field list) list = Some (Ok [Boolean True, v])"
  shows "\<exists>s'. mutex_unlock_subcommand (E :: ('m, 'f, 'g) mutex_env) list s = Some (Val (Ok (), s')) \<and>
    mutexes (world s') = mutexes (world s) \<and>
    (\<forall>b. own (sys (world s')) b =
       (if \<exists>i. registry_lookup (mutexes (world s)) i = Some b then Not_mine else own (sys (world s)) b))"
proof -
  let ?s = "cmd_enter (described (m_texts E) ''unlock'') s"
  let ?r = "mutexes (world s)"
  have "mutex_unlock_subcommand E list s =
      Some (Val (Ok (), set_sys (mutex_unlock_all (m_pt E) ?r (sys (world s))) ?s))"
    by (simp add: mutex_unlock_subcommand_def with_args_def assms(3) done_with_def Let_def)
  moreover have "b \<in> (he_ptr \<circ> snd) ` set (reg_map ?r) \<longleftrightarrow> (\<exists>i. registry_lookup ?r i = Some b)" for b
    using assms(2) by (force simp: registry_lookup_def registry_inv_def dest: map_of_SomeD)
  ultimately show ?thesis
    using unlock_fold[OF assms(1), of "reg_map ?r" "sys (world s)"]
    by (simp add: mutex_unlock_all_def registry_for_each_def)
qed

text \<open>Any scanner that hands over the words as they are.\<close>

definition solo_env :: "(address \<Rightarrow> ownership) map_ops \<Rightarrow> (char \<times> string) list getopt \<Rightarrow> (address \<Rightarrow> ownership, unit, (char \<times> string) list) mutex_env" where
  "solo_env mp g = \<lparr>m_getopt = g, m_vars = \<lparr>legal_identifier = \<lambda>_. True, var_readonly = \<lambda>_ _. False, bind_variable = \<lambda>_ _. Pair True\<rparr>,
     m_map = mp, m_pt = solo_mutexes, mutex_bytes = 40, m_texts = \<lambda>_. ([], [])\<rparr>"

definition solo_map :: "'m map_ops" where
  "solo_map = \<lparr>mmap_anonymous = \<lambda>_. Pair (Some 4096), shm_open = \<lambda>_ _. Pair (Some 90), ftruncate = \<lambda>_ _. Pair True,
     mmap_shared = \<lambda>_ _. Pair (Some 8192), close_fd = \<lambda>_ m. m, munmap = \<lambda>_ _ m. m, shm_unlink = \<lambda>_ m. m\<rparr>"

definition solo_shell :: "registry \<Rightarrow> 'm \<Rightarrow> 'm proc shell" where
  "solo_shell r m = \<lparr>this_command = [], short_doc = [], long_doc = [],
     world = \<lparr>barriers = registry_new, mutexes = r, semaphores = registry_new, sys = m\<rparr>\<rparr>"

lemma parse_unlock_all:
  "parse (demo_getopt [(CHR ''a'', [])] []) (mutex_unlock_fields :: 'f arg field list) [] = Some (Ok [Boolean True, Absent])"
proof -
  have "getopt_yields (demo_getopt [(CHR ''a'', [])] []) [] (optstring (mutex_unlock_fields :: 'f arg field list))
     (getopt_reset (demo_getopt [(CHR ''a'', [])] [])) [(CHR ''a'', [])] []"
    using demo_getopt_yields[of "[(CHR ''a'', [])]"] by (simp add: demo_getopt_def)
  then show ?thesis
    by (simp add: parse_yields mutex_unlock_fields_def new_default_def words_next_def iter_current_def iter_advance_def has_rest_def)
qed

lemma mutex_unlock_all_releases_witness:
  "\<exists>s'. mutex_unlock_subcommand (solo_env solo_map (demo_getopt [(CHR ''a'', [])] [])) []
       (solo_shell (snd (registry_store 4096 None registry_new)) (\<lambda>b. if b = 4096 \<or> b = 8192 then Mine else Not_mine)) = Some (Val (Ok (), s')) \<and>
     sys (world s') 4096 = Not_mine \<and> sys (world s') 8192 = Mine"
proof -
  let ?E = "solo_env solo_map (demo_getopt [(CHR ''a'', [])] [])"
  let ?r = "snd (registry_store 4096 None registry_new)"
  let ?s = "solo_shell ?r (\<lambda>b :: address. if b = 4096 \<or> b = 8192 then Mine else Not_mine)"
  have E: "m_pt ?E = solo_mutexes" "m_getopt ?E = demo_getopt [(CHR ''a'', [])] []" by (simp_all add: solo_env_def)
  have r: "mutexes (world ?s) = ?r" "registry_inv ?r" "registry_lookup ?r i = (if i = 1 then Some 4096 else None)" for i
    by (simp_all add: solo_shell_def registry_store_def registry_new_def registry_inv_def registry_lookup_def Let_def)
  have p: "parse (m_getopt ?E) (mutex_unlock_fields :: unit arg field list) [] = Some (Ok [Boolean True, Absent])"
    unfolding E by (rule parse_unlock_all)
  have l: "errorcheck_laws (m_pt ?E) (\<lambda>m. m)" unfolding E by (rule solo_laws)
  have i: "registry_inv (mutexes (world ?s))" using r by simp
  obtain s' where s': "mutex_unlock_subcommand ?E [] ?s = Some (Val (Ok (), s'))"
    "\<And>b. sys (world s') b = (if \<exists>i. registry_lookup ?r i = Some b then Not_mine else sys (world ?s) b)"
    using mutex_unlock_all_releases[OF l i p] unfolding r(1) by blast
  moreover have "sys (world s') 4096 = Not_mine" "sys (world s') 8192 = Mine"
    by (simp_all add: s'(2) r(3) solo_shell_def)
  ultimately show ?thesis by blast
qed

text \<open>
  \<open>mutex create\<close> leaves in the variable the decimal text of a handle that was
  unknown before; parsed back as the argument of \<open>lock\<close>, \<open>unlock\<close>, \<open>close\<close> or
  \<open>destroy\<close> it resolves to the memory that was mapped and initialized.
\<close>

lemma mutex_create_handle_roundtrip:
  fixes E :: "('m, 'f, 'g) mutex_env"
  assumes "parse (m_getopt E) (mutex_create_fields (m_vars E) (sys (world s)) :: 'f arg field list) list =
      Some (Ok [Boolean robust, name, Value (Str_arg var)])"
    and "map_for_create (m_map E) (str_opt name) (mutex_bytes E) (sys (world s)) = (Some ptr, m1)"
    and "mutex_init (m_pt E) ptr robust m1 = (Ok (), m2)"
    and "bash_var_set (m_vars E) var text m2 = (r, m3)" "text = dec (unat (reg_next (mutexes (world s))))"
    and "registry_inv (mutexes (world s))" "registry_room (mutexes (world s))"
  shows "\<exists>s' i. mutex_create_subcommand E list s = Some (Val (r, s')) \<and> sys (world s') = m3 \<and>
    (uint_conv 64 text :: 'f arg option) = Some (Nat_arg (unat i)) \<and>
    lookup_mutex i s = None \<and> lookup_mutex i s' = Some ptr"
proof -
  let ?i = "reg_next (mutexes (world s))"
  let ?s1 = "cmd_enter (described (m_texts E) ''create'') s"
  obtain s3 where s3: "store_mutex ptr (str_opt name) (set_sys m2 (set_sys m1 ?s1)) = (?i, s3)"
      "sys (world s3) = m2" "mutexes (world s3) = snd (registry_store ptr (str_opt name) (mutexes (world s)))"
    by (auto simp: store_mutex_def registry_store_def Let_def)
  have 1: "on_sys (map_for_create (m_map E) (str_opt name) (mutex_bytes E)) ?s1 = (Some ptr, set_sys m1 ?s1)"
    by (rule on_sys_eq) (simp add: assms(2))
  have 2: "on_sys (mutex_init (m_pt E) ptr robust) (set_sys m1 ?s1) = (Ok (), set_sys m2 (set_sys m1 ?s1))"
    by (rule on_sys_eq) (simp add: assms(3))
  have "mutex_create_subcommand E list s = Some (Val (r, set_sys m3 s3))"
    using assms(4) unfolding assms(5)
    by (simp add: mutex_create_subcommand_def with_args_def assms(1) 1 2 s3 Let_def set_handle_var_text)
  moreover have "fst (registry_store ptr (str_opt name) (mutexes (world s))) = ?i"
    by (simp add: registry_store_def Let_def)
  then have "lookup_mutex ?i (set_sys m3 s3) = Some ptr" "\<not> registry_issued (mutexes (world s)) ?i"
    using reg.store_find[OF assms(6,7)] by (simp_all add: lookup_mutex_def s3(3) registry_issued_def)
  moreover from this(2) have "lookup_mutex ?i s = None"
    using reg.find_issued[OF assms(6)] unfolding lookup_mutex_def by blast
  ultimately show ?thesis
    using handle_text_parses[of ?i] unfolding assms(5)
    by (intro exI[of _ "set_sys m3 s3"] exI[of _ ?i]) simp
qed

lemma parse_create:
  "parse (demo_getopt [] [Some ''m'']) (mutex_create_fields (m_vars (solo_env mp g)) m :: 'f arg field list) [] =
     Some (Ok [Boolean False, Absent, Value (Str_arg ''m'')])"
proof -
  have "getopt_yields (demo_getopt [] [Some ''m'']) [] (optstring (mutex_create_fields (m_vars (solo_env mp g)) m :: 'f arg field list))
     (getopt_reset (demo_getopt [] [Some ''m''])) [] [Some ''m'']"
    using demo_getopt_yields[of "[]"] by (simp add: demo_getopt_def)
  then show ?thesis
    by (simp add: parse_yields mutex_create_fields_def name_option_def var_field_def new_default_def words_next_def
        iter_current_def iter_advance_def has_rest_def var_conv_def bash_var_validate_def solo_env_def)
qed

lemma mutex_create_handle_roundtrip_witness:
  "\<exists>s' i. mutex_create_subcommand (solo_env solo_map (demo_getopt [] [Some ''m''])) []
       (solo_shell registry_new (\<lambda>_. Not_mine)) = Some (Val (Ok (), s')) \<and> lookup_mutex i s' = Some 4096"
proof -
  let ?E = "solo_env solo_map (demo_getopt [] [Some ''m''])"
  let ?s = "solo_shell registry_new (\<lambda>_. Not_mine)"
  have "parse (m_getopt ?E) (mutex_create_fields (m_vars ?E) (sys (world ?s))) [] =
      Some (Ok [Boolean False, Absent, Value (Str_arg ''m'')])"
    using parse_create[of solo_map "demo_getopt [] [Some ''m'']"] by (simp add: solo_env_def)
  moreover have "map_for_create (m_map ?E) (str_opt (Absent :: unit arg field_value)) (mutex_bytes ?E) (sys (world ?s)) = (Some 4096, \<lambda>_. Not_mine)"
    by (simp add: map_for_create_def map_anonymous_def solo_env_def solo_map_def solo_shell_def)
  moreover have "mutex_init (m_pt ?E) 4096 False (\<lambda>_. Not_mine) = (Ok (), \<lambda>_. Not_mine)"
    by (simp add: mutex_init_def solo_env_def solo_mutexes_def alone_def)
  moreover have "bash_var_set (m_vars ?E) ''m'' x (\<lambda>_. Not_mine) = (Ok (), \<lambda>_. Not_mine)" for x
    by (simp add: bash_var_set_def l_bind_variable_check_def solo_env_def)
  moreover have "registry_inv (mutexes (world ?s))" "registry_room (mutexes (world ?s))"
    using registry_new_inv by (simp_all add: solo_shell_def registry_room_def registry_new_def)
  ultimately show ?thesis
    using mutex_create_handle_roundtrip[of ?E ?s "[]" False Absent "''m''" 4096] by blast
qed

text \<open>
  Once \<open>mutex close\<close> has succeeded on a handle, \<open>mutex lock\<close> on it fails without
  touching the system.
\<close>

lemma mutex_closed_rejected:
  fixes E :: "('m, 'f, 'g) mutex_env"
  assumes "parse (m_getopt E) ([id_field ''mutex''] :: 'f arg field list) list = Some (Ok [Value (Nat_arg i)])"
    and "mutex_close_subcommand E list s = Some (Val (Ok (), s'))"
    and "parse (m_getopt E) (mutex_lock_fields (m_pt E)) list' = Some (Ok [nb, timeout, Value (Nat_arg i)])"
  shows "\<exists>s''. mutex_lock_subcommand E list' s' = Some (Val (Err EXECUTION_FAILURE, s'')) \<and> world s'' = world s'"
proof -
  have "lookup_mutex (of_nat i) s' = None"
    using assms(2) by (auto simp: mutex_close_subcommand_def with_args_def assms(1) get_mutex_handle_def registry_take_def
        lookup_mutex_def registry_lookup_def delete_conv' done_with_def set_sys_def Let_def split: result.splits)
  then show ?thesis
    by (simp add: mutex_lock_subcommand_def with_args_def assms(3) lookup_mutex_def done_with_def Let_def)
qed

lemma uint_one: "uint_conv 64 ''1'' = Some (Nat_arg (Suc 0))"
  using handle_text_parses[of 1] by (simp add: dec_eval)

lemma parse_id: "parse (demo_getopt [] [Some ''1'']) ([id_field n] :: 'f arg field list) [] = Some (Ok [Value (Nat_arg 1)])"
    and parse_lock: "parse (demo_getopt [] [Some ''1'']) (mutex_lock_fields pt) [] = Some (Ok [Boolean False, Absent, Value (Nat_arg 1)])"
proof -
  have y: "getopt_yields (demo_getopt [] [Some ''1'']) [] os (getopt_reset (demo_getopt [] [Some ''1''])) [] [Some ''1'']" for os
    using demo_getopt_yields[of "[]"] by (simp add: demo_getopt_def)
  show "parse (demo_getopt [] [Some ''1'']) ([id_field n] :: 'f arg field list) [] = Some (Ok [Value (Nat_arg 1)])"
    "parse (demo_getopt [] [Some ''1'']) (mutex_lock_fields pt) [] = Some (Ok [Boolean False, Absent, Value (Nat_arg 1)])"
    by (simp_all add: parse_yields[OF y] uint_one mutex_lock_fields_def wait_options_def id_field_def new_default_def words_next_def
        iter_current_def iter_advance_def has_rest_def)
qed

lemma mutex_closed_rejected_at:
  "\<exists>s' s''. mutex_close_subcommand (solo_env solo_map (demo_getopt [] [Some ''1''])) []
       (solo_shell (snd (registry_store 4096 None registry_new)) (\<lambda>_. Not_mine)) = Some (Val (Ok (), s')) \<and>
     mutex_lock_subcommand (solo_env solo_map (demo_getopt [] [Some ''1''])) [] s' = Some (Val (Err EXECUTION_FAILURE, s''))"
proof -
  let ?E = "solo_env solo_map (demo_getopt [] [Some ''1''])"
  let ?s = "solo_shell (snd (registry_store 4096 None registry_new)) (\<lambda>_. Not_mine)"
  have g: "m_getopt ?E = demo_getopt [] [Some ''1'']" by (simp add: solo_env_def)
  obtain s' where c: "mutex_close_subcommand ?E [] ?s = Some (Val (Ok (), s'))"
    by (simp add: mutex_close_subcommand_def with_args_def g parse_id get_mutex_handle_def registry_take_def registry_store_def
        registry_new_def solo_shell_def done_with_def Let_def)
  have p: "parse (m_getopt ?E) ([id_field ''mutex''] :: unit arg field list) [] = Some (Ok [Value (Nat_arg 1)])"
    unfolding g by (rule parse_id)
  have q: "parse (m_getopt ?E) (mutex_lock_fields (m_pt ?E)) [] = Some (Ok [Boolean False, Absent, Value (Nat_arg 1)])"
    unfolding g by (rule parse_lock)
  show ?thesis
    using mutex_closed_rejected[OF p c q] c by metis
qed

end
