(* ===== verification/Semaphore.thy ===== *)
theory Semaphore
  imports Mutex
begin

text \<open>
  \<open>l_builtin/src/cmd_semaphore.rs\<close>: process-shared counting semaphores, anonymous
  ones in shared memory and named ones of the kernel. The semaphore functions are
  parameters.
\<close>

section \<open>Definitions\<close>

record ('m, 'f) sem_ops =
  sem_open :: "string \<Rightarrow> bool \<Rightarrow> 32 word \<Rightarrow> 'm \<Rightarrow> address option \<times> 'm"
  sem_init :: "address \<Rightarrow> 32 word \<Rightarrow> 'm \<Rightarrow> int \<times> 'm"
  sem_wait :: "address \<Rightarrow> 'm \<Rightarrow> int \<times> 'm"
  sem_trywait :: "address \<Rightarrow> 'm \<Rightarrow> int \<times> 'm"
  sem_timedwait :: "address \<Rightarrow> timespec \<Rightarrow> 'm \<Rightarrow> int \<times> 'm"
  sem_post :: "address \<Rightarrow> 'm \<Rightarrow> int \<times> 'm"
  sem_close :: "address \<Rightarrow> 'm \<Rightarrow> 'm"
  sem_destroy :: "address \<Rightarrow> 'm \<Rightarrow> 'm"

record ('m, 'f, 'g) semaphore_env =
  s_getopt :: "'g getopt"
  s_vars :: "'m bash_vars"
  s_map :: "'m map_ops"
  s_pt :: "('m, 'f) pthread_ops"
  s_sem :: "('m, 'f) sem_ops"
  semaphore_bytes :: nat
  s_texts :: "string \<Rightarrow> string \<times> string"

definition ret_code :: "int \<times> 'm \<Rightarrow> cmd_result \<times> 'm" where
  "ret_code res = (case res of (rc, m) \<Rightarrow> if rc = 0 then (Ok (), m) else (Err EXECUTION_FAILURE, m))"

definition semaphore_wait ::
    "('m, 'f) pthread_ops \<Rightarrow> ('m, 'f) sem_ops \<Rightarrow> address \<Rightarrow> 'f option \<Rightarrow> bool \<Rightarrow> 'm \<Rightarrow> cmd_result \<times> 'm" where
  "semaphore_wait pt so sem timeout nonblock m =
     (if nonblock then ret_code (sem_trywait so sem m)
      else case timeout of
             Some secs \<Rightarrow> ret_code (sem_timedwait so sem (deadline pt secs m) m)
           | None \<Rightarrow> ret_code (sem_wait so sem m))"

definition semaphore_post :: "('m, 'f) sem_ops \<Rightarrow> address \<Rightarrow> 'm \<Rightarrow> cmd_result \<times> 'm" where
  "semaphore_post so sem m = ret_code (sem_post so sem m)"

definition semaphore_teardown :: "('m, 'f, 'g) semaphore_env \<Rightarrow> handle_entry \<Rightarrow> bool \<Rightarrow> 'm \<Rightarrow> 'm" where
  "semaphore_teardown E e unlink m =
     (case he_name e of
        Some n \<Rightarrow>
          (let m = sem_close (s_sem E) (he_ptr e) m
           in if unlink then shm_unlink (s_map E) n m else m)
      | None \<Rightarrow> munmap (s_map E) (he_ptr e) (semaphore_bytes E) (sem_destroy (s_sem E) (he_ptr e) m))"

text \<open>The memory of \<open>create\<close>; \<open>None\<close> after an error.\<close>

definition semaphore_create :: "('m, 'f, 'g) semaphore_env \<Rightarrow> string option \<Rightarrow> 32 word \<Rightarrow> 'm \<Rightarrow> address option \<times> 'm" where
  "semaphore_create E name v m =
     (case name of
        Some n \<Rightarrow> sem_open (s_sem E) n True v m
      | None \<Rightarrow>
          (case map_anonymous (s_map E) (semaphore_bytes E) m of
             (None, m) \<Rightarrow> (None, m)
           | (Some p, m) \<Rightarrow>
               (case sem_init (s_sem E) p v m of
                  (rc, m) \<Rightarrow> if rc \<noteq> 0 then (None, munmap (s_map E) p (semaphore_bytes E) m) else (Some p, m))))"

section \<open>Subcommands\<close>

definition store_semaphore :: "address \<Rightarrow> string option \<Rightarrow> 'm proc shell \<Rightarrow> 64 word \<times> 'm proc shell" where
  "store_semaphore ptr name s =
     (case registry_store ptr name (semaphores (world s)) of (i, r) \<Rightarrow> (i, s\<lparr>world := world s\<lparr>semaphores := r\<rparr>\<rparr>))"

definition lookup_semaphore :: "64 word \<Rightarrow> 'm proc shell \<Rightarrow> address option" where
  "lookup_semaphore i s = registry_lookup (semaphores (world s)) i"

definition take_semaphore :: "64 word \<Rightarrow> 'm proc shell \<Rightarrow> handle_entry option \<times> 'm proc shell" where
  "take_semaphore i s =
     (case registry_take i (semaphores (world s)) of (e, r) \<Rightarrow> (e, s\<lparr>world := world s\<lparr>semaphores := r\<rparr>\<rparr>))"

definition semaphore_create_fields :: "'m bash_vars \<Rightarrow> 'm \<Rightarrow> 'f arg field list" where
  "semaphore_create_fields bv m =
     [name_option, var_field bv m ''var'', Field ''count'' (Positional_kind (Nat_arg 0)) (uint_conv 32)]"

definition semaphore_wait_fields :: "('m, 'f) pthread_ops \<Rightarrow> 'f arg field list" where
  "semaphore_wait_fields pt = wait_options (parse_float pt) @ [id_field ''var'']"

definition semaphore_create_subcommand :: "('m, 'f, 'g) semaphore_env \<Rightarrow> 'm proc handler" where
  "semaphore_create_subcommand E list s =
     (let s = cmd_enter (described (s_texts E) ''create'') s in
      with_args (s_getopt E) (semaphore_create_fields (s_vars E) (sys (world s)) :: 'f arg field list) list s (\<lambda>vs.
      let name = str_opt (arg vs 0) in
      case on_sys (semaphore_create E name (of_nat (nat_of (arg vs 2)))) s of
        (None, s) \<Rightarrow> done_with (Err EXECUTION_FAILURE) s
      | (Some ptr, s) \<Rightarrow>
     (case store_semaphore ptr name s of
        (i, s) \<Rightarrow> set_handle_var (s_vars E) (str_of (arg vs 1)) i s)))"

definition semaphore_open_subcommand :: "('m, 'f, 'g) semaphore_env \<Rightarrow> 'm proc handler" where
  "semaphore_open_subcommand E list s =
     (let s = cmd_enter (described (s_texts E) ''open'') s in
      with_args (s_getopt E) ([var_field (s_vars E) (sys (world s)) ''var'', text_field ''name''] :: 'f arg field list) list s (\<lambda>vs.
      let name = str_of (arg vs 1) in
      case on_sys (sem_open (s_sem E) name False 0) s of
        (None, s) \<Rightarrow> done_with (Err EXECUTION_FAILURE) s
      | (Some ptr, s) \<Rightarrow>
     (case store_semaphore ptr (Some name) s of
        (i, s) \<Rightarrow> set_handle_var (s_vars E) (str_of (arg vs 0)) i s)))"

definition semaphore_wait_subcommand :: "('m, 'f, 'g) semaphore_env \<Rightarrow> 'm proc handler" where
  "semaphore_wait_subcommand E list s =
     (let s = cmd_enter (described (s_texts E) ''wait'') s in
      with_args (s_getopt E) (semaphore_wait_fields (s_pt E)) list s (\<lambda>vs.
      case lookup_semaphore (id_of (arg vs 2)) s of
        None \<Rightarrow> done_with (Err EXECUTION_FAILURE) s
      | Some ptr \<Rightarrow>
     (case on_sys (semaphore_wait (s_pt E) (s_sem E) ptr (f64_opt (arg vs 1)) (flag_of (arg vs 0))) s of
        (r, s) \<Rightarrow> done_with r s)))"

definition semaphore_post_subcommand :: "('m, 'f, 'g) semaphore_env \<Rightarrow> 'm proc handler" where
  "semaphore_post_subcommand E list s =
     (let s = cmd_enter (described (s_texts E) ''post'') s in
      with_args (s_getopt E) ([id_field ''var''] :: 'f arg field list) list s (\<lambda>vs.
      case lookup_semaphore (id_of (arg vs 0)) s of
        None \<Rightarrow> done_with (Err EXECUTION_FAILURE) s
      | Some ptr \<Rightarrow> (case on_sys (semaphore_post (s_sem E) ptr) s of (r, s) \<Rightarrow> done_with r s)))"

definition semaphore_close_subcommand :: "('m, 'f, 'g) semaphore_env \<Rightarrow> 'm proc handler" where
  "semaphore_close_subcommand E list s =
     (let s = cmd_enter (described (s_texts E) ''close'') s in
      with_args (s_getopt E) ([id_field ''var''] :: 'f arg field list) list s (\<lambda>vs.
      case take_semaphore (id_of (arg vs 0)) s of
        (None, s) \<Rightarrow> done_with (Err EXECUTION_FAILURE) s
      | (Some e, s) \<Rightarrow> done_with (Ok ()) (set_sys (semaphore_teardown E e False (sys (world s))) s)))"

definition semaphore_destroy_subcommand :: "('m, 'f, 'g) semaphore_env \<Rightarrow> 'm proc handler" where
  "semaphore_destroy_subcommand E list s =
     (let s = cmd_enter (described (s_texts E) ''destroy'') s in
      with_args (s_getopt E) ([id_field ''var''] :: 'f arg field list) list s (\<lambda>vs.
      case take_semaphore (id_of (arg vs 0)) s of
        (None, s) \<Rightarrow> done_with (Err EXECUTION_FAILURE) s
      | (Some e, s) \<Rightarrow> done_with (Ok ()) (set_sys (semaphore_teardown E e True (sys (world s))) s)))"

definition semaphore_subcommands :: "('m, 'f, 'g) semaphore_env \<Rightarrow> (string \<times> 'm proc handler) list" where
  "semaphore_subcommands E =
     [(''create'', semaphore_create_subcommand E), (''open'', semaphore_open_subcommand E),
      (''wait'', semaphore_wait_subcommand E), (''post'', semaphore_post_subcommand E),
      (''close'', semaphore_close_subcommand E), (''destroy'', semaphore_destroy_subcommand E)]"

definition semaphore_table :: "('m, 'f, 'g) semaphore_env \<Rightarrow> (64 word, 'm proc handler) int_lookup run" where
  "semaphore_table E = int_lookup_new 6 (semaphore_subcommands E)"

definition semaphore_subcommand :: "('m, 'f, 'g) semaphore_env \<Rightarrow> 'm proc handler" where
  "semaphore_subcommand E =
     subcommand_group (s_getopt E) (described (s_texts E) ''semaphore'')
       (\<lambda>q. bindR (semaphore_table E) (\<lambda>t. lookup t q))"

section \<open>The count\<close>

text \<open>What the functions promise about the value of a semaphore that only the
  caller uses: a successful wait finds it positive and takes one, a successful
  post adds one, a failure changes nothing.\<close>

definition wait_law :: "('m \<Rightarrow> address \<Rightarrow> nat) \<Rightarrow> address \<Rightarrow> 'm \<Rightarrow> int \<times> 'm \<Rightarrow> bool" where
  "wait_law val b m res \<longleftrightarrow>
     (let (rc, m') = res in if rc = 0 then 0 < val m b \<and> val m' b = val m b - 1 else val m' b = val m b)"

definition semaphore_laws :: "('m, 'f) sem_ops \<Rightarrow> ('m \<Rightarrow> address \<Rightarrow> nat) \<Rightarrow> address \<Rightarrow> bool" where
  "semaphore_laws so val b \<longleftrightarrow>
     (\<forall>m. wait_law val b m (sem_wait so b m)) \<and>
     (\<forall>m. wait_law val b m (sem_trywait so b m)) \<and>
     (\<forall>m ts. wait_law val b m (sem_timedwait so b ts m)) \<and>
     (\<forall>m rc m'. sem_post so b m = (rc, m') \<longrightarrow> val m' b = (if rc = 0 then val m b + 1 else val m b))"

datatype 'f sem_request = Wait_call "'f option" bool | Post_call

fun sem_call :: "('m, 'f) pthread_ops \<Rightarrow> ('m, 'f) sem_ops \<Rightarrow> address \<Rightarrow> 'f sem_request \<Rightarrow> 'm \<Rightarrow> cmd_result \<times> 'm" where
  "sem_call pt so b (Wait_call timeout nonblock) m = semaphore_wait pt so b timeout nonblock m"
| "sem_call pt so b Post_call m = semaphore_post so b m"

text \<open>A sequence of calls: how many waits and posts succeed.\<close>

fun sem_calls :: "('m, 'f) pthread_ops \<Rightarrow> ('m, 'f) sem_ops \<Rightarrow> address \<Rightarrow> 'f sem_request list \<Rightarrow> 'm \<Rightarrow> nat \<times> nat \<times> 'm" where
  "sem_calls pt so b [] m = (0, 0, m)"
| "sem_calls pt so b (c # cs) m =
     (case sem_call pt so b c m of (r, m1) \<Rightarrow>
      case sem_calls pt so b cs m1 of (w, p, m2) \<Rightarrow>
        (if r = Ok () then case c of Post_call \<Rightarrow> (w, p + 1, m2) | Wait_call _ _ \<Rightarrow> (w + 1, p, m2) else (w, p, m2)))"

lemma ret_code_wait:
  "wait_law val b m res \<Longrightarrow> ret_code res = (r, m') \<Longrightarrow>
     (if r = Ok () then 0 < val m b \<and> val m' b = val m b - 1 else val m' b = val m b)"
  by (auto simp: ret_code_def wait_law_def split: prod.splits if_splits)

lemma semaphore_wait_value:
  "semaphore_laws so val b \<Longrightarrow> semaphore_wait pt so b timeout nonblock m = (r, m') \<Longrightarrow>
     (if r = Ok () then 0 < val m b \<and> val m' b = val m b - 1 else val m' b = val m b)"
  by (auto simp: semaphore_laws_def semaphore_wait_def dest!: ret_code_wait[rotated] split: option.splits if_splits)

lemma semaphore_post_value:
  "semaphore_laws so val b \<Longrightarrow> semaphore_post so b m = (r, m') \<Longrightarrow>
     val m' b = (if r = Ok () then val m b + 1 else val m b)"
proof -
  assume laws: "semaphore_laws so val b" and p: "semaphore_post so b m = (r, m')"
  obtain rc m1 where 1: "sem_post so b m = (rc, m1)" by fastforce
  then have "val m1 b = (if rc = 0 then val m b + 1 else val m b)" using laws unfolding semaphore_laws_def by blast
  then show ?thesis using p 1 by (auto simp: semaphore_post_def ret_code_def split: if_splits)
qed

text \<open>
  C14: Over any sequence of posts and of blocking, timed and non-blocking waits of a
  process on its semaphore, the value left and the successful waits add up to the
  value at the start and the successful posts: no unit is lost, taken twice or
  taken from an empty semaphore.
\<close>

theorem semaphore_count_conserved:
  assumes "semaphore_laws so val b" "sem_calls pt so b cs m = (w, p, m')"
  shows "val m' b + w = val m b + p"
  using assms(2)
proof (induction cs arbitrary: m w p)
  case (Cons c cs)
  obtain r m1 where c: "sem_call pt so b c m = (r, m1)" by fastforce
  obtain w1 p1 where cs: "sem_calls pt so b cs m1 = (w1, p1, m')" using Cons.prems c by (auto split: prod.splits if_splits sem_request.splits)
  note IH = Cons.IH[OF cs]
  show ?case
  proof (cases c)
    case (Wait_call timeout nonblock)
    then show ?thesis using IH Cons.prems c cs semaphore_wait_value[OF assms(1), of pt timeout nonblock m r m1]
      by (auto split: if_splits)
  next
    case Post_call
    then show ?thesis using IH Cons.prems c cs semaphore_post_value[OF assms(1), of m r m1]
      by (auto split: if_splits)
  qed
qed simp

text \<open>One semaphore: its value is the state.\<close>

definition solo_sem :: "(nat, unit) sem_ops" where
  "solo_sem = \<lparr>sem_open = \<lambda>_ _ _. Pair (Some 0), sem_init = \<lambda>_ v _. (0, unat v),
     sem_wait = \<lambda>_ m. if m = 0 then (4, m) else (0, m - 1), sem_trywait = \<lambda>_ m. if m = 0 then (11, m) else (0, m - 1),
     sem_timedwait = \<lambda>_ _ m. if m = 0 then (110, m) else (0, m - 1), sem_post = \<lambda>_ m. (0, m + 1),
     sem_close = \<lambda>_ m. m, sem_destroy = \<lambda>_ m. m\<rparr>"

theorem semaphore_count_conserved_witness:
  "sem_calls alone solo_sem 0 [Wait_call None True, Post_call, Post_call, Wait_call None False] 0 = (1, 2, 1) \<and> (1 :: nat) + 1 = 0 + 2"
proof -
  have "semaphore_laws solo_sem (\<lambda>m _. m) 0"
    by (simp add: semaphore_laws_def wait_law_def solo_sem_def)
  moreover have c: "sem_calls alone solo_sem 0 [Wait_call None True, Post_call, Post_call, Wait_call None False] 0 = (1, 2, 1)"
    by (simp add: semaphore_wait_def semaphore_post_def ret_code_def solo_sem_def)
  ultimately have "1 + 1 = 0 + (2 :: nat)" by (rule semaphore_count_conserved)
  with c show ?thesis by blast
qed

text \<open>
  Destroying a named semaphore closes it and unlinks the shared-memory object of
  that name, not the semaphore: when unlinking a shared-memory object and closing a
  semaphore do not remove semaphore names, as the kernel's names of the two kinds
  are separate, the semaphore can still be opened afterwards.
\<close>

lemma semaphore_destroy_keeps_name:
  fixes E :: "('m, 'f, 'g) semaphore_env"
  assumes "parse (s_getopt E) ([id_field ''var''] :: 'f arg field list) list = Some (Ok [Value (Nat_arg i)])"
    and "map_of (reg_map (semaphores (world s))) (of_nat i) = Some \<lparr>he_ptr = p, he_name = Some n\<rparr>"
    and "\<And>a m. sem_names (shm_unlink (s_map E) a m) = sem_names m" "\<And>a m. sem_names (sem_close (s_sem E) a m) = sem_names m"
  shows "\<exists>s'. semaphore_destroy_subcommand E list s = Some (Val (Ok (), s')) \<and>
    sem_names (sys (world s')) = sem_names (sys (world s)) \<and> lookup_semaphore (of_nat i) s' = None"
  by (simp add: semaphore_destroy_subcommand_def with_args_def assms take_semaphore_def registry_take_def
      semaphore_teardown_def lookup_semaphore_def registry_lookup_def delete_conv' done_with_def Let_def)

text \<open>A system with the names of shared-memory objects and of semaphores.\<close>

definition names_map :: "(string set \<times> string set) map_ops" where
  "names_map = solo_map\<lparr>shm_unlink := \<lambda>n (shm, sems). (shm - {n}, sems)\<rparr>"

definition names_sem :: "(string set \<times> string set, unit) sem_ops" where
  "names_sem = \<lparr>sem_open = \<lambda>_ _ _. Pair (Some 0), sem_init = \<lambda>_ _. Pair 0, sem_wait = \<lambda>_. Pair 0, sem_trywait = \<lambda>_. Pair 0,
     sem_timedwait = \<lambda>_ _. Pair 0, sem_post = \<lambda>_. Pair 0, sem_close = \<lambda>_ m. m, sem_destroy = \<lambda>_ m. m\<rparr>"

definition names_env :: "(string set \<times> string set, unit, (char \<times> string) list) semaphore_env" where
  "names_env = \<lparr>s_getopt = demo_getopt [] [Some ''1''],
     s_vars = \<lparr>legal_identifier = \<lambda>_. True, var_readonly = \<lambda>_ _. False, bind_variable = \<lambda>_ _. Pair True\<rparr>,
     s_map = names_map, s_pt = alone, s_sem = names_sem, semaphore_bytes = 32, s_texts = \<lambda>_. ([], [])\<rparr>"

lemma semaphore_destroy_keeps_name_witness:
  "\<exists>s'. semaphore_destroy_subcommand names_env []
      \<lparr>this_command = [], short_doc = [], long_doc = [], world = \<lparr>barriers = registry_new, mutexes = registry_new,
         semaphores = snd (registry_store 4096 (Some ''/s'') registry_new), sys = ({''/s''}, {''/s''})\<rparr>\<rparr>
      = Some (Val (Ok (), s')) \<and> ''/s'' \<in> snd (sys (world s'))"
proof -
  let ?s = "\<lparr>this_command = [], short_doc = [], long_doc = [], world = \<lparr>barriers = registry_new, mutexes = registry_new,
         semaphores = snd (registry_store 4096 (Some ''/s'') registry_new), sys = ({''/s''}, {''/s''})\<rparr>\<rparr>"
  have p: "parse (s_getopt names_env) ([id_field ''var''] :: unit arg field list) [] = Some (Ok [Value (Nat_arg 1)])"
    unfolding names_env_def semaphore_env.simps by (rule parse_id)
  obtain s' where "semaphore_destroy_subcommand names_env [] ?s = Some (Val (Ok (), s'))" "snd (sys (world s')) = snd (sys (world ?s))"
    using semaphore_destroy_keeps_name[OF p, of ?s 4096 "''/s''" snd]
    by (auto simp: registry_store_def registry_new_def Let_def names_env_def names_map_def names_sem_def)
  then show ?thesis by auto
qed

section \<open>Dispatch of the three groups\<close>

lemma group_tables:
  "table_ok TYPE(64) 6 (barrier_subcommands E)" "list_all nul_free (map fst (barrier_subcommands E))"
  "table_ok TYPE(64) 6 (mutex_subcommands E')" "list_all nul_free (map fst (mutex_subcommands E'))"
  "table_ok TYPE(64) 6 (semaphore_subcommands E'')" "list_all nul_free (map fst (semaphore_subcommands E''))"
  by (simp_all add: table_ok_def barrier_subcommands_def mutex_subcommands_def semaphore_subcommands_def t_bytes_def
      min_required_len_def nul_free_def)

text \<open>
  In each of the groups \<open>barrier\<close>, \<open>mutex\<close> and \<open>semaphore\<close> the next word selects
  the operation of that name or the only one it abbreviates, which gets the words
  after it; any other word is a usage error and nothing runs.
\<close>

lemma sync_groups_dispatch:
  assumes "q \<noteq> []" "nul_free q"
    and "getopt_yields ops list ''h'' (getopt_reset ops) [] (Some q # args)"
    and "b_getopt E = ops" "m_getopt E' = ops" "s_getopt E'' = ops"
  shows
    "barrier_subcommand E list s =
      (let s0 = cmd_enter (described (b_texts E) ''barrier'') s in
       case prefix_lookup (barrier_subcommands E) q of None \<Rightarrow> Some (Val (Err EX_USAGE, s0)) | Some h \<Rightarrow> h args s0) \<and>
     mutex_subcommand E' list s' =
      (let s0 = cmd_enter (described (m_texts E') ''mutex'') s' in
       case prefix_lookup (mutex_subcommands E') q of None \<Rightarrow> Some (Val (Err EX_USAGE, s0)) | Some h \<Rightarrow> h args s0) \<and>
     semaphore_subcommand E'' list s'' =
      (let s0 = cmd_enter (described (s_texts E'') ''semaphore'') s'' in
       case prefix_lookup (semaphore_subcommands E'') q of None \<Rightarrow> Some (Val (Err EX_USAGE, s0)) | Some h \<Rightarrow> h args s0)"
  unfolding barrier_subcommand_def barrier_table_def mutex_subcommand_def mutex_table_def semaphore_subcommand_def
    semaphore_table_def assms(4-6) Let_def
  by (intro conjI group_runs assms(1-3) group_tables)

lemma sync_groups_dispatch_witness:
  "prefix_lookup (mutex_subcommands (solo_env solo_map (demo_getopt [] [Some ''l'', Some ''1'']))) ''l'' =
     Some (mutex_lock_subcommand (solo_env solo_map (demo_getopt [] [Some ''l'', Some ''1'']))) \<and>
   (\<forall>s. \<exists>s0. mutex_subcommand (solo_env solo_map (demo_getopt [] [Some ''l'', Some ''1''])) [] s =
     mutex_lock_subcommand (solo_env solo_map (demo_getopt [] [Some ''l'', Some ''1''])) [Some ''1''] s0)"
proof -
  let ?ops = "demo_getopt [] [Some ''l'', Some ''1'']"
  let ?E = "solo_env solo_map ?ops"
  have y: "getopt_yields ?ops [] ''h'' (getopt_reset ?ops) [] (Some ''l'' # [Some ''1''])"
    using demo_getopt_yields[of "[]"] by (simp add: demo_getopt_def)
  have p: "prefix_lookup (mutex_subcommands ?E) ''l'' = Some (mutex_lock_subcommand ?E)"
    by (simp add: prefix_lookup_def mutex_subcommands_def)
  have g: "m_getopt ?E = ?ops" by (simp add: solo_env_def)
  let ?B = "\<lparr>b_getopt = ?ops, b_vars = m_vars ?E, b_map = solo_map, b_pt = alone, b_mem = \<lparr>barrier_bytes = 12, bar_at = \<lambda>_ _. barrier_new 1, bar_put = \<lambda>_ _ m. m\<rparr>, b_texts = \<lambda>_. ([], [])\<rparr>"
  let ?S = "\<lparr>s_getopt = ?ops, s_vars = s_vars names_env, s_map = names_map, s_pt = alone, s_sem = names_sem, semaphore_bytes = 32, s_texts = \<lambda>_. ([], [])\<rparr>"
  have "mutex_subcommand ?E [] s = (let s0 = cmd_enter (described (m_texts ?E) ''mutex'') s in
       case prefix_lookup (mutex_subcommands ?E) ''l'' of None \<Rightarrow> Some (Val (Err EX_USAGE, s0)) | Some h \<Rightarrow> h [Some ''1''] s0)" for s
    by (rule conjunct1[OF conjunct2[OF sync_groups_dispatch[OF _ _ y, of ?B ?E ?S]]]) (simp_all add: g nul_free_def)
  then show ?thesis using p by (auto simp: Let_def)
qed

end
