(* ===== verification/Shm.thy ===== *)
theory Shm
  imports Backings "HOL-Library.List_Lexorder"
begin

text \<open>
  \<open>l_builtin/src/cmd_shm.rs\<close>: shell variables bound to a shared database. Several
  variables can share one opened database, so the registry maps a variable to an
  index into the opened databases. Bash's variables and arrays, the output and
  the system are the state \<open>'w\<close> behind parameters. Reading an array cell of a
  variable that is no array is undefined in the code and a panic here.
\<close>

section \<open>State and environment\<close>

datatype bash_value =
    Indexed "(int \<times> string) list"
  | Associative "(string \<times> string) list"
  | Scalar "string option"

text \<open>\<open>arr_items\<close> and \<open>assoc_items\<close> are what the iterators over a bash array yield.\<close>

record ('w, 'g) shm_env =
  h_getopt :: "'g getopt"
  h_vars :: "'w bash_vars"
  h_os :: "'w db_ops"
  h_texts :: "string \<Rightarrow> string \<times> string"
  h_lossy :: "string \<Rightarrow> string"
  h_print :: "string \<Rightarrow> 'w \<Rightarrow> 'w"
  find_variable :: "string \<Rightarrow> 'w \<Rightarrow> bash_value option"
  init_dynamic :: "string \<Rightarrow> bool \<Rightarrow> 'w \<Rightarrow> bool \<times> 'w"
  unbind_variable :: "string \<Rightarrow> 'w \<Rightarrow> 'w"
  prepare_array :: "string \<Rightarrow> bool \<Rightarrow> 'w \<Rightarrow> bool \<times> 'w"
  arr_items :: "string \<Rightarrow> 'w \<Rightarrow> (int \<times> string) list"
  arr_put :: "string \<Rightarrow> int \<Rightarrow> string \<Rightarrow> 'w \<Rightarrow> 'w"
  arr_del :: "string \<Rightarrow> int \<Rightarrow> 'w \<Rightarrow> 'w"
  arr_max :: "string \<Rightarrow> 'w \<Rightarrow> int"
  assoc_items :: "string \<Rightarrow> 'w \<Rightarrow> (string \<times> string) list"
  assoc_put :: "string \<Rightarrow> string \<Rightarrow> string \<Rightarrow> 'w \<Rightarrow> 'w"
  assoc_del :: "string \<Rightarrow> string \<Rightarrow> 'w \<Rightarrow> 'w"

record 'w shm_world =
  shm_registry :: "(string \<times> nat) list"
  shm_dbs :: "locked_database list"
  shm_sys :: 'w

definition bound_db :: "'w shm_world \<Rightarrow> string \<Rightarrow> nat option" where
  "bound_db m var = map_of (shm_registry m) var"

text \<open>An operation on an opened database.\<close>

definition use_db :: "('w, locked_database, 'a) on_backing \<Rightarrow> nat \<Rightarrow> 'w shm_world \<Rightarrow> (('a, io_error) result \<times> 'w shm_world) option" where
  "use_db bop i m =
     map_option (\<lambda>(r, db, w). (r, m\<lparr>shm_dbs := (shm_dbs m)[i := db], shm_sys := w\<rparr>)) (bop (shm_dbs m ! i) (shm_sys m))"

definition on_os :: "('w \<Rightarrow> 'w) \<Rightarrow> 'w shm_world \<Rightarrow> 'w shm_world" where
  "on_os f m = m\<lparr>shm_sys := f (shm_sys m)\<rparr>"

section \<open>Locating a database\<close>

definition same_store :: "db_path \<Rightarrow> db_path \<Rightarrow> bool" where
  "same_store loc p =
     (case (loc, p) of
        (Mem_path n, Mem_path n') \<Rightarrow> n' = n
      | (Mmap_path n _, Mmap_path n' _) \<Rightarrow> n' = n
      | _ \<Rightarrow> False)"

definition find_bound :: "db_path \<Rightarrow> 'w shm_world \<Rightarrow> nat option" where
  "find_bound loc m = find (\<lambda>i. same_store loc (path_of (shm_dbs m ! i))) (map snd (shm_registry m))"

definition open_new :: "'w db_ops \<Rightarrow> db_path \<Rightarrow> 'w shm_world \<Rightarrow> ((nat, io_error) result \<times> 'w shm_world) option" where
  "open_new os loc m =
     (case open_db_loc os loc (shm_sys m) of
        None \<Rightarrow> None
      | Some (Err e, w) \<Rightarrow> Some (Err e, m\<lparr>shm_sys := w\<rparr>)
      | Some (Ok db, w) \<Rightarrow> Some (Ok (length (shm_dbs m)), m\<lparr>shm_dbs := shm_dbs m @ [db], shm_sys := w\<rparr>))"

definition get_db_loc :: "'w db_ops \<Rightarrow> db_path \<Rightarrow> 'w shm_world \<Rightarrow> ((nat, io_error) result \<times> 'w shm_world) option" where
  "get_db_loc os loc m =
     (case loc of
        Mem_path _ \<Rightarrow> Some (ok_or (find_bound loc m) Io_failed, m)
      | Mmap_path _ _ \<Rightarrow> Some (ok_or (find_bound loc m) Io_failed, m)
      | _ \<Rightarrow> open_new os loc m)"

definition db_key :: "(string \<Rightarrow> string) \<Rightarrow> db_path \<Rightarrow> string" where
  "db_key lossy path =
     (case path of
        File_path p \<Rightarrow> lossy p
      | Shm_path n \<Rightarrow> ''shm:'' @ lossy n
      | Mem_path n \<Rightarrow> ''memfd:'' @ lossy n
      | Mmap_path n _ \<Rightarrow> ''mmap:'' @ lossy n)"

definition unlink_db_backing :: "'w db_ops \<Rightarrow> db_path \<Rightarrow> 'w \<Rightarrow> 'w" where
  "unlink_db_backing os loc w =
     (case loc of
        File_path p \<Rightarrow> remove_file os p w
      | Shm_path n \<Rightarrow> shm_unlink_obj os n w
      | _ \<Rightarrow> w)"

definition vars_of_key :: "(string \<Rightarrow> string) \<Rightarrow> string \<Rightarrow> 'w shm_world \<Rightarrow> string list" where
  "vars_of_key lossy key m =
     map fst (filter (\<lambda>(var, i). db_key lossy (path_of (shm_dbs m ! i)) = key) (shm_registry m))"

definition forget_var :: "('w, 'g) shm_env \<Rightarrow> string \<Rightarrow> 'w shm_world \<Rightarrow> 'w shm_world" where
  "forget_var E var m =
     m\<lparr>shm_registry := AList.delete var (shm_registry m), shm_sys := unbind_variable E var (shm_sys m)\<rparr>"

definition unbind_registry_vars :: "('w, 'g) shm_env \<Rightarrow> string \<Rightarrow> 'w shm_world \<Rightarrow> 'w shm_world" where
  "unbind_registry_vars E key m = fold (forget_var E) (vars_of_key (h_lossy E) key m) m"

section \<open>Dynamic variables\<close>

text \<open>The getters of both kinds do the same to an array: what bash holds is a map,
  the entries of the database that differ are put, the rest is deleted.\<close>

definition sync_entry :: "('k \<Rightarrow> string \<Rightarrow> 'w \<Rightarrow> 'w) \<Rightarrow> 'k \<times> string \<Rightarrow> ('k \<times> string) list \<times> 'w \<Rightarrow> ('k \<times> string) list \<times> 'w" where
  "sync_entry put kv st =
     (case (kv, st) of ((k, v), (existing, w)) \<Rightarrow>
        (AList.delete k existing, if map_of existing k = Some v then w else put k v w))"

definition sync_array ::
    "('w \<Rightarrow> ('k \<times> string) list) \<Rightarrow> ('k \<Rightarrow> string \<Rightarrow> 'w \<Rightarrow> 'w) \<Rightarrow> ('k \<Rightarrow> 'w \<Rightarrow> 'w)
     \<Rightarrow> ('k \<times> string) list option \<Rightarrow> 'w \<Rightarrow> 'w" where
  "sync_array items put del entries w =
     (let existing = fold (\<lambda>(k, v). AList.update k v) (items w) [];
          (existing, w) = (case entries of None \<Rightarrow> (existing, w) | Some m \<Rightarrow> fold (sync_entry put) m (existing, w))
      in fold del (map fst existing) w)"

definition entry_of :: "string \<Rightarrow> database \<Rightarrow> var_data option" where
  "entry_of var repr = map_of repr var"

definition shm_getter :: "('w, 'g) shm_env \<Rightarrow> (database \<Rightarrow> 'w \<Rightarrow> 'w) \<Rightarrow> string \<Rightarrow> 'w shm_world \<Rightarrow> 'w shm_world option" where
  "shm_getter E sync var m =
     (case bound_db m var of
        None \<Rightarrow> Some m
      | Some i \<Rightarrow>
          (case use_db (db_read (h_os E)) i m of
             None \<Rightarrow> None
           | Some (Err _, m) \<Rightarrow> Some m
           | Some (Ok repr, m) \<Rightarrow> Some (on_os (sync repr) m)))"

definition shm_array_getter :: "('w, 'g) shm_env \<Rightarrow> string \<Rightarrow> 'w shm_world \<Rightarrow> 'w shm_world option" where
  "shm_array_getter E var =
     shm_getter E (\<lambda>repr. sync_array (arr_items E var) (arr_put E var) (arr_del E var)
       (Option.bind (entry_of var repr) as_array)) var"

definition shm_assoc_getter :: "('w, 'g) shm_env \<Rightarrow> string \<Rightarrow> 'w shm_world \<Rightarrow> 'w shm_world option" where
  "shm_assoc_getter E var =
     shm_getter E (\<lambda>repr. sync_array (assoc_items E var) (assoc_put E var) (assoc_del E var)
       (Option.bind (entry_of var repr) as_assoc)) var"

text \<open>\<open>repr.vars.entry(name).or_insert_with(default)\<close> and the change of the entry.\<close>

definition change_entry :: "string \<Rightarrow> (var_data \<Rightarrow> var_data) \<Rightarrow> database \<Rightarrow> unit \<times> database" where
  "change_entry name f repr =
     ((), AList.update name (f (case entry_of name repr of Some vd \<Rightarrow> vd | None \<Rightarrow> var_default)) repr)"

text \<open>The result of the write is ignored. A missing value is the empty string.\<close>

definition shm_setter :: "('w, 'g) shm_env \<Rightarrow> string \<Rightarrow> ('w \<Rightarrow> 'w) \<Rightarrow> ('w \<Rightarrow> var_data \<Rightarrow> var_data) \<Rightarrow> 'w shm_world \<Rightarrow> 'w shm_world option" where
  "shm_setter E var assign change m =
     (case bound_db m var of
        None \<Rightarrow> Some m
      | Some i \<Rightarrow>
          map_option snd (use_db (db_with_write (h_os E) (change_entry var (change (shm_sys m)))) i (on_os assign m)))"

definition ptr_or_empty :: "string option \<Rightarrow> string" where
  "ptr_or_empty p = (case p of Some s \<Rightarrow> s | None \<Rightarrow> [])"

definition wrap_i64 :: "int \<Rightarrow> int" where
  "wrap_i64 i = (i + 2 ^ 63) mod 2 ^ 64 - 2 ^ 63"

definition array_index :: "('w, 'g) shm_env \<Rightarrow> string \<Rightarrow> int \<Rightarrow> 'w \<Rightarrow> int" where
  "array_index E var ind w = (if ind < 0 then wrap_i64 (arr_max E var w + 1) else ind)"

definition shm_array_setter :: "('w, 'g) shm_env \<Rightarrow> string \<Rightarrow> string option \<Rightarrow> int \<Rightarrow> 'w shm_world \<Rightarrow> 'w shm_world option" where
  "shm_array_setter E var v ind =
     shm_setter E var (\<lambda>w. arr_put E var (array_index E var ind w) (ptr_or_empty v) w)
       (\<lambda>w. insert_index (array_index E var ind w) (ptr_or_empty v))"

definition shm_assoc_setter :: "('w, 'g) shm_env \<Rightarrow> string \<Rightarrow> string option \<Rightarrow> string option \<Rightarrow> 'w shm_world \<Rightarrow> 'w shm_world option" where
  "shm_assoc_setter E var v key =
     shm_setter E var (assoc_put E var (ptr_or_empty key) (ptr_or_empty v))
       (\<lambda>_. insert_key (ptr_or_empty key) (ptr_or_empty v))"

section \<open>Arguments\<close>

type_synonym shm_arg = "unit arg"

definition loc_fields :: "shm_arg field list" where
  "loc_fields =
     [Field ''s'' (Opt_kind (CHR ''s'') None) text_conv, Field ''n'' (Opt_kind (CHR ''n'') None) text_conv,
      Field ''m'' (Opt_kind (CHR ''M'') None) text_conv, Field ''f'' (Opt_kind (CHR ''F'') None) text_conv]"

record loc_args =
  loc_s :: "string option"
  loc_n :: "string option"
  loc_m :: "string option"
  loc_f :: "string option"

definition loc_args_of :: "shm_arg field_value list \<Rightarrow> loc_args" where
  "loc_args_of vs = \<lparr>loc_s = str_opt (arg vs 0), loc_n = str_opt (arg vs 1), loc_m = str_opt (arg vs 2), loc_f = str_opt (arg vs 3)\<rparr>"

fun nested_of :: "'v field_value \<Rightarrow> 'v field_value list" where
  "nested_of (Nested vs) = vs"
| "nested_of _ = []"

fun values_of :: "shm_arg field_value \<Rightarrow> string list" where
  "values_of (Values vs) = map (\<lambda>v. str_of (Value v)) vs"
| "values_of _ = []"

fun words_of :: "'v field_value \<Rightarrow> word_list" where
  "words_of (Words ws) = ws"
| "words_of _ = []"

definition vars_field :: "'w bash_vars \<Rightarrow> 'w \<Rightarrow> shm_arg field" where
  "vars_field bv w = Field ''vars'' Rest_vec_kind (var_conv bv w)"

definition bind_fields :: "'w bash_vars \<Rightarrow> 'w \<Rightarrow> shm_arg field list" where
  "bind_fields bv w =
     [Field ''loc'' (Flatten_kind loc_fields) text_conv, Field ''assoc'' (Flag_kind (CHR ''A'')) text_conv,
      Field ''preserve'' (Flag_kind (CHR ''p'')) text_conv, vars_field bv w]"

definition sync_fields :: "'w bash_vars \<Rightarrow> 'w \<Rightarrow> shm_arg field list" where
  "sync_fields bv w = [Field ''loc'' (Flatten_kind loc_fields) text_conv, vars_field bv w]"

definition unbind_fields :: "shm_arg field list" where
  "unbind_fields = [Field ''vars'' Rest_view_kind text_conv]"

definition clear_fields :: "shm_arg field list" where
  "clear_fields = [Field ''loc'' (Flatten_kind loc_fields) text_conv]"

text \<open>\<open>post\<close> of \<open>ShmLocArgs\<close>; it is an inherent method that the parser never calls.\<close>

definition loc_post :: "loc_args \<Rightarrow> (unit, exit_code) result" where
  "loc_post a =
     (if length (filter (\<lambda>b. b) [loc_s a \<noteq> None, loc_n a \<noteq> None, loc_m a \<noteq> None, loc_f a \<noteq> None]) > 1
      then Err EX_USAGE else Ok ())"

definition parse_mmap_spec :: "string \<Rightarrow> (string \<times> nat option, exit_code) result" where
  "parse_mmap_spec spec =
     (let name = takeWhile (\<lambda>b. b \<noteq> CHR '':'') spec in
      if name = spec then Ok (spec, None)
      else let sz = drop (length name + 1) spec in
        if name = [] \<or> sz = [] then Err EX_USAGE
        else case uint_from_cpnt 64 sz of
               Some n \<Rightarrow> Ok (name, Some n)
             | None \<Rightarrow> Err EX_USAGE)"

definition check_store_name :: "db_path \<Rightarrow> (db_path, exit_code) result" where
  "check_store_name loc =
     (case loc of
        Shm_path n \<Rightarrow> if \<not> is_valid_var_name n then Err EXECUTION_FAILURE else Ok loc
      | Mem_path n \<Rightarrow> if \<not> is_valid_var_name n then Err EXECUTION_FAILURE else Ok loc
      | _ \<Rightarrow> Ok loc)"

definition resolve_dbloc :: "loc_args \<Rightarrow> (db_path, exit_code) result" where
  "resolve_dbloc a =
     bindE (case loc_f a of
        Some p \<Rightarrow> Ok (File_path p)
      | None \<Rightarrow> (case loc_s a of
        Some s \<Rightarrow> Ok (Shm_path s)
      | None \<Rightarrow> (case loc_m a of
        Some spec \<Rightarrow>
          bindE (parse_mmap_spec spec) (\<lambda>(name, opt_size).
            if (case opt_size of Some sz \<Rightarrow> sz < 100 | None \<Rightarrow> False) then Err EX_USAGE
            else Ok (Mmap_path name opt_size))
      | None \<Rightarrow> (case loc_n a of
        Some n \<Rightarrow> Ok (Mem_path n)
      | None \<Rightarrow> Ok (Mem_path ''DEFAULT''))))) check_store_name"

section \<open>Subcommands\<close>

type_synonym ('w, 'a) shm_step = "'w shm_world shell \<Rightarrow> (('a, exit_code) result \<times> 'w shm_world shell) run option"

definition yield_result :: "('a, exit_code) result \<Rightarrow> ('w, 'a) shm_step" where
  "yield_result r s = Some (Val (r, s))"

text \<open>The next step after a success; an error, a panic and a step that does not
  return end the sequence.\<close>

definition andthen :: "('w, 'a) shm_step \<Rightarrow> ('a \<Rightarrow> ('w, 'b) shm_step) \<Rightarrow> ('w, 'b) shm_step" where
  "andthen m f s =
     (case m s of
        None \<Rightarrow> None
      | Some Panic \<Rightarrow> Some Panic
      | Some (Val (Err e, s)) \<Rightarrow> Some (Val (Err e, s))
      | Some (Val (Ok x, s)) \<Rightarrow> f x s)"

text \<open>An operation on the world; its error is a failure of the command.\<close>

definition on_world :: "('w shm_world \<Rightarrow> (('a, io_error) result \<times> 'w shm_world) option) \<Rightarrow> ('w, ('a, io_error) result) shm_step" where
  "on_world f s = map_option (\<lambda>(r, m). Val (Ok r, s\<lparr>world := m\<rparr>)) (f (world s))"

definition or_fail :: "('w shm_world \<Rightarrow> (('a, io_error) result \<times> 'w shm_world) option) \<Rightarrow> ('w, 'a) shm_step" where
  "or_fail f = andthen (on_world f) (\<lambda>r. yield_result (map_err (\<lambda>_. EXECUTION_FAILURE) r))"

definition change_world :: "('w shm_world \<Rightarrow> 'w shm_world) \<Rightarrow> ('w, unit) shm_step" where
  "change_world f s = Some (Val (Ok (), s\<lparr>world := f (world s)\<rparr>))"

fun for_each_var :: "(string \<Rightarrow> ('w, unit) shm_step) \<Rightarrow> string list \<Rightarrow> ('w, unit) shm_step" where
  "for_each_var f [] = yield_result (Ok ())"
| "for_each_var f (v # vs) = andthen (f v) (\<lambda>_. for_each_var f vs)"

definition capture_current_value :: "('w, 'g) shm_env \<Rightarrow> string \<Rightarrow> 'w \<Rightarrow> var_data option" where
  "capture_current_value E name w =
     (case find_variable E name w of
        None \<Rightarrow> None
      | Some (Associative m) \<Rightarrow> Some (Assoc_data (fold (\<lambda>(k, v). AList.update k v) m []))
      | Some (Indexed m) \<Rightarrow> Some (Array_data (fold (\<lambda>(k, v). AList.update k v) m []))
      | Some (Scalar v) \<Rightarrow> Some (Array_data [(0, ptr_or_empty v)]))"

definition put_entry :: "string \<Rightarrow> var_data \<Rightarrow> database \<Rightarrow> unit \<times> database" where
  "put_entry name data repr = ((), AList.update name data repr)"

definition bind_var :: "('w, 'g) shm_env \<Rightarrow> nat \<Rightarrow> bool \<Rightarrow> bool \<Rightarrow> string \<Rightarrow> ('w, unit) shm_step" where
  "bind_var E db assoc preserve var s =
     (let preserved = (if preserve then capture_current_value E var (shm_sys (world s)) else None);
          m = (world s)\<lparr>shm_registry := AList.update var db (shm_registry (world s))\<rparr>
      in case init_dynamic E var assoc (shm_sys m) of
           (False, w) \<Rightarrow> Some (Val (Err EXECUTION_FAILURE, s\<lparr>world := m\<lparr>shm_sys := w\<rparr>\<rparr>))
         | (True, w) \<Rightarrow>
             (case preserved of
                None \<Rightarrow> yield_result (Ok ())
              | Some data \<Rightarrow> or_fail (use_db (db_with_write (h_os E) (put_entry var data)) db)) (s\<lparr>world := m\<lparr>shm_sys := w\<rparr>\<rparr>))"

definition bind_open :: "('w, 'g) shm_env \<Rightarrow> db_path \<Rightarrow> ('w, nat) shm_step" where
  "bind_open E loc =
     andthen (on_world (get_db_loc (h_os E) loc)) (\<lambda>r. case r of
         Ok i \<Rightarrow> yield_result (Ok i)
       | Err _ \<Rightarrow>
           andthen (on_world (open_new (h_os E) loc)) (\<lambda>r. case r of
               Ok i \<Rightarrow> yield_result (Ok i)
             | Err _ \<Rightarrow> yield_result (Err (case loc of Mmap_path _ None \<Rightarrow> EX_USAGE | _ \<Rightarrow> EXECUTION_FAILURE))))"

definition shm_bind_subcommand :: "('w, 'g) shm_env \<Rightarrow> 'w shm_world handler" where
  "shm_bind_subcommand E list s =
     (let s = cmd_enter (described (h_texts E) ''bind'') s in
      with_args (h_getopt E) (bind_fields (h_vars E) (shm_sys (world s))) list s (\<lambda>vs.
      andthen (yield_result (resolve_dbloc (loc_args_of (nested_of (arg vs 0))))) (\<lambda>loc.
      andthen (bind_open E loc) (\<lambda>db.
      if values_of (arg vs 3) = [] then yield_result (Err EX_USAGE)
      else for_each_var (bind_var E db (flag_of (arg vs 1)) (flag_of (arg vs 2))) (values_of (arg vs 3)))) s))"

text \<open>A scalar variable has no array cell.\<close>

definition sync_data :: "('w, 'g) shm_env \<Rightarrow> string \<Rightarrow> 'w \<Rightarrow> (var_data, exit_code) result run" where
  "sync_data E var w =
     (case find_variable E var w of
        None \<Rightarrow> Val (Err EXECUTION_FAILURE)
      | Some (Associative m) \<Rightarrow> Val (Ok (Assoc_data (fold (\<lambda>(k, v). AList.update k v) m [])))
      | Some (Indexed m) \<Rightarrow> Val (Ok (Array_data (fold (\<lambda>(k, v). AList.update k v) m [])))
      | Some (Scalar _) \<Rightarrow> Panic)"

definition sync_var :: "('w, 'g) shm_env \<Rightarrow> nat \<Rightarrow> string \<Rightarrow> ('w, unit) shm_step" where
  "sync_var E db var s =
     (case sync_data E var (shm_sys (world s)) of
        Panic \<Rightarrow> Some Panic
      | Val (Err e) \<Rightarrow> Some (Val (Err e, s))
      | Val (Ok data) \<Rightarrow> or_fail (use_db (db_with_write (h_os E) (put_entry var data)) db) s)"

definition shm_sync_subcommand :: "('w, 'g) shm_env \<Rightarrow> 'w shm_world handler" where
  "shm_sync_subcommand E list s =
     (let s = cmd_enter (described (h_texts E) ''sync'') s in
      with_args (h_getopt E) (sync_fields (h_vars E) (shm_sys (world s))) list s (\<lambda>vs.
      andthen (yield_result (resolve_dbloc (loc_args_of (nested_of (arg vs 0))))) (\<lambda>loc.
      andthen (or_fail (get_db_loc (h_os E) loc)) (\<lambda>db. for_each_var (sync_var E db) (values_of (arg vs 1)))) s))"

definition shm_rm_subcommand :: "('w, 'g) shm_env \<Rightarrow> 'w shm_world handler" where
  "shm_rm_subcommand E list s =
     (let s = cmd_enter (described (h_texts E) ''rm'') s in
      with_args (h_getopt E) loc_fields list s (\<lambda>vs.
      andthen (yield_result (resolve_dbloc (loc_args_of vs))) (\<lambda>loc.
      change_world (\<lambda>m. on_os (unlink_db_backing (h_os E) loc) (unbind_registry_vars E (db_key (h_lossy E) loc) m))) s))"

definition snapshot_var :: "('w, 'g) shm_env \<Rightarrow> string \<Rightarrow> 'w shm_world \<Rightarrow> (var_data option \<times> 'w shm_world) option" where
  "snapshot_var E name m =
     (case bound_db m name of
        None \<Rightarrow> Some (None, m)
      | Some i \<Rightarrow>
          map_option (\<lambda>(r, m). (case r of Ok repr \<Rightarrow> entry_of name repr | Err _ \<Rightarrow> None, m)) (use_db (db_read (h_os E)) i m))"

definition restore_plain_variable :: "('w, 'g) shm_env \<Rightarrow> string \<Rightarrow> var_data \<Rightarrow> 'w \<Rightarrow> 'w" where
  "restore_plain_variable E name data w =
     (case data of
        Array_data m \<Rightarrow>
          (case prepare_array E name False w of
             (False, w) \<Rightarrow> w
           | (True, w) \<Rightarrow> fold (\<lambda>(i, v). arr_put E name i v) m w)
      | Assoc_data m \<Rightarrow>
          (case prepare_array E name True w of
             (False, w) \<Rightarrow> w
           | (True, w) \<Rightarrow> fold (\<lambda>(k, v). assoc_put E name k v) m w))"

definition unbind_var :: "('w, 'g) shm_env \<Rightarrow> string \<Rightarrow> ('w, unit) shm_step" where
  "unbind_var E var s =
     map_option (\<lambda>(snapshot, m). Val (Ok (), s\<lparr>world :=
          (case snapshot of
             None \<Rightarrow> forget_var E var m
           | Some data \<Rightarrow> on_os (restore_plain_variable E var data) (forget_var E var m))\<rparr>))
       (snapshot_var E var (world s))"

definition shm_unbind_subcommand :: "('w, 'g) shm_env \<Rightarrow> 'w shm_world handler" where
  "shm_unbind_subcommand E list s =
     (let s = cmd_enter (described (h_texts E) ''unbind'') s in
      with_args (h_getopt E) unbind_fields list s (\<lambda>vs.
      if words_of (arg vs 0) = [] then Some (Val (Err EX_USAGE, s))
      else for_each_var (unbind_var E) (words_collect (words_of (arg vs 0))) s))"

definition drop_entry :: "string \<Rightarrow> database \<Rightarrow> unit \<times> database" where
  "drop_entry name repr = ((), AList.delete name repr)"

definition drop_var :: "('w, 'g) shm_env \<Rightarrow> string \<Rightarrow> ('w, unit) shm_step" where
  "drop_var E var s =
     (case bound_db (world s) var of
        None \<Rightarrow> Some (Val (Err EXECUTION_FAILURE, s))
      | Some i \<Rightarrow>
          andthen (or_fail (use_db (db_with_write (h_os E) (drop_entry var)) i)) (\<lambda>_. change_world (forget_var E var)) s)"

definition shm_drop_subcommand :: "('w, 'g) shm_env \<Rightarrow> 'w shm_world handler" where
  "shm_drop_subcommand E list s =
     (let s = cmd_enter (described (h_texts E) ''drop'') s in
      with_args (h_getopt E) [vars_field (h_vars E) (shm_sys (world s))] list s (\<lambda>vs.
      for_each_var (drop_var E) (values_of (arg vs 0)) s))"

definition shm_clear_subcommand :: "('w, 'g) shm_env \<Rightarrow> 'w shm_world handler" where
  "shm_clear_subcommand E list s =
     (let s = cmd_enter (described (h_texts E) ''clear'') s in
      with_args (h_getopt E) clear_fields list s (\<lambda>vs.
      andthen (yield_result (resolve_dbloc (loc_args_of (nested_of (arg vs 0))))) (\<lambda>loc.
      andthen (or_fail (get_db_loc (h_os E) loc)) (\<lambda>db.
      or_fail (use_db (db_with_write (h_os E) (\<lambda>_. ((), []))) db))) s))"

section \<open>Printing\<close>

definition escape_byte :: "char \<Rightarrow> string" where
  "escape_byte b = (if b = CHR 0x5C \<or> b = CHR 0x22 then [CHR 0x5C, b] else [b])"

definition escape_quoted :: "string \<Rightarrow> string" where
  "escape_quoted bytes = CHR 0x22 # concat (map escape_byte bytes) @ [CHR 0x22]"

definition index_entry :: "int \<times> string \<Rightarrow> string" where
  "index_entry kv = ''['' @ dec_int (fst kv) @ '']='' @ escape_quoted (snd kv)"

definition key_entry :: "string \<times> string \<Rightarrow> string" where
  "key_entry kv = ''['' @ escape_quoted (fst kv) @ '']='' @ escape_quoted (snd kv)"

fun join_spaces :: "bool \<Rightarrow> string list \<Rightarrow> string" where
  "join_spaces first [] = []"
| "join_spaces first (x # xs) = (if first then [] else '' '') @ x @ join_spaces False xs"

definition var_assignment :: "string \<Rightarrow> var_data \<Rightarrow> string" where
  "var_assignment name vd =
     name @ ''=('' @ join_spaces True (case vd of
         Array_data m \<Rightarrow> map index_entry (sort_key fst m)
       | Assoc_data m \<Rightarrow> map key_entry m) @ '')''"

definition print_line :: "('w, 'g) shm_env \<Rightarrow> string \<Rightarrow> 'w \<Rightarrow> 'w" where
  "print_line E line = h_print E (line @ [CHR 0x0A])"

definition shm_info_subcommand :: "('w, 'g) shm_env \<Rightarrow> 'w shm_world handler" where
  "shm_info_subcommand E list s =
     (let s = cmd_enter (described (h_texts E) ''info'') s in
      with_args (h_getopt E) loc_fields list s (\<lambda>vs.
      andthen (yield_result (resolve_dbloc (loc_args_of vs))) (\<lambda>loc.
      andthen (or_fail (get_db_loc (h_os E) loc)) (\<lambda>db.
      andthen (or_fail (use_db (db_read (h_os E)) db)) (\<lambda>repr.
      change_world (on_os (fold (\<lambda>(name, vd). print_line E (var_assignment name vd)) repr))))) s))"

definition add_to_group :: "(string \<Rightarrow> string) \<Rightarrow> 'w shm_world \<Rightarrow> string \<times> nat \<Rightarrow> (string \<times> string list) list \<Rightarrow> (string \<times> string list) list" where
  "add_to_group lossy m vi groups =
     (let key = db_key lossy (path_of (shm_dbs m ! snd vi))
      in AList.update key ((case map_of groups key of Some vs \<Rightarrow> vs | None \<Rightarrow> []) @ [fst vi]) groups)"

definition group_line :: "string \<times> string list \<Rightarrow> string" where
  "group_line g = ''DB '' @ fst g @ '': '' @ join_spaces True (snd g)"

definition ls_lines :: "(string \<Rightarrow> string) \<Rightarrow> 'w shm_world \<Rightarrow> string list" where
  "ls_lines lossy m =
     map group_line (sort_key fst (fold (add_to_group lossy m) (shm_registry m) []))"

definition shm_ls_subcommand :: "('w, 'g) shm_env \<Rightarrow> 'w shm_world handler" where
  "shm_ls_subcommand E list s =
     (let s = cmd_enter (described (h_texts E) ''ls'') s in
      with_args (h_getopt E) loc_fields list s (\<lambda>vs.
      let a = loc_args_of vs in
      if loc_s a \<noteq> None \<or> loc_n a \<noteq> None \<or> loc_m a \<noteq> None \<or> loc_f a \<noteq> None then
        andthen (yield_result (resolve_dbloc a)) (\<lambda>loc.
        change_world (\<lambda>m. on_os (fold (print_line E)
          (sort (vars_of_key (h_lossy E) (db_key (h_lossy E) loc) m))) m)) s
      else change_world (\<lambda>m. on_os (fold (print_line E) (ls_lines (h_lossy E) m)) m) s))"

definition shm_subcommands :: "('w, 'g) shm_env \<Rightarrow> (string \<times> 'w shm_world handler) list" where
  "shm_subcommands E =
     [(''bind'', shm_bind_subcommand E), (''rm'', shm_rm_subcommand E), (''unbind'', shm_unbind_subcommand E),
      (''drop'', shm_drop_subcommand E), (''clear'', shm_clear_subcommand E), (''info'', shm_info_subcommand E),
      (''ls'', shm_ls_subcommand E), (''sync'', shm_sync_subcommand E)]"

definition shm_table :: "('w, 'g) shm_env \<Rightarrow> (64 word, 'w shm_world handler) int_lookup run" where
  "shm_table E = int_lookup_new 8 (shm_subcommands E)"

definition shm_subcommand :: "('w, 'g) shm_env \<Rightarrow> 'w shm_world handler" where
  "shm_subcommand E =
     subcommand_group (h_getopt E) (described (h_texts E) ''shm'')
       (\<lambda>q. bindR (shm_table E) (\<lambda>t. lookup t q))"

section \<open>Reading a variable\<close>

text \<open>An array of bash is a map from its indices or keys to values.\<close>

definition cell_laws :: "('w \<Rightarrow> ('k \<times> string) list) \<Rightarrow> ('k \<Rightarrow> string \<Rightarrow> 'w \<Rightarrow> 'w) \<Rightarrow> ('k \<Rightarrow> 'w \<Rightarrow> 'w) \<Rightarrow> bool" where
  "cell_laws items put del \<longleftrightarrow>
     (\<forall>w. distinct (map fst (items w))) \<and>
     (\<forall>k v w. map_of (items (put k v w)) = (map_of (items w))(k \<mapsto> v)) \<and>
     (\<forall>k w. map_of (items (del k w)) = (map_of (items w))(k := None))"

lemma fold_updates:
  "map_of (fold (\<lambda>(k, v). AList.update k v) xs acc) = map_of acc ++ map_of (rev xs)"
  "distinct (map fst acc) \<Longrightarrow> distinct (map fst (fold (\<lambda>(k, v). AList.update k v) xs acc))"
  by (induction xs arbitrary: acc) (auto simp: update_conv' distinct_update)

lemma map_of_rev_distinct: "distinct (map fst xs) \<Longrightarrow> map_of (rev xs) = map_of xs"
  by (subst map_of_inject_set) (simp_all add: rev_map[symmetric])

lemma fold_dels:
  "cell_laws items put del \<Longrightarrow> map_of (items (fold del ks w)) = (map_of (items w)) |` (- set ks)"
proof (induction ks arbitrary: w)
  case (Cons k ks)
  then show ?case by (auto simp: cell_laws_def restrict_map_def fun_eq_iff)
qed (simp add: restrict_map_def)

lemma fold_sync_entry:
  assumes "cell_laws items put del" "distinct (map fst m)" "fold (sync_entry put) m (ex, w) = (ex', w')"
    and "\<And>k v. map_of ex k = Some v \<Longrightarrow> map_of (items w) k = Some v"
  shows "map_of ex' = map_of ex |` (- fst ` set m) \<and> map_of (items w') = map_of (items w) ++ map_of m"
  using assms(2-4)
proof (induction m arbitrary: ex w)
  case (Cons kv m)
  obtain k v where kv: "kv = (k, v)" by fastforce
  define w1 where "w1 = (if map_of ex k = Some v then w else put k v w)"
  have items: "map_of (items w1) = (map_of (items w))(k \<mapsto> v)"
    using assms(1) Cons.prems(3)[of k v] by (auto simp: w1_def cell_laws_def)
  have "fold (sync_entry put) m (AList.delete k ex, w1) = (ex', w')"
  proof -
    have "sync_entry put kv (ex, w) = (AList.delete k ex, w1)" by (simp add: kv sync_entry_def w1_def)
    then show ?thesis using Cons.prems(2) by simp
  qed
  moreover have "map_of (AList.delete k ex) k' = Some v' \<Longrightarrow> map_of (items w1) k' = Some v'" for k' v'
    using Cons.prems(3)[of k' v'] by (auto simp: items delete_conv' split: if_splits)
  ultimately have IH: "map_of ex' = map_of (AList.delete k ex) |` (- fst ` set m) \<and> map_of (items w') = map_of (items w1) ++ map_of m"
    using Cons.IH[of "AList.delete k ex" w1] Cons.prems(1) by simp
  have k: "map_of m k = None" using Cons.prems(1) by (simp add: kv map_of_eq_None_iff)
  show ?case
    using IH k by (auto simp: kv items delete_conv' fun_eq_iff restrict_map_def map_add_def split: option.splits)
qed (simp add: restrict_map_def)

lemma sync_array_map:
  assumes "cell_laws items put del" "distinct (map fst (case entries of Some m \<Rightarrow> m | None \<Rightarrow> []))"
  shows "map_of (items (sync_array items put del entries w)) = map_of (case entries of Some m \<Rightarrow> m | None \<Rightarrow> [])"
proof -
  define m where "m = (case entries of Some m \<Rightarrow> m | None \<Rightarrow> [])"
  define ex where "ex = fold (\<lambda>(k, v). AList.update k v) (items w) []"
  have ex: "map_of ex = map_of (items w)"
    using assms(1) by (simp add: ex_def fold_updates map_of_rev_distinct cell_laws_def)
  obtain ex' w' where f: "fold (sync_entry put) m (ex, w) = (ex', w')" by fastforce
  have "sync_array items put del entries w = fold del (map fst ex') w'"
    using f by (auto simp: sync_array_def ex_def[symmetric] m_def Let_def split: option.splits)
  moreover have st: "map_of ex' = map_of (items w) |` (- fst ` set m)" "map_of (items w') = map_of (items w) ++ map_of m"
    using fold_sync_entry[OF assms(1) _ f] assms(2) ex by (simp_all add: m_def)
  moreover have "map_of (items (fold del (map fst ex') w')) x = map_of m x" for x
  proof -
    have keys: "x \<in> set (map fst ex') \<longleftrightarrow> map_of ex' x \<noteq> None" "x \<in> fst ` set m \<longleftrightarrow> map_of m x \<noteq> None"
      by (simp_all add: map_of_eq_None_iff)
    have "map_of (items (fold del (map fst ex') w')) x = (if x \<in> set (map fst ex') then None else map_of (items w') x)"
      using fold_dels[OF assms(1), of "map fst ex'" w'] by (simp add: restrict_map_def)
    then show ?thesis
      unfolding keys(1) st using keys(2) by (cases "map_of m x") (auto simp: restrict_map_def map_add_def)
  qed
  ultimately have "map_of (items (sync_array items put del entries w)) = map_of m"
    by (simp add: fun_eq_iff)
  then show ?thesis by (simp add: m_def)
qed

lemma getter_contents:
  assumes "cell_laws (arr_items E var) (arr_put E var) (arr_del E var)" "bound_db m var = Some i"
    and "use_db (db_read (h_os E)) i m = Some (Ok repr, m1)"
    and "\<And>es. map_of repr var = Some (Array_data es) \<Longrightarrow> distinct (map fst es)"
  shows "\<exists>m2. shm_array_getter E var m = Some m2 \<and> shm_registry m2 = shm_registry m1 \<and>
    map_of (arr_items E var (shm_sys m2)) = (case map_of repr var of Some (Array_data es) \<Rightarrow> map_of es | _ \<Rightarrow> Map.empty)"
proof -
  define entries where "entries = Option.bind (entry_of var repr) as_array"
  have d: "distinct (map fst (case entries of Some m \<Rightarrow> m | None \<Rightarrow> []))"
    using assms(4) by (cases "map_of repr var"; cases "the (map_of repr var)") (auto simp: entries_def entry_of_def)
  have "shm_array_getter E var m = Some (on_os (sync_array (arr_items E var) (arr_put E var) (arr_del E var) entries) m1)"
    by (simp add: shm_array_getter_def shm_getter_def assms(2,3) entries_def)
  moreover have "map_of (case entries of Some m \<Rightarrow> m | None \<Rightarrow> []) =
      (case map_of repr var of Some (Array_data es) \<Rightarrow> map_of es | _ \<Rightarrow> Map.empty)"
    by (cases "map_of repr var"; cases "the (map_of repr var)") (auto simp: entries_def entry_of_def)
  ultimately show ?thesis using sync_array_map[OF assms(1) d, of "shm_sys m1"] by (simp add: on_os_def)
qed

text \<open>
  C6: Reading a bound variable makes the array that bash holds equal to the entry of
  the database, whatever it held before: changed and new elements are there, the
  others are gone, and without an entry of its kind the array is empty.
\<close>

theorem getter_shows_database:
  assumes "cell_laws (arr_items E var) (arr_put E var) (arr_del E var)" "bound_db m var = Some i"
    and "use_db (db_read (h_os E)) i m = Some (Ok repr, m1)"
    and "\<And>es. map_of repr var = Some (Array_data es) \<Longrightarrow> distinct (map fst es)"
  shows "\<exists>m2. shm_array_getter E var m = Some m2 \<and> shm_registry m2 = shm_registry m1 \<and>
    map_of (arr_items E var (shm_sys m2)) = (case map_of repr var of Some (Array_data es) \<Rightarrow> map_of es | _ \<Rightarrow> Map.empty)"
  by (rule getter_contents[OF assms])

text \<open>Bash's arrays next to the files.\<close>

record bash_disk = disk +
  bash_arrays :: "string \<Rightarrow> (int \<times> string) list"

definition put_array :: "string \<Rightarrow> int \<Rightarrow> string \<Rightarrow> bash_disk \<Rightarrow> bash_disk" where
  "put_array var i v w = w\<lparr>bash_arrays := (bash_arrays w)(var := AList.update i v (bash_arrays w var))\<rparr>"

definition del_array :: "string \<Rightarrow> int \<Rightarrow> bash_disk \<Rightarrow> bash_disk" where
  "del_array var i w = w\<lparr>bash_arrays := (bash_arrays w)(var := AList.delete i (bash_arrays w var))\<rparr>"

definition demo_shm :: "(char \<times> string) list getopt \<Rightarrow> (bash_disk, (char \<times> string) list) shm_env" where
  "demo_shm g = \<lparr>h_getopt = g, h_vars = \<lparr>legal_identifier = \<lambda>_. True, var_readonly = \<lambda>_ _. False, bind_variable = \<lambda>_ _. Pair True\<rparr>,
     h_os = disk_ops demo_enc demo_dec, h_texts = \<lambda>_. ([], []), h_lossy = \<lambda>s. s, h_print = \<lambda>_ w. w,
     find_variable = \<lambda>v w. Some (Indexed (AList.clearjunk (bash_arrays w v))), init_dynamic = \<lambda>_ _. Pair True,
     unbind_variable = \<lambda>v w. w\<lparr>bash_arrays := (bash_arrays w)(v := [])\<rparr>, prepare_array = \<lambda>_ _. Pair True,
     arr_items = \<lambda>v w. AList.clearjunk (bash_arrays w v), arr_put = put_array, arr_del = del_array,
     arr_max = \<lambda>v w. fold max (map fst (bash_arrays w v)) (- 1),
     assoc_items = \<lambda>_ _. [], assoc_put = \<lambda>_ _ _ w. w, assoc_del = \<lambda>_ _ w. w\<rparr>"

lemma demo_cells: "cell_laws (arr_items (demo_shm g) v) (arr_put (demo_shm g) v) (arr_del (demo_shm g) v)"
  by (simp add: cell_laws_def demo_shm_def put_array_def del_array_def map_of_clearjunk distinct_clearjunk update_conv' delete_conv')

theorem getter_shows_database_witness:
  "\<exists>m2. shm_array_getter (demo_shm (demo_getopt [] [])) ''v''
       \<lparr>shm_registry = [(''v'', 0)], shm_dbs = [Memfd \<lparr>mf_file = 92, mf_name = ''DEFAULT'', mf_rwlock = 4096\<rparr>],
        shm_sys = \<lparr>disk_pid = 7, disk_files = [92 \<mapsto> replicate 56 (CHR 0x00) @ ''demoblob''], disk_mem = \<lambda>_. [],
                   bash_arrays = \<lambda>_. [(0, ''old''), (5, ''gone'')]\<rparr>\<rparr> = Some m2 \<and>
     map_of (arr_items (demo_shm (demo_getopt [] [])) ''v'' (shm_sys m2)) = [0 \<mapsto> ''a'']"
proof -
  let ?E = "demo_shm (demo_getopt [] [])"
  let ?w = "\<lparr>disk_pid = 7, disk_files = [92 \<mapsto> replicate 56 (CHR 0x00) @ ''demoblob''], disk_mem = \<lambda>_. [],
                   bash_arrays = \<lambda>_. [(0, ''old''), (5, ''gone'')]\<rparr> :: bash_disk"
  let ?m = "\<lparr>shm_registry = [(''v'', 0)], shm_dbs = [Memfd \<lparr>mf_file = 92, mf_name = ''DEFAULT'', mf_rwlock = 4096\<rparr>], shm_sys = ?w\<rparr>"
  have h: "h_os ?E = disk_ops demo_enc demo_dec" by (simp add: demo_shm_def)
  have pread: "read_exact_at (disk_ops demo_enc demo_dec) fd n off w = disk_pread fd n off w"
      "file_len (disk_ops demo_enc demo_dec) fd w = map_option length (disk_files w fd)" for fd n off and w :: bash_disk
    by (simp_all add: disk_ops_def)
  have r: "read_blob_into (disk_ops demo_enc demo_dec) 92 56 ?w = Some (Ok demo_repr, ?w)"
    by (simp add: read_blob_into_def thenM_def read_blob_at_def pread disk_pread_def deserialize_def demo_dec_def del: replicate.simps)
  have u: "use_db (db_read (h_os ?E)) 0 ?m = Some (Ok demo_repr, ?m)"
    by (simp add: use_db_def db_read_def memfd_read_def with_rdlock_def thenM_def call_def ensuring_def h blob_read_def r)
  have b: "bound_db ?m ''v'' = Some 0" by (simp add: bound_db_def)
  obtain m2 where "shm_array_getter ?E ''v'' ?m = Some m2"
      "map_of (arr_items ?E ''v'' (shm_sys m2)) = (case map_of demo_repr ''v'' of Some (Array_data es) \<Rightarrow> map_of es | _ \<Rightarrow> Map.empty)"
    using getter_shows_database[OF demo_cells b u] by (auto simp: demo_repr_def)
  then show ?thesis by (simp add: demo_repr_def)
qed

section \<open>Well-formed databases\<close>

text \<open>Hash maps have distinct keys, and no string holds a NUL byte.\<close>

fun typed_data :: "var_data \<Rightarrow> bool" where
  "typed_data (Array_data m) \<longleftrightarrow> distinct (map fst m) \<and> list_all (nul_free \<circ> snd) m"
| "typed_data (Assoc_data m) \<longleftrightarrow> distinct (map fst m) \<and> list_all (\<lambda>(k, v). nul_free k \<and> nul_free v) m"

definition typed_db :: "database \<Rightarrow> bool" where
  "typed_db d \<longleftrightarrow> distinct (map fst d) \<and> list_all (\<lambda>(n, vd). nul_free n \<and> typed_data vd) d"

lemma set_update: "y \<in> set (AList.update k v xs) \<Longrightarrow> y = (k, v) \<or> y \<in> set xs"
  by (induction xs) (auto split: if_splits)

lemma typed_insert: "typed_data vd \<Longrightarrow> nul_free v \<Longrightarrow> typed_data (insert_index i v vd)"
    "typed_data vd \<Longrightarrow> nul_free k \<Longrightarrow> nul_free v \<Longrightarrow> typed_data (insert_key k v vd)"
  by (cases vd; auto simp: distinct_update list_all_iff dest!: set_update)+

lemma typed_change:
  assumes "typed_db d" "nul_free n" "\<And>vd. typed_data vd \<Longrightarrow> typed_data (f vd)"
  shows "typed_db (snd (change_entry n f d))"
proof -
  have "typed_data (case entry_of n d of Some vd \<Rightarrow> vd | None \<Rightarrow> var_default)"
    using assms(1) by (auto simp: typed_db_def entry_of_def var_default_def list_all_iff split: option.splits dest!: map_of_SomeD)
  then show ?thesis
    using assms by (auto simp: change_entry_def typed_db_def distinct_update list_all_iff dest!: set_update)
qed

section \<open>Quoting\<close>

text \<open>How a shell reads the rest of a double-quoted string: the text up to the
  closing quote and what follows it, \<open>None\<close> if an expansion starts or it does not end.
  A dollar sign starts one only before a name, a digit, a special parameter or an
  opening brace, parenthesis or bracket; elsewhere it stands for itself.\<close>

definition starts_expansion :: "char \<Rightarrow> bool" where
  "starts_expansion c \<longleftrightarrow> is_ascii_alphabetic c \<or> in_range 48 57 c \<or> c \<in> set ''_@*#?-$!{([''"

fun read_dquote :: "string \<Rightarrow> (string \<times> string) option" where
  "read_dquote [] = None"
| "read_dquote (c # s) =
     (if c = CHR 0x22 then Some ([], s)
      else if c = CHR 0x60 \<or> c = CHR 0x24 \<and> s \<noteq> [] \<and> starts_expansion (hd s) then None
      else if c = CHR 0x5C then
        (case s of
           [] \<Rightarrow> None
         | d # t \<Rightarrow>
             if d = CHR 0x0A then read_dquote t
             else map_option (\<lambda>(x, r). ((if d \<in> {CHR 0x24, CHR 0x60, CHR 0x22, CHR 0x5C} then [d] else [c, d]) @ x, r)) (read_dquote t))
      else map_option (\<lambda>(x, r). (c # x, r)) (read_dquote s))"

text \<open>A string that a shell expands within double quotes.\<close>

fun expands :: "string \<Rightarrow> bool" where
  "expands [] \<longleftrightarrow> False"
| "expands (c # s) \<longleftrightarrow> c = CHR 0x60 \<or> c = CHR 0x24 \<and> s \<noteq> [] \<and> starts_expansion (hd s) \<or> expands s"

text \<open>
  C31: What \<open>shm info\<close> prints for a value or a key reads back in a shell as that string,
  with whatever follows it, exactly when the string has no backquote and no dollar sign
  that starts an expansion; otherwise the shell expands a part of it.
\<close>

theorem info_quoting:
  "read_dquote (tl (escape_quoted s @ rest)) = (if expands s then None else Some (s, rest))"
proof -
  have q: "\<not> starts_expansion (CHR 0x22)" "\<not> starts_expansion (CHR 0x5C)"
    by (simp_all add: starts_expansion_def is_ascii_alphabetic_def in_range_def)
  have hd: "starts_expansion (hd (concat (map escape_byte s) @ CHR 0x22 # rest)) \<longleftrightarrow> s \<noteq> [] \<and> starts_expansion (hd s)" for s
    by (cases s) (simp_all add: escape_byte_def q)
  have "read_dquote (concat (map escape_byte s) @ CHR 0x22 # rest) = (if expands s then None else Some (s, rest))"
    by (induction s) (auto simp: escape_byte_def q hd[unfolded escape_byte_def])
  then show ?thesis by (simp add: escape_quoted_def)
qed

lemma info_quoting_examples:
  "read_dquote (tl (escape_quoted ''cost 5$'')) = Some (''cost 5$'', [])" "read_dquote (tl (escape_quoted ''a$ b'')) = Some (''a$ b'', [])"
  "read_dquote (tl (escape_quoted ''a$b'')) = None"
  by (simp_all add: escape_quoted_def escape_byte_def starts_expansion_def is_ascii_alphabetic_def in_range_def)

end
