(* ===== verification/Fcntl.thy ===== *)
theory Fcntl
  imports Fd_Io "HOL-Library.Sublist"
begin

text \<open>
  \<open>l_builtin/src/cmd_fcntl.rs\<close>: the flags and copies of a file descriptor, with the
  tables of flag names of \<open>l_builtin/c/fcntl_flags.c\<close>. The values of the flags come
  from the system's headers and are a parameter, as is \<open>fcntl\<close> itself.
\<close>

unbundle bit_operations_syntax

section \<open>Text\<close>

text \<open>\<open>str::split\<close> at a character.\<close>

fun split_at :: "char \<Rightarrow> string \<Rightarrow> string list" where
  "split_at c [] = [[]]"
| "split_at c (d # s) =
     (if d = c then [] # split_at c s
      else case split_at c s of [] \<Rightarrow> [[d]] | t # ts \<Rightarrow> (d # t) # ts)"

text \<open>\<open>str::trim\<close>: the code points of Unicode's white space in UTF-8.\<close>

definition white_space :: "string list" where
  "white_space =
     [[CHR 0x09], [CHR 0x0A], [CHR 0x0B], [CHR 0x0C], [CHR 0x0D], [CHR 0x20],
      [CHR 0xC2, CHR 0x85], [CHR 0xC2, CHR 0xA0], [CHR 0xE1, CHR 0x9A, CHR 0x80],
      [CHR 0xE2, CHR 0x80, CHR 0x80], [CHR 0xE2, CHR 0x80, CHR 0x81], [CHR 0xE2, CHR 0x80, CHR 0x82],
      [CHR 0xE2, CHR 0x80, CHR 0x83], [CHR 0xE2, CHR 0x80, CHR 0x84], [CHR 0xE2, CHR 0x80, CHR 0x85],
      [CHR 0xE2, CHR 0x80, CHR 0x86], [CHR 0xE2, CHR 0x80, CHR 0x87], [CHR 0xE2, CHR 0x80, CHR 0x88],
      [CHR 0xE2, CHR 0x80, CHR 0x89], [CHR 0xE2, CHR 0x80, CHR 0x8A], [CHR 0xE2, CHR 0x80, CHR 0xA8],
      [CHR 0xE2, CHR 0x80, CHR 0xA9], [CHR 0xE2, CHR 0x80, CHR 0xAF], [CHR 0xE2, CHR 0x81, CHR 0x9F],
      [CHR 0xE3, CHR 0x80, CHR 0x80]]"

function trim_front :: "string list \<Rightarrow> string \<Rightarrow> string" where
  "trim_front ws s =
     (case find (\<lambda>w. w \<noteq> [] \<and> prefix w s) ws of
        None \<Rightarrow> s
      | Some w \<Rightarrow> trim_front ws (drop (length w) s))"
  by pat_completeness auto
termination
  by (relation "measure (length \<circ> snd)") (auto simp: find_Some_iff prefix_def)

declare trim_front.simps [simp del]

definition trim :: "string \<Rightarrow> string" where
  "trim s = rev (trim_front (map rev white_space) (rev (trim_front white_space s)))"

fun join_commas :: "string list \<Rightarrow> string" where
  "join_commas [] = []"
| "join_commas [x] = x"
| "join_commas (x # xs) = x @ CHR '','' # join_commas xs"

text \<open>\<open>{:x}\<close> of an integer.\<close>

fun hex_number :: "nat \<Rightarrow> string" where
  "hex_number n = (if n < 16 then [hex_chars ! n] else hex_number (n div 16) @ [hex_chars ! (n mod 16)])"

declare hex_number.simps [simp del]

section \<open>Tables of flags\<close>

type_synonym flag_table = "(string \<times> 32 word) list"

text \<open>The names of the tables in the order of the source; a flag that the platform
  does not define is left out.\<close>

definition table_of :: "(string \<Rightarrow> 32 word option) \<Rightarrow> string list \<Rightarrow> flag_table" where
  "table_of defined names = concat (map (\<lambda>n. case defined n of Some f \<Rightarrow> [(n, f)] | None \<Rightarrow> []) names)"

definition open_flag_names :: "string list" where
  "open_flag_names =
     [''rdonly'', ''wronly'', ''rdwr'', ''creat'', ''excl'', ''noctty'', ''trunc'', ''append'', ''nonblock'', ''ndelay'',
      ''sync'', ''dsync'', ''rsync'', ''async'', ''direct'', ''directory'', ''nofollow'', ''noatime'', ''cloexec'', ''path'',
      ''tmpfile'', ''largefile'']"

definition fd_flag_names :: "string list" where
  "fd_flag_names = [''cloexec'']"

definition lookup_flag_in_table :: "string \<Rightarrow> flag_table \<Rightarrow> 32 word option" where
  "lookup_flag_in_table n table = map_option snd (find (\<lambda>e. fst e = n) table)"

definition shown_flags :: "32 word \<Rightarrow> flag_table \<Rightarrow> flag_table" where
  "shown_flags flags table = filter (\<lambda>(n, f). f \<noteq> 0 \<and> flags AND f \<noteq> 0 \<and> utf8_valid n) table"

definition format_flags :: "32 word \<Rightarrow> flag_table \<Rightarrow> string" where
  "format_flags flags table =
     (let parts = map fst (shown_flags flags table)
      in if parts = [] then dec_int (sint flags) else join_commas parts)"

fun add_flags :: "flag_table \<Rightarrow> string list \<Rightarrow> 32 word \<Rightarrow> 32 word option" where
  "add_flags table [] flags = Some flags"
| "add_flags table (t # ts) flags =
     (let tok = trim t in
      if tok = [] then add_flags table ts flags
      else case lookup_flag_in_table tok table of
             Some v \<Rightarrow> add_flags table ts (flags OR v)
           | None \<Rightarrow> None)"

text \<open>\<open>parse_open_flags\<close> and \<open>parse_fd_flags\<close> are this with their table.\<close>

definition parse_flag_names :: "flag_table \<Rightarrow> string \<Rightarrow> 32 word option" where
  "parse_flag_names table cptr =
     (case from_utf8 cptr of None \<Rightarrow> None | Some s \<Rightarrow> add_flags table (split_at (CHR '','') s) 0)"

definition list_lines :: "string \<Rightarrow> flag_table \<Rightarrow> string list" where
  "list_lines label table =
     map (\<lambda>(n, f). label @ '': '' @ (case from_utf8 n of Some n \<Rightarrow> n | None \<Rightarrow> ''<invalid>'') @ ''='' @ dec_int (sint f)) table"

section \<open>Subcommands\<close>

datatype fcntl_request = Getfl | Setfl "32 word" | Getfd | Setfd "32 word" | Dupfd int | Dupfd_cloexec int

record ('w, 'g) fcntl_env =
  fc_getopt :: "'g getopt"
  fc_vars :: "'w bash_vars"
  fc_texts :: "string \<Rightarrow> string \<times> string"
  fc_print :: "string \<Rightarrow> 'w \<Rightarrow> 'w"
  fc_fcntl :: "int \<Rightarrow> fcntl_request \<Rightarrow> ('w, 32 word) syscall"
  fc_flag_value :: "string \<Rightarrow> 32 word option"
  fc_fd_flag_value :: "string \<Rightarrow> 32 word option"

definition l_open_flags :: "('w, 'g) fcntl_env \<Rightarrow> flag_table" where
  "l_open_flags E = table_of (fc_flag_value E) open_flag_names"

definition l_fd_flags :: "('w, 'g) fcntl_env \<Rightarrow> flag_table" where
  "l_fd_flags E = table_of (fc_fd_flag_value E) fd_flag_names"

definition flags_arg :: "flag_table \<Rightarrow> string \<Rightarrow> fd_arg option" where
  "flags_arg table s = map_option (\<lambda>f. Nat_val (unat f)) (parse_flag_names table s)"

definition flags_val :: "fd_arg field_value \<Rightarrow> 32 word" where
  "flags_val v = of_nat (nat_val v)"

definition get_fields :: "'w bash_vars \<Rightarrow> 'w \<Rightarrow> fd_arg field list" where
  "get_fields bv w = [var_option bv w, fd_field ''fd'']"

definition set_fields :: "flag_table \<Rightarrow> fd_arg field list" where
  "set_fields table = [fd_field ''fd'', Field ''flags'' (Positional_kind (Nat_val 0)) (flags_arg table)]"

definition dup_fields :: "'w bash_vars \<Rightarrow> 'w \<Rightarrow> fd_arg field list" where
  "dup_fields bv w =
     [var_option bv w, flag_field ''cloexec'' (CHR ''c''), fd_field ''fd'',
      Field ''start'' (Optional_kind (Some (Int_val 0))) (int_arg 32)]"

definition list_fields :: "fd_arg field list" where
  "list_fields = [Field ''which'' (Optional_kind None) (\<lambda>s. map_option Text (str_from_cpnt s))]"

definition print_text :: "('w, 'g) fcntl_env \<Rightarrow> string \<Rightarrow> 'w \<Rightarrow> 'w" where
  "print_text E line = fc_print E (line @ [CHR 0x0A])"

text \<open>One call; its value goes into the variable or is printed as text.\<close>

definition fcntl_value ::
    "('w, 'g) fcntl_env \<Rightarrow> int \<Rightarrow> fcntl_request \<Rightarrow> (32 word \<Rightarrow> string) \<Rightarrow> string option \<Rightarrow> 'w \<Rightarrow> (cmd_result \<times> 'w) run option" where
  "fcntl_value E fd req text var w =
     (case fc_fcntl E fd req w of
        (Err _, w) \<Rightarrow> Some (Val (Err EXECUTION_FAILURE, w))
      | (Ok x, w) \<Rightarrow>
          (case var of
             Some v \<Rightarrow> Some (bash_var_set_signed (fc_vars E) v x w)
           | None \<Rightarrow> Some (Val (Ok (), print_text E (text x) w))))"

definition decoded_flags :: "flag_table \<Rightarrow> 32 word \<Rightarrow> string" where
  "decoded_flags table flags = format_flags flags table @ '' (0x'' @ hex_number (unat flags) @ '')''"

definition fcntl_set :: "('w, 'g) fcntl_env \<Rightarrow> int \<Rightarrow> fcntl_request \<Rightarrow> 'w \<Rightarrow> (cmd_result \<times> 'w) run option" where
  "fcntl_set E fd req w =
     (case fc_fcntl E fd req w of
        (Err _, w) \<Rightarrow> Some (Val (Err EXECUTION_FAILURE, w))
      | (Ok _, w) \<Rightarrow> Some (Val (Ok (), w)))"

definition fcntl_getfl_subcommand :: "('w, 'g) fcntl_env \<Rightarrow> 'w handler" where
  "fcntl_getfl_subcommand E list s =
     (let s = cmd_enter (described (fc_texts E) ''getfl'') s in
      with_args (fc_getopt E) (get_fields (fc_vars E) (world s)) list s (\<lambda>vs.
      on_shell (fcntl_value E (int_val (arg vs 1)) Getfl (decoded_flags (l_open_flags E)) (text_val (arg vs 0))) s))"

definition fcntl_setfl_subcommand :: "('w, 'g) fcntl_env \<Rightarrow> 'w handler" where
  "fcntl_setfl_subcommand E list s =
     (let s = cmd_enter (described (fc_texts E) ''setfl'') s in
      with_args (fc_getopt E) (set_fields (l_open_flags E)) list s (\<lambda>vs.
      on_shell (fcntl_set E (int_val (arg vs 0)) (Setfl (flags_val (arg vs 1)))) s))"

definition fcntl_getfd_subcommand :: "('w, 'g) fcntl_env \<Rightarrow> 'w handler" where
  "fcntl_getfd_subcommand E list s =
     (let s = cmd_enter (described (fc_texts E) ''getfd'') s in
      with_args (fc_getopt E) (get_fields (fc_vars E) (world s)) list s (\<lambda>vs.
      on_shell (fcntl_value E (int_val (arg vs 1)) Getfd (decoded_flags (l_fd_flags E)) (text_val (arg vs 0))) s))"

definition fcntl_setfd_subcommand :: "('w, 'g) fcntl_env \<Rightarrow> 'w handler" where
  "fcntl_setfd_subcommand E list s =
     (let s = cmd_enter (described (fc_texts E) ''setfd'') s in
      with_args (fc_getopt E) (set_fields (l_fd_flags E)) list s (\<lambda>vs.
      on_shell (fcntl_set E (int_val (arg vs 0)) (Setfd (flags_val (arg vs 1)))) s))"

definition fcntl_dup_subcommand :: "('w, 'g) fcntl_env \<Rightarrow> 'w handler" where
  "fcntl_dup_subcommand E list s =
     (let s = cmd_enter (described (fc_texts E) ''dup'') s in
      with_args (fc_getopt E) (dup_fields (fc_vars E) (world s)) list s (\<lambda>vs.
      on_shell (fcntl_value E (int_val (arg vs 2))
        ((if flag_of (arg vs 1) then Dupfd_cloexec else Dupfd) (int_val (arg vs 3)))
        (\<lambda>new_fd. dec_int (sint new_fd)) (text_val (arg vs 0))) s))"

definition fcntl_list_subcommand :: "('w, 'g) fcntl_env \<Rightarrow> 'w handler" where
  "fcntl_list_subcommand E list s =
     (let s = cmd_enter (described (fc_texts E) ''list'') s;
          open_lines = list_lines ''open'' (l_open_flags E);
          fd_lines = list_lines ''fd'' (l_fd_flags E);
          say = (\<lambda>ls. done_with (Ok ()) (set_world (fold (print_text E) ls (world s)) s))
      in with_args (fc_getopt E) list_fields list s (\<lambda>vs.
           case text_val (arg vs 0) of
             None \<Rightarrow> say (open_lines @ fd_lines)
           | Some which \<Rightarrow>
               if which = ''open'' then say open_lines
               else if which = ''fd'' then say fd_lines
               else done_with (Err EXECUTION_FAILURE) s))"

definition fcntl_subcommands :: "('w, 'g) fcntl_env \<Rightarrow> (string \<times> 'w handler) list" where
  "fcntl_subcommands E =
     [(''getfl'', fcntl_getfl_subcommand E), (''setfl'', fcntl_setfl_subcommand E), (''getfd'', fcntl_getfd_subcommand E),
      (''setfd'', fcntl_setfd_subcommand E), (''dup'', fcntl_dup_subcommand E), (''list'', fcntl_list_subcommand E)]"

definition fcntl_table :: "('w, 'g) fcntl_env \<Rightarrow> (64 word, 'w handler) int_lookup run" where
  "fcntl_table E = int_lookup_new 6 (fcntl_subcommands E)"

definition fcntl_subcommand :: "('w, 'g) fcntl_env \<Rightarrow> 'w handler" where
  "fcntl_subcommand E =
     subcommand_group (fc_getopt E) (described (fc_texts E) ''fcntl'') (\<lambda>q. bindR (fcntl_table E) (\<lambda>t. lookup t q))"

section \<open>Printing and reading flags\<close>

text \<open>A table with distinct names of lower-case letters.\<close>

definition flag_name :: "string \<Rightarrow> bool" where
  "flag_name n \<longleftrightarrow> n \<noteq> [] \<and> list_all (in_range 97 122) n"

definition named_table :: "flag_table \<Rightarrow> bool" where
  "named_table table \<longleftrightarrow> distinct (map fst table) \<and> list_all (flag_name \<circ> fst) table"

lemma trim_front_id: "list_all (\<lambda>w. w \<noteq> [] \<longrightarrow> \<not> prefix w s) ws \<Longrightarrow> trim_front ws s = s"
  by (subst trim_front.simps) (auto simp: find_Some_iff list_all_iff split: option.split dest: nth_mem)

definition visible :: "string \<Rightarrow> bool" where
  "visible s \<longleftrightarrow> list_all (in_range 33 127) s"

lemma flag_name_visible: "flag_name n \<Longrightarrow> visible n \<and> is_ascii n \<and> CHR '','' \<notin> set n"
  by (auto simp: flag_name_def visible_def is_ascii_def list_all_iff in_range_def)

lemma dec_int_visible: "visible (dec_int i) \<and> is_ascii (dec_int i) \<and> CHR '','' \<notin> set (dec_int i) \<and> \<not> flag_name (dec_int i) \<and> dec_int i \<noteq> []"
proof -
  have d: "c \<in> set (digs n) \<Longrightarrow> 48 \<le> (of_char c :: nat) \<and> of_char c \<le> (57 :: nat)" for c n
    by (auto dest!: digs_set simp: of_char_digit)
  have "c \<in> set (dec_int i) \<Longrightarrow> 45 \<le> (of_char c :: nat) \<and> of_char c \<le> (57 :: nat) \<and> of_char c \<noteq> (47 :: nat)" for c
    using d[of c "nat \<bar>i\<bar>"] by (auto simp: dec_int_def dec_def split: if_splits)
  moreover have "dec_int i \<noteq> []" by (simp add: dec_int_def dec_def digs_not_Nil)
  ultimately show ?thesis
    by (fastforce simp: visible_def is_ascii_def flag_name_def list_all_iff in_range_def neq_Nil_conv)
qed

lemma space_head: "w \<in> set white_space \<Longrightarrow> w \<noteq> [] \<and> \<not> in_range 33 127 (hd w) \<and> \<not> in_range 33 127 (last w)"
proof -
  have "list_all (\<lambda>w. w \<noteq> [] \<and> \<not> in_range 33 127 (hd w) \<and> \<not> in_range 33 127 (last w)) white_space"
    by code_simp
  then show "w \<in> set white_space \<Longrightarrow> ?thesis" by (simp add: list_all_iff)
qed

lemma trim_visible:
  assumes "visible n"
  shows "trim n = n"
proof -
  have "\<not> prefix w n" if "w \<in> set white_space" for w
    using space_head[OF that] assms by (auto simp: visible_def prefix_def list_all_iff neq_Nil_conv)
  then have f: "trim_front white_space n = n" by (intro trim_front_id) (simp add: list_all_iff)
  have "\<not> prefix (rev w) (rev n)" if "w \<in> set white_space" for w
  proof
    assume "prefix (rev w) (rev n)"
    then obtain z where "n = z @ w" by (auto simp: prefix_def) (metis rev_append rev_rev_ident)
    then show False using space_head[OF that] assms by (auto simp: visible_def list_all_iff)
  qed
  then have "trim_front (map rev white_space) (rev n) = rev n" by (intro trim_front_id) (simp add: list_all_iff)
  then show ?thesis by (simp add: trim_def f)
qed

lemma split_at_absent: "c \<notin> set s \<Longrightarrow> split_at c s = [s]"
  by (induction s) auto

lemma split_at_append: "c \<notin> set s \<Longrightarrow> split_at c (s @ c # t) = s # split_at c t"
  by (induction s) auto

lemma split_join: "xs \<noteq> [] \<Longrightarrow> list_all flag_name xs \<Longrightarrow> split_at (CHR '','') (join_commas xs) = xs"
proof (induction xs rule: join_commas.induct)
  case (2 x)
  then have "CHR '','' \<notin> set x" by (auto simp: flag_name_def list_all_iff in_range_def)
  then show ?case by (simp add: split_at_absent)
next
  case (3 x y ys)
  then have "CHR '','' \<notin> set x" by (auto simp: flag_name_def list_all_iff in_range_def)
  then show ?case using 3 by (simp add: split_at_append)
qed simp

lemma join_ascii: "list_all flag_name xs \<Longrightarrow> utf8_valid (join_commas xs)"
proof -
  assume "list_all flag_name xs"
  then have "is_ascii (join_commas xs)"
    by (induction xs rule: join_commas.induct) (auto simp: is_ascii_def flag_name_def list_all_iff in_range_def)
  then show ?thesis by (rule utf8_valid_ascii)
qed

lemma lookup_flag_map: "lookup_flag_in_table n table = map_of table n"
  by (induction table) (auto simp: lookup_flag_in_table_def)

lemma word_eq_bits: "(x :: 'a::len word) = y \<longleftrightarrow> (\<forall>i. bit x i \<longleftrightarrow> bit y i)"
  by (auto intro: bit_word_eqI)

definition or_all :: "flag_table \<Rightarrow> 32 word \<Rightarrow> 32 word" where
  "or_all es = fold (\<lambda>e acc. acc OR snd e) es"

lemma add_named_flags:
  "named_table table \<Longrightarrow> set es \<subseteq> set table \<Longrightarrow> add_flags table (map fst es) acc = Some (or_all es acc)"
proof (induction es arbitrary: acc)
  case (Cons e es)
  then have "flag_name (fst e)" "map_of table (fst e) = Some (snd e)"
    by (auto simp: named_table_def list_all_iff)
  then show ?case using Cons by (auto simp: trim_visible flag_name_visible lookup_flag_map or_all_def Let_def flag_name_def)
qed (simp add: or_all_def)

lemma bit_or_all: "bit (or_all es acc) i \<longleftrightarrow> bit acc i \<or> (\<exists>e \<in> set es. bit (snd e) i)"
  by (induction es arbitrary: acc) (auto simp: or_all_def bit_or_iff)

lemma parse_formatted:
  assumes "named_table table"
  shows "parse_flag_names table (format_flags x table) =
    (if shown_flags x table = [] then None else Some (or_all (shown_flags x table) 0))"
proof (cases "shown_flags x table = []")
  case True
  note d = dec_int_visible[of "sint x"]
  then have "map_of table (dec_int (sint x)) = None"
    using assms by (fastforce simp: named_table_def list_all_iff map_of_eq_None_iff)
  then show ?thesis
    using True d by (simp add: parse_flag_names_def format_flags_def from_utf8_def utf8_valid_ascii split_at_absent trim_visible
        lookup_flag_map Let_def)
next
  case False
  define es where "es = shown_flags x table"
  have es: "set es \<subseteq> set table" by (auto simp: es_def shown_flags_def)
  then have n: "list_all flag_name (map fst es)" using assms by (auto simp: named_table_def list_all_iff)
  have "parse_flag_names table (join_commas (map fst es)) = Some (or_all es 0)"
    using False join_ascii[OF n] split_join[OF _ n] add_named_flags[OF assms es]
    by (simp add: parse_flag_names_def from_utf8_def es_def)
  then show ?thesis using False by (simp add: format_flags_def es_def)
qed

text \<open>
  C35: Setting the flags that were printed gives the descriptor the same flags exactly
  when the flags are not empty, every bit of them has a name, and no name stands
  for several bits of which only some are set; otherwise the printed names either
  do not read back or stand for other flags.
\<close>

theorem flags_roundtrip_iff:
  assumes "named_table table"
  shows "parse_flag_names table (format_flags x table) = Some x \<longleftrightarrow>
    x \<noteq> 0 \<and> (\<forall>i. bit x i \<longrightarrow> (\<exists>e \<in> set table. bit (snd e) i)) \<and> (\<forall>e \<in> set table. x AND snd e \<noteq> 0 \<longrightarrow> x AND snd e = snd e)"
proof -
  have utf8: "utf8_valid (fst e)" if "e \<in> set table" for e
    using that assms flag_name_visible utf8_valid_ascii by (auto simp: named_table_def list_all_iff)
  then have shown: "set (shown_flags x table) = {e \<in> set table. x AND snd e \<noteq> 0}"
    by (auto simp: shown_flags_def)
  have overlap: "x AND snd e \<noteq> 0 \<longleftrightarrow> (\<exists>i. bit x i \<and> bit (snd e) i)" for e :: "string \<times> 32 word"
    by (simp add: word_eq_bits bit_and_iff)
  have within: "x AND snd e = snd e \<longleftrightarrow> (\<forall>i. bit (snd e) i \<longrightarrow> bit x i)" for e :: "string \<times> 32 word"
    by (auto simp: word_eq_bits bit_and_iff)
  have eq: "or_all (shown_flags x table) 0 = x \<longleftrightarrow> (\<forall>i. bit x i \<longleftrightarrow> (\<exists>e \<in> set table. x AND snd e \<noteq> 0 \<and> bit (snd e) i))"
    unfolding word_eq_bits[of "or_all (shown_flags x table) 0" x] bit_or_all shown mem_Collect_eq bit_0_eq bot_apply bot_bool_def by blast
  have "x = 0" if "or_all (shown_flags x table) 0 = x" "shown_flags x table = []"
    using that by (simp add: or_all_def)
  moreover have "shown_flags x table \<noteq> []" if nz: "x \<noteq> 0" and named: "\<forall>i. bit x i \<longrightarrow> (\<exists>e \<in> set table. bit (snd e) i)"
  proof -
    have "x = 0" if "\<forall>i. \<not> bit x i" using that by (intro bit_word_eqI) simp
    then obtain i where i: "bit x i" using nz by blast
    then obtain e where "e \<in> set table" "bit (snd e) i" using named by blast
    then have "e \<in> set (shown_flags x table)" unfolding shown overlap using i by blast
    then show ?thesis by auto
  qed
  moreover have "x \<noteq> 0" if "shown_flags x table \<noteq> []"
    using that by (auto simp: shown_flags_def filter_empty_conv)
  ultimately show ?thesis
    unfolding parse_formatted[OF assms] eq overlap within
    by (cases "shown_flags x table = []") (simp_all add: eq overlap, blast+)
qed

text \<open>Some flags of Linux on x86-64: the access mode and the descriptor flags that
  a name shares with others.\<close>

definition linux_flag :: "string \<Rightarrow> 32 word option" where
  "linux_flag n = map_of [(''rdonly'', 0), (''wronly'', 1), (''rdwr'', 2), (''append'', 1024), (''nonblock'', 2048),
     (''sync'', 1052672), (''dsync'', 4096), (''rsync'', 1052672), (''directory'', 65536), (''tmpfile'', 4259840)] n"

text \<open>Read-write, appending and non-blocking reads back; synchronized data comes back
  as full synchronization.\<close>

theorem flags_roundtrip_iff_witness:
  "parse_flag_names (table_of linux_flag open_flag_names) (format_flags 3074 (table_of linux_flag open_flag_names)) = Some 3074 \<and>
   parse_flag_names (table_of linux_flag open_flag_names) (format_flags 4096 (table_of linux_flag open_flag_names)) \<noteq> Some 4096"
proof -
  let ?t = "[(''rdonly'', 0), (''wronly'', 1), (''rdwr'', 2), (''append'', 1024), (''nonblock'', 2048),
     (''sync'', 1052672), (''dsync'', 4096), (''rsync'', 1052672), (''directory'', 65536), (''tmpfile'', 4259840)] :: flag_table"
  have t: "table_of linux_flag open_flag_names = ?t" by (simp add: table_of_def linux_flag_def open_flag_names_def)
  have n: "named_table ?t" by (simp add: named_table_def flag_name_def in_range_def)
  have "(3074 :: 32 word) = (2 OR 1024) OR 2048" by simp
  then have "bit (3074 :: 32 word) i \<longleftrightarrow> bit (2 :: 32 word) i \<or> bit (1024 :: 32 word) i \<or> bit (2048 :: 32 word) i" for i
    by (simp only: bit_or_iff disj_assoc)
  then have "\<forall>i. bit (3074 :: 32 word) i \<longrightarrow> (\<exists>e \<in> set ?t. bit (snd e) i)" by (simp only: list.set bex_simps snd_conv) blast
  then have "parse_flag_names ?t (format_flags 3074 ?t) = Some 3074"
    by (subst flags_roundtrip_iff[OF n]) simp
  moreover have "parse_flag_names ?t (format_flags 4096 ?t) \<noteq> Some 4096"
    by (subst flags_roundtrip_iff[OF n]) simp
  ultimately show ?thesis unfolding t by simp
qed

end
