(* ===== verification/Signals.thy ===== *)
theory Signals
  imports New_Fd
begin

text \<open>
  \<open>l_builtin/src/cmd_sig.rs\<close>, the signal mask of the shell, with the part of
  \<open>l_run_with_unblocked\<close> of \<open>l_builtin/c/l_bash_api.c\<close> that handles the mask, and
  \<open>l_builtin/src/signalfd.rs\<close>. \<open>sigprocmask\<close>, \<open>signalfd\<close>, bash's decoding and names
  of signals and the execution of a command are parameters; a jump out of the
  command to the top level of the shell is not modelled.
\<close>

section \<open>Sets of signals\<close>

type_synonym sigset = "int set"

datatype mask_how = Sig_block | Sig_unblock | Sig_setmask

text \<open>\<open>all_signals\<close> are the signals that a set can hold, \<open>sigaddset\<close> ignores others;
  \<open>caught_trap\<close> is the first of the signals with a pending trap.\<close>

record ('w, 'g) sig_env =
  sg_getopt :: "'g getopt"
  sg_vars :: "'w bash_vars"
  sg_texts :: "string \<Rightarrow> string \<times> string"
  sg_print :: "string \<Rightarrow> 'w \<Rightarrow> 'w"
  sg_os :: "'w db_ops"
  all_signals :: sigset
  nsig :: int
  decode_signal :: "string \<Rightarrow> int"
  signal_name :: "int \<Rightarrow> string option"
  sigprocmask :: "mask_how \<Rightarrow> sigset \<Rightarrow> ('w, unit) syscall"
  current_mask :: "('w, sigset) syscall"
  sys_signalfd :: "sigset \<Rightarrow> bool \<Rightarrow> ('w, int) syscall"
  caught_trap :: "sigset \<Rightarrow> 'w \<Rightarrow> int option"
  run_traps :: "'w \<Rightarrow> 'w"
  run_command :: "word_list \<Rightarrow> 'w \<Rightarrow> int \<times> 'w"
  sg_prepare :: "string \<Rightarrow> 'w \<Rightarrow> bool \<times> 'w"
  sg_put :: "string \<Rightarrow> int \<Rightarrow> string \<Rightarrow> 'w \<Rightarrow> 'w"

definition ALL_SIG :: int where "ALL_SIG = 2147483647"

definition sigaddset :: "('w, 'g) sig_env \<Rightarrow> int \<Rightarrow> sigset \<Rightarrow> sigset" where
  "sigaddset E sig st = (if sig \<in> all_signals E then insert sig st else st)"

definition decode_sigspec :: "('w, 'g) sig_env \<Rightarrow> string \<Rightarrow> int option" where
  "decode_sigspec E s =
     (if map ascii_lower s = ''all'' then Some ALL_SIG
      else if decode_signal E s < 0 then None
      else Some (decode_signal E s))"

definition sigspec_add :: "('w, 'g) sig_env \<Rightarrow> string \<Rightarrow> sigset \<Rightarrow> sigset option" where
  "sigspec_add E s st =
     (case decode_sigspec E s of
        Some sig \<Rightarrow> Some (if sig = ALL_SIG then all_signals E else sigaddset E sig st)
      | None \<Rightarrow> None)"

fun sigspecs_add :: "('w, 'g) sig_env \<Rightarrow> string list \<Rightarrow> sigset \<Rightarrow> sigset option" where
  "sigspecs_add E [] st = Some st"
| "sigspecs_add E (s # ss) st = Option.bind (sigspec_add E s st) (sigspecs_add E ss)"

definition sig_modify_block :: "('w, 'g) sig_env \<Rightarrow> string list \<Rightarrow> bool \<Rightarrow> 'w \<Rightarrow> cmd_result \<times> 'w" where
  "sig_modify_block E sigs block w =
     (case sigspecs_add E sigs {} of
        None \<Rightarrow> (Err EXECUTION_FAILURE, w)
      | Some st \<Rightarrow>
          if sigs = [] then (Err EX_USAGE, w)
          else (case sigprocmask E (if block then Sig_block else Sig_unblock) st w of
                  (Err _, w) \<Rightarrow> (Err EXECUTION_FAILURE, w)
                | (Ok _, w) \<Rightarrow> (Ok (), w)))"

text \<open>The words after the separator are the command.\<close>

fun split_sigs_and_cmd :: "('w, 'g) sig_env \<Rightarrow> word_list \<Rightarrow> sigset \<Rightarrow> bool \<Rightarrow> (sigset \<times> word_list, exit_code) result" where
  "split_sigs_and_cmd E (Some w # ws) st saw_any =
     (if w = ''--'' then
        (if \<not> saw_any then Err EX_USAGE else if ws = [] then Err EX_USAGE else Ok (st, ws))
      else case sigspec_add E w st of
             None \<Rightarrow> Err EXECUTION_FAILURE
           | Some st \<Rightarrow> split_sigs_and_cmd E ws st True)"
| "split_sigs_and_cmd E _ st saw_any = Err EX_USAGE"

text \<open>The numbers below \<open>NSIG\<close> in order; the blocked ones with a name.\<close>

definition blocked_names :: "('w, 'g) sig_env \<Rightarrow> sigset \<Rightarrow> string list" where
  "blocked_names E msk =
     concat (map (\<lambda>i. if i \<in> msk then (case signal_name E i of Some n \<Rightarrow> [n] | None \<Rightarrow> []) else []) [1..nsig E - 1])"

definition put_names :: "('w, 'g) sig_env \<Rightarrow> string \<Rightarrow> string list \<Rightarrow> 'w \<Rightarrow> 'w" where
  "put_names E v names w = fold (\<lambda>(i, n). sg_put E v (int i + 1) n) (enumerate 0 names) w"

definition sig_list_emit :: "('w, 'g) sig_env \<Rightarrow> string option \<Rightarrow> 'w \<Rightarrow> cmd_result \<times> 'w" where
  "sig_list_emit E var w =
     (case current_mask E w of
        (Err _, w) \<Rightarrow> (Err EXECUTION_FAILURE, w)
      | (Ok msk, w) \<Rightarrow>
          (case var of
             None \<Rightarrow> (Ok (), fold (\<lambda>n. sg_print E (n @ [CHR 0x0A])) (blocked_names E msk) w)
           | Some v \<Rightarrow>
               (case sg_prepare E v w of
                  (False, w) \<Rightarrow> (Err EXECUTION_FAILURE, w)
                | (True, w) \<Rightarrow> (Ok (), put_names E v (blocked_names E msk) w))))"

text \<open>The unwind frame restores the old mask on every way out.\<close>

definition restore_mask :: "('w, 'g) sig_env \<Rightarrow> sigset \<Rightarrow> 'w \<Rightarrow> 'w" where
  "restore_mask E old w = snd (sigprocmask E Sig_setmask old w)"

definition l_run_with_unblocked :: "('w, 'g) sig_env \<Rightarrow> word_list \<Rightarrow> sigset \<Rightarrow> 'w \<Rightarrow> cmd_result \<times> 'w" where
  "l_run_with_unblocked E cmd unblocked w =
     (case current_mask E w of
        (Err _, w) \<Rightarrow> (Err EXECUTION_FAILURE, w)
      | (Ok old, w) \<Rightarrow>
     (case sigprocmask E Sig_setmask (old - {i \<in> unblocked. 1 \<le> i \<and> i < nsig E}) w of
        (Err _, w) \<Rightarrow> (Err EXECUTION_FAILURE, restore_mask E old w)
      | (Ok _, w) \<Rightarrow>
     (case caught_trap E {i \<in> unblocked. 1 \<le> i \<and> i < nsig E} w of
        Some i \<Rightarrow> (Err (Code (128 + i)), restore_mask E old (run_traps E w))
      | None \<Rightarrow>
     (case run_command E cmd (run_traps E w) of
        (rc, w) \<Rightarrow> (if rc = 0 then Ok () else Err (Code rc), restore_mask E old w)))))"

section \<open>Subcommands\<close>

definition on_shell_ok :: "('w \<Rightarrow> cmd_result \<times> 'w) \<Rightarrow> 'w shell \<Rightarrow> (cmd_result \<times> 'w shell) run option" where
  "on_shell_ok f = on_shell (\<lambda>w. Some (Val (f w)))"

definition rest_field :: "string \<Rightarrow> fd_arg field" where
  "rest_field n = Field n Rest_view_kind text_arg"

fun rest_words :: "fd_arg field_value \<Rightarrow> word_list" where
  "rest_words (Words ws) = ws"
| "rest_words _ = []"

definition sig_list :: "('w, 'g) sig_env \<Rightarrow> 'w handler" where
  "sig_list E list s =
     (let s = cmd_enter (described (sg_texts E) ''list'') s in
      with_args (sg_getopt E) [var_option (sg_vars E) (world s)] list s (\<lambda>vs.
      on_shell_ok (sig_list_emit E (text_val (arg vs 0))) s))"

definition sig_block :: "('w, 'g) sig_env \<Rightarrow> 'w handler" where
  "sig_block E list s =
     (let s = cmd_enter (described (sg_texts E) ''block'') s in
      with_args (sg_getopt E) [rest_field ''sigs''] list s (\<lambda>vs.
      on_shell_ok (sig_modify_block E (words_collect (rest_words (arg vs 0))) True) s))"

definition sig_unblock :: "('w, 'g) sig_env \<Rightarrow> 'w handler" where
  "sig_unblock E list s =
     (let s = cmd_enter (described (sg_texts E) ''unblock'') s in
      with_args (sg_getopt E) [rest_field ''sigs''] list s (\<lambda>vs.
      on_shell_ok (sig_modify_block E (words_collect (rest_words (arg vs 0))) False) s))"

definition sig_run :: "('w, 'g) sig_env \<Rightarrow> 'w handler" where
  "sig_run E list s =
     (let s = cmd_enter (described (sg_texts E) ''run'') s in
      with_args (sg_getopt E) [rest_field ''rest''] list s (\<lambda>vs.
      case split_sigs_and_cmd E (rest_words (arg vs 0)) {} False of
        Err e \<Rightarrow> done_with (Err e) s
      | Ok (st, cmd) \<Rightarrow> on_shell_ok (l_run_with_unblocked E cmd st) s))"

definition sig_subcommands :: "('w, 'g) sig_env \<Rightarrow> (string \<times> 'w handler) list" where
  "sig_subcommands E =
     [(''list'', sig_list E), (''block'', sig_block E), (''unblock'', sig_unblock E), (''run'', sig_run E)]"

definition sig_table :: "('w, 'g) sig_env \<Rightarrow> (64 word, 'w handler) int_lookup run" where
  "sig_table E = int_lookup_new 4 (sig_subcommands E)"

definition sig_subcommand :: "('w, 'g) sig_env \<Rightarrow> 'w handler" where
  "sig_subcommand E =
     subcommand_group (sg_getopt E) (described (sg_texts E) ''sig'') (\<lambda>q. bindR (sig_table E) (\<lambda>t. lookup t q))"

section \<open>signalfd\<close>

text \<open>The numbers of Linux.\<close>

definition signal_numbers :: "(string \<times> int) list" where
  "signal_numbers =
     [(''HUP'', 1), (''INT'', 2), (''QUIT'', 3), (''ILL'', 4), (''TRAP'', 5), (''ABRT'', 6), (''BUS'', 7), (''FPE'', 8),
      (''KILL'', 9), (''USR1'', 10), (''SEGV'', 11), (''USR2'', 12), (''PIPE'', 13), (''ALRM'', 14), (''TERM'', 15),
      (''CHLD'', 17), (''CONT'', 18), (''STOP'', 19), (''TSTP'', 20), (''TTIN'', 21), (''TTOU'', 22), (''URG'', 23),
      (''XCPU'', 24), (''XFSZ'', 25), (''VTALRM'', 26), (''PROF'', 27), (''WINCH'', 28), (''IO'', 29), (''SYS'', 31)]"

definition ascii_upper :: "char \<Rightarrow> char" where
  "ascii_upper c = (if in_range 97 122 c then char_of (of_char c - 32 :: nat) else c)"

definition parse_signal :: "string \<Rightarrow> int option" where
  "parse_signal s =
     (let base = (if take 3 s = ''SIG'' then drop 3 s else s) in
      case map_of signal_numbers (map ascii_upper base) of
        Some n \<Rightarrow> Some n
      | None \<Rightarrow> parse_signed 10 32 s)"

fun signal_set :: "('w, 'g) sig_env \<Rightarrow> string list \<Rightarrow> sigset \<Rightarrow> (sigset, exit_code) result" where
  "signal_set E [] st = Ok st"
| "signal_set E (w # ws) st =
     (case from_utf8 w of
        None \<Rightarrow> Err EX_USAGE
      | Some s \<Rightarrow> (case parse_signal s of
                     Some n \<Rightarrow> signal_set E ws (sigaddset E n st)
                   | None \<Rightarrow> Err EX_USAGE))"

definition signalfd_fields :: "'w bash_vars \<Rightarrow> 'w \<Rightarrow> fd_arg field list" where
  "signalfd_fields bv w =
     [flag_field ''nonblock'' (CHR ''n''), flag_field ''block'' (CHR ''b''), flag_field ''nocloexec'' (CHR ''C''),
      var_option bv w, rest_field ''signals'']"

definition signalfd_open ::
    "('w, 'g) sig_env \<Rightarrow> sigset \<Rightarrow> bool \<Rightarrow> bool \<Rightarrow> bool \<Rightarrow> string option \<Rightarrow> 'w \<Rightarrow> (cmd_result \<times> 'w) run option" where
  "signalfd_open E st block nonblock nocloexec var w =
     (case (if block then sigprocmask E Sig_block st w else (Ok (), w)) of
        (Err _, w) \<Rightarrow> Some (Val (Err EXECUTION_FAILURE, w))
      | (Ok _, w) \<Rightarrow>
     (case new_fd (sg_os E) (sys_signalfd E st nonblock) (\<not> nocloexec) w of
        None \<Rightarrow> None
      | Some (Err e, w) \<Rightarrow> Some (Val (Err e, w))
      | Some (Ok fd, w) \<Rightarrow>
          (case var of
             None \<Rightarrow> Some (Val (Ok (), sg_print E (dec_int fd @ [CHR 0x0A]) w))
           | Some v \<Rightarrow>
               Some (bindR (bash_var_set_signed (sg_vars E) v (word_of_int fd :: 64 word) w) (\<lambda>(r, w).
                 Val (case r of Ok _ \<Rightarrow> (Ok (), w) | Err e \<Rightarrow> (Err e, close_file (sg_os E) fd w)))))))"

definition signalfd_subcommand :: "('w, 'g) sig_env \<Rightarrow> 'w handler" where
  "signalfd_subcommand E list s =
     (let s = cmd_enter (described (sg_texts E) ''signalfd'') s in
      with_args (sg_getopt E) (signalfd_fields (sg_vars E) (world s)) list s (\<lambda>vs.
      case (if rest_words (arg vs 4) = [] then Ok (all_signals E)
            else signal_set E (words_collect (rest_words (arg vs 4))) {}) of
        Err e \<Rightarrow> done_with (Err e) s
      | Ok st \<Rightarrow>
          on_shell (signalfd_open E st (flag_of (arg vs 1)) (flag_of (arg vs 0)) (flag_of (arg vs 2)) (text_val (arg vs 3))) s))"

section \<open>Properties\<close>

text \<open>The mask \<open>mk\<close> of the process: some signals can never be blocked, the other
  requests do what they say and do not fail.\<close>

definition mask_laws :: "('w, 'g) sig_env \<Rightarrow> ('w \<Rightarrow> sigset) \<Rightarrow> sigset \<Rightarrow> bool" where
  "mask_laws E mk unblockable \<longleftrightarrow>
     (\<forall>w. mk w \<inter> unblockable = {} \<and> current_mask E w = (Ok (mk w), w)) \<and>
     (\<forall>how st w. \<exists>w'. sigprocmask E how st w = (Ok (), w') \<and>
        mk w' = (case how of
                   Sig_block \<Rightarrow> mk w \<union> (st - unblockable)
                 | Sig_unblock \<Rightarrow> mk w - st
                 | Sig_setmask \<Rightarrow> st - unblockable))"

text \<open>The signals that a specification stands for.\<close>

definition spec_signals :: "('w, 'g) sig_env \<Rightarrow> string \<Rightarrow> sigset" where
  "spec_signals E s =
     (case decode_sigspec E s of
        None \<Rightarrow> {}
      | Some sig \<Rightarrow> if sig = ALL_SIG then all_signals E else {sig} \<inter> all_signals E)"

lemma sigspecs_add_signals:
  assumes "st \<subseteq> all_signals E"
  shows "sigspecs_add E ss st =
    (if \<exists>s \<in> set ss. decode_sigspec E s = None then None else Some (st \<union> (\<Union>s \<in> set ss. spec_signals E s)))"
  using assms
proof (induction ss arbitrary: st)
  case (Cons s ss)
  show ?case
  proof (cases "decode_sigspec E s")
    case (Some sig)
    have "sigspec_add E s st = Some (st \<union> spec_signals E s)" "st \<union> spec_signals E s \<subseteq> all_signals E"
      using Cons.prems Some by (auto simp: sigspec_add_def sigaddset_def spec_signals_def)
    then show ?thesis using Cons.IH[of "st \<union> spec_signals E s"] Some by (auto simp: Un_assoc)
  qed (simp add: sigspec_add_def)
qed simp

lemma procmask_step:
  assumes "mask_laws E mk ub" "sigprocmask E how st w = (r, w')"
  shows "r = Ok ()" "mk w' = (case how of Sig_block \<Rightarrow> mk w \<union> (st - ub) | Sig_unblock \<Rightarrow> mk w - st | Sig_setmask \<Rightarrow> st - ub)"
  using assms unfolding mask_laws_def by (metis prod.inject)+

lemma restored_mask:
  assumes "mask_laws E mk ub"
  shows "mk (restore_mask E (mk w) w') = mk w"
proof -
  obtain r w1 where s: "sigprocmask E Sig_setmask (mk w) w' = (r, w1)" by fastforce
  have "mk w \<inter> ub = {}" using assms unfolding mask_laws_def by blast
  then show ?thesis using procmask_step(2)[OF assms s] s by (auto simp: restore_mask_def)
qed

text \<open>
  \<open>sig block\<close> with valid specifications adds exactly the signals they stand for to
  the mask of the shell, but for those that cannot be blocked, \<open>sig unblock\<close> takes
  exactly them out again, and \<open>sig list\<close> then names the blocked signals in the
  order of their numbers; an invalid specification changes nothing, even after
  valid ones.
\<close>

lemma sig_block_list:
  assumes "mask_laws E mk unblockable" "specs \<noteq> []"
  shows "case sig_modify_block E specs block w of (r, w1) \<Rightarrow>
    if \<exists>s \<in> set specs. decode_sigspec E s = None then r = Err EXECUTION_FAILURE \<and> w1 = w
    else r = Ok () \<and>
      mk w1 = (let sigs = (\<Union>s \<in> set specs. spec_signals E s) in if block then mk w \<union> (sigs - unblockable) else mk w - sigs) \<and>
      sig_list_emit E None w1 = (Ok (), fold (\<lambda>n. sg_print E (n @ [CHR 0x0A])) (blocked_names E (mk w1)) w1)"
proof -
  note add = sigspecs_add_signals[of "{}" E specs, simplified]
  show ?thesis
  proof (cases "\<exists>s \<in> set specs. decode_sigspec E s = None")
    case True
    then show ?thesis by (simp add: sig_modify_block_def add)
  next
    case False
    define sigs where "sigs = (\<Union>s \<in> set specs. spec_signals E s)"
    obtain r w1 where p: "sigprocmask E (if block then Sig_block else Sig_unblock) sigs w = (r, w1)" by fastforce
    note s = procmask_step[OF assms(1) p]
    have m: "sig_modify_block E specs block w = (Ok (), w1)"
      using False assms(2) s(1) p by (auto simp: sig_modify_block_def add sigs_def)
    have c: "current_mask E w1 = (Ok (mk w1), w1)" using assms(1) unfolding mask_laws_def by blast
    show ?thesis using False s(2) by (simp add: m Let_def sig_list_emit_def c flip: sigs_def)
  qed
qed

text \<open>A shell with a few names, in which the signals 9 and 19 cannot be blocked.\<close>

record sig_disk = disk +
  blocked :: sigset
  printed :: string

definition sig_mask :: "sig_disk \<Rightarrow> sigset" where
  "sig_mask w = blocked w - {9, 19}"

definition demo_sig :: "(sig_disk, (char \<times> string) list) sig_env" where
  "demo_sig = \<lparr>sg_getopt = demo_getopt [] [],
     sg_vars = \<lparr>legal_identifier = \<lambda>_. True, var_readonly = \<lambda>_ _. False, bind_variable = \<lambda>_ _ w. (True, w)\<rparr>,
     sg_texts = \<lambda>_. ([], []), sg_print = \<lambda>x w. w\<lparr>printed := printed w @ x\<rparr>, sg_os = disk_ops demo_enc demo_dec,
     all_signals = {1..64}, nsig = 65,
     decode_signal = \<lambda>s. case map_of [(''INT'', 2), (''KILL'', 9), (''USR1'', 10)] s of Some n \<Rightarrow> n | None \<Rightarrow> - 1,
     signal_name = map_of [(2, ''SIGINT''), (9, ''SIGKILL''), (10, ''SIGUSR1'')],
     sigprocmask = \<lambda>how st w. (Ok (), w\<lparr>blocked := (case how of
         Sig_block \<Rightarrow> sig_mask w \<union> st | Sig_unblock \<Rightarrow> sig_mask w - st | Sig_setmask \<Rightarrow> st)\<rparr>),
     current_mask = \<lambda>w. (Ok (sig_mask w), w), sys_signalfd = \<lambda>_ _ w. (Ok 5, w), caught_trap = \<lambda>_ _. None, run_traps = \<lambda>w. w,
     run_command = \<lambda>_ w. (3, w\<lparr>blocked := {1}\<rparr>), sg_prepare = \<lambda>_ w. (True, w), sg_put = \<lambda>_ _ _ w. w\<rparr>"

lemma demo_mask_laws: "mask_laws demo_sig sig_mask {9, 19}"
  by (auto simp: mask_laws_def demo_sig_def sig_mask_def split: mask_how.split)

lemma sig_block_list_witness:
  "\<exists>w1. sig_modify_block demo_sig [''INT'', ''KILL''] True
       \<lparr>disk_pid = 7, disk_files = \<lambda>_. None, disk_mem = \<lambda>_. [], blocked = {10}, printed = []\<rparr> = (Ok (), w1) \<and> sig_mask w1 = {2, 10}"
proof -
  let ?w = "\<lparr>disk_pid = 7, disk_files = \<lambda>_. None, disk_mem = \<lambda>_. [], blocked = {10}, printed = []\<rparr> :: sig_disk"
  obtain r w1 where m: "sig_modify_block demo_sig [''INT'', ''KILL''] True ?w = (r, w1)" by fastforce
  have d: "decode_sigspec demo_sig ''INT'' = Some 2" "decode_sigspec demo_sig ''KILL'' = Some 9"
    by (simp_all add: decode_sigspec_def demo_sig_def ascii_lower_def in_range_def char_of_def bit_Suc_0_iff)
  then have s: "spec_signals demo_sig ''INT'' = {2}" "spec_signals demo_sig ''KILL'' = {9}"
    by (simp_all add: spec_signals_def ALL_SIG_def demo_sig_def)
  have "r = Ok () \<and> sig_mask w1 = {2, 10}"
    using sig_block_list[OF demo_mask_laws, where specs = "[''INT'', ''KILL'']" and block = True and w = ?w] d s by (auto simp: m sig_mask_def)
  then show ?thesis using m by blast
qed

text \<open>
  C36: \<open>sig run\<close> takes the listed signals out of the mask, runs the pending traps and,
  if no listed signal has one, the command with the mask that the traps leave; when it
  returns the mask of the shell is what it was, whatever the traps and the command did
  to it, as long as \<open>sigprocmask\<close> does not fail.
\<close>

theorem sig_run_restores_mask:
  assumes "mask_laws E mk unblockable" "unblocked \<subseteq> {1..<nsig E}"
    and "l_run_with_unblocked E cmd unblocked w = (r, w')"
  shows "mk w' = mk w \<and> (\<exists>w1. mk w1 = mk w - unblocked \<and>
    (case caught_trap E unblocked w1 of
       Some i \<Rightarrow> r = Err (Code (128 + i)) \<and> w' = restore_mask E (mk w) (run_traps E w1)
     | None \<Rightarrow> \<exists>rc w2. run_command E cmd (run_traps E w1) = (rc, w2) \<and>
         r = (if rc = 0 then Ok () else Err (Code rc)) \<and> w' = restore_mask E (mk w) w2))"
proof -
  have c: "current_mask E w = (Ok (mk w), w)" "mk w \<inter> unblockable = {}" using assms(1) unfolding mask_laws_def by blast+
  have u: "{i \<in> unblocked. 1 \<le> i \<and> i < nsig E} = unblocked" using assms(2) by auto
  obtain x w1 where p: "sigprocmask E Sig_setmask (mk w - unblocked) w = (x, w1)" by fastforce
  have s: "x = Ok ()" "mk w1 = mk w - unblocked" using procmask_step[OF assms(1) p] c(2) by auto
  have e: "case caught_trap E unblocked w1 of
       Some i \<Rightarrow> r = Err (Code (128 + i)) \<and> w' = restore_mask E (mk w) (run_traps E w1)
     | None \<Rightarrow> \<exists>rc w2. run_command E cmd (run_traps E w1) = (rc, w2) \<and>
         r = (if rc = 0 then Ok () else Err (Code rc)) \<and> w' = restore_mask E (mk w) w2"
    using assms(3) by (cases "run_command E cmd (run_traps E w1)"; cases "caught_trap E unblocked w1")
      (auto simp: l_run_with_unblocked_def c(1) u p s(1))
  have "\<exists>w2. w' = restore_mask E (mk w) w2" using e by (auto split: option.splits)
  then have "mk w' = mk w" using restored_mask[OF assms(1)] by blast
  then show ?thesis using s(2) e by blast
qed

text \<open>In a shell whose trap of the signal 1 empties the mask, and whose commands block
  the signal 1.\<close>

definition trapping_sig :: "(sig_disk, (char \<times> string) list) sig_env" where
  "trapping_sig = demo_sig\<lparr>run_traps := \<lambda>w. w\<lparr>blocked := {}\<rparr>\<rparr>"

lemma trapping_mask_laws: "mask_laws trapping_sig sig_mask {9, 19}"
  using demo_mask_laws by (simp add: mask_laws_def trapping_sig_def)

theorem sig_run_restores_mask_witness:
  "\<exists>w'. l_run_with_unblocked trapping_sig [Some ''sleep'', Some ''1''] {2}
       \<lparr>disk_pid = 7, disk_files = \<lambda>_. None, disk_mem = \<lambda>_. [], blocked = {2, 10}, printed = []\<rparr> = (Err (Code 3), w') \<and>
     sig_mask w' = {2, 10}"
proof -
  let ?w = "\<lparr>disk_pid = 7, disk_files = \<lambda>_. None, disk_mem = \<lambda>_. [], blocked = {2, 10}, printed = []\<rparr> :: sig_disk"
  obtain w' where r: "l_run_with_unblocked trapping_sig [Some ''sleep'', Some ''1''] {2} ?w = (Err (Code 3), w')"
    by (simp add: l_run_with_unblocked_def trapping_sig_def demo_sig_def)
  have "sig_mask w' = sig_mask ?w"
    using sig_run_restores_mask[OF trapping_mask_laws _ r] by (simp add: trapping_sig_def demo_sig_def)
  also have "\<dots> = {2, 10}" by (auto simp: sig_mask_def)
  finally show ?thesis using r by blast
qed

end
