(* ===== verification/Epoll.thy ===== *)
theory Epoll
  imports New_Fd
begin

text \<open>
  \<open>l_builtin/src/cmd_epoll.rs\<close>: readiness of descriptors. The system calls, bash's
  arrays, floating-point arithmetic and the converter of durations (where it does
  not panic, see \<open>duration_from_cpnt\<close>) are parameters; a duration is a number of
  nanoseconds.
\<close>

unbundle bit_operations_syntax

section \<open>Events\<close>

definition EPOLLIN :: "32 word" where "EPOLLIN = 1"
definition EPOLLPRI :: "32 word" where "EPOLLPRI = 2"
definition EPOLLOUT :: "32 word" where "EPOLLOUT = 4"
definition EPOLLERR :: "32 word" where "EPOLLERR = 8"
definition EPOLLHUP :: "32 word" where "EPOLLHUP = 16"
definition EPOLLET :: "32 word" where "EPOLLET = 2147483648"

definition event_bit :: "char \<Rightarrow> 32 word" where
  "event_bit ch =
     (if ch = CHR ''r'' then EPOLLIN else if ch = CHR ''w'' then EPOLLOUT
      else if ch = CHR ''p'' then EPOLLPRI else if ch = CHR ''t'' then EPOLLET else 0)"

definition parse_events :: "string option \<Rightarrow> 32 word" where
  "parse_events s =
     (let s = (case s of Some s \<Rightarrow> s | None \<Rightarrow> ''r'') in
      if s = [] then EPOLLIN
      else let ev = fold (\<lambda>ch ev. ev OR event_bit ch) s 0 in if ev = 0 then EPOLLIN else ev)"

definition event_tokens :: "(char \<times> 32 word) list" where
  "event_tokens =
     [(CHR ''r'', EPOLLIN), (CHR ''w'', EPOLLOUT), (CHR ''p'', EPOLLPRI), (CHR ''h'', EPOLLHUP), (CHR ''e'', EPOLLERR),
      (CHR ''t'', EPOLLET)]"

definition format_events :: "32 word \<Rightarrow> string" where
  "format_events ev =
     (let s = map fst (filter (\<lambda>(c, b). ev AND b \<noteq> 0) event_tokens) in if s = [] then ''(none)'' else s)"

text \<open>\<open>as c_int\<close> saturates.\<close>

definition duration_to_ms :: "'f f64_ops \<Rightarrow> nat \<Rightarrow> int" where
  "duration_to_ms F d =
     (let secs = f_add F (f_of_int F (int (d div 10 ^ 9))) (f_div F (f_of_int F (int (d mod 10 ^ 9))) (f_of_int F (10 ^ 9)));
          ms = max (- (2 ^ 31)) (min (2 ^ 31 - 1) (f_to_i64 F (f_round F (f_mul F secs (f_of_int F 1000)))))
      in max ms 0)"

section \<open>The system\<close>

datatype epoll_ctl = Ctl_add "32 word" "64 word" | Ctl_mod "32 word" "64 word" | Ctl_del

text \<open>A ready event has its mask and the number given with the descriptor.\<close>

type_synonym epoll_event = "32 word \<times> 64 word"

record ('w, 'f, 'g) epoll_env =
  ep_getopt :: "'g getopt"
  ep_vars :: "'w bash_vars"
  ep_texts :: "string \<Rightarrow> string \<times> string"
  ep_os :: "'w db_ops"
  ep_arith :: "'f f64_ops"
  ep_duration :: "string \<Rightarrow> nat option"
  sys_epoll_create :: "('w, int) syscall"
  sys_epoll_ctl :: "int \<Rightarrow> int \<Rightarrow> epoll_ctl \<Rightarrow> ('w, unit) syscall"
  sys_epoll_wait :: "int \<Rightarrow> nat \<Rightarrow> int \<Rightarrow> ('w, epoll_event list) syscall"
  ep_prepare :: "string \<Rightarrow> 'w \<Rightarrow> bool \<times> 'w"
  ep_put :: "string \<Rightarrow> int \<Rightarrow> string \<Rightarrow> 'w \<Rightarrow> 'w"

definition EPOLL_MAX_EVENTS :: nat where "EPOLL_MAX_EVENTS = 256"

section \<open>Creating and registering\<close>

definition epoll_create_fields :: "'w bash_vars \<Rightarrow> 'w \<Rightarrow> fd_arg field list" where
  "epoll_create_fields bv w = [flag_field ''nocloexec'' (CHR ''C''), var_positional bv w ''fd_var'']"

definition epoll_create_subcommand :: "('w, 'f, 'g) epoll_env \<Rightarrow> 'w handler" where
  "epoll_create_subcommand E list s =
     (let s = cmd_enter (described (ep_texts E) ''create'') s in
      with_args (ep_getopt E) (epoll_create_fields (ep_vars E) (world s)) list s (\<lambda>vs.
      on_shell (new_fd_into (ep_vars E) (ep_os E) (sys_epoll_create E) (\<not> flag_of (arg vs 0)) (text_of (arg vs 1))) s))"

definition epoll_ctl_fields :: "fd_arg field list" where
  "epoll_ctl_fields =
     [fd_field ''epfd'', fd_field ''fd'', Field ''events'' (Optional_kind None) (\<lambda>s. map_option Text (str_from_cpnt s))]"

definition epoll_ctl_call :: "('w, 'f, 'g) epoll_env \<Rightarrow> int \<Rightarrow> int \<Rightarrow> epoll_ctl \<Rightarrow> 'w \<Rightarrow> (cmd_result \<times> 'w) run option" where
  "epoll_ctl_call E epfd fd ctl w =
     (case sys_epoll_ctl E epfd fd ctl w of
        (Err _, w) \<Rightarrow> Some (Val (Err EXECUTION_FAILURE, w))
      | (Ok _, w) \<Rightarrow> Some (Val (Ok (), w)))"

definition epoll_add_subcommand :: "('w, 'f, 'g) epoll_env \<Rightarrow> 'w handler" where
  "epoll_add_subcommand E list s =
     (let s = cmd_enter (described (ep_texts E) ''add'') s in
      with_args (ep_getopt E) epoll_ctl_fields list s (\<lambda>vs.
      on_shell (epoll_ctl_call E (int_val (arg vs 0)) (int_val (arg vs 1))
        (Ctl_add (parse_events (text_val (arg vs 2))) (word_of_int (int_val (arg vs 1))))) s))"

definition epoll_mod_subcommand :: "('w, 'f, 'g) epoll_env \<Rightarrow> 'w handler" where
  "epoll_mod_subcommand E list s =
     (let s = cmd_enter (described (ep_texts E) ''mod'') s in
      with_args (ep_getopt E) epoll_ctl_fields list s (\<lambda>vs.
      on_shell (epoll_ctl_call E (int_val (arg vs 0)) (int_val (arg vs 1))
        (Ctl_mod (parse_events (text_val (arg vs 2))) (word_of_int (int_val (arg vs 1))))) s))"

definition epoll_del_fields :: "fd_arg field list" where
  "epoll_del_fields = [fd_field ''epfd'', fd_field ''fd'']"

definition epoll_del_subcommand :: "('w, 'f, 'g) epoll_env \<Rightarrow> 'w handler" where
  "epoll_del_subcommand E list s =
     (let s = cmd_enter (described (ep_texts E) ''del'') s in
      with_args (ep_getopt E) epoll_del_fields list s (\<lambda>vs.
      on_shell (epoll_ctl_call E (int_val (arg vs 0)) (int_val (arg vs 1)) Ctl_del) s))"

section \<open>Waiting\<close>

text \<open>The number of an event as a descriptor, with its tokens.\<close>

definition ready_entry :: "epoll_event \<Rightarrow> int \<times> string" where
  "ready_entry ev = (sint (ucast (snd ev) :: 32 word), format_events (fst ev))"

text \<open>\<open>drain_call\<close> is \<open>epoll_wait\<close> without a timeout.\<close>

partial_function (option) epoll_drain ::
    "('w, epoll_event list) syscall \<Rightarrow> epoll_event list \<Rightarrow> (int \<times> string) list \<Rightarrow> 'w \<Rightarrow> ((int \<times> string) list \<times> 'w) option" where
  "epoll_drain drain_call events ready w =
     (let ready = ready @ map ready_entry events in
      if length events < EPOLL_MAX_EVENTS then Some (ready, w)
      else case drain_call w of
             (Err _, w) \<Rightarrow> Some (ready, w)
           | (Ok events, w) \<Rightarrow> if events = [] then Some (ready, w) else epoll_drain drain_call events ready w)"

definition populate_ready_array :: "('w, 'f, 'g) epoll_env \<Rightarrow> string \<Rightarrow> (int \<times> string) list \<Rightarrow> 'w \<Rightarrow> cmd_result \<times> 'w" where
  "populate_ready_array E var ready w =
     (case ep_prepare E var w of
        (False, w) \<Rightarrow> (Err EXECUTION_FAILURE, w)
      | (True, w) \<Rightarrow> (Ok (), fold (\<lambda>(fd, ev). ep_put E var fd ev) ready w))"

definition epoll_wait_fields :: "(string \<Rightarrow> nat option) \<Rightarrow> 'w bash_vars \<Rightarrow> 'w \<Rightarrow> fd_arg field list" where
  "epoll_wait_fields dur bv w =
     [Field ''timeout'' (Opt_kind (CHR ''t'') None) (\<lambda>s. map_option Nat_val (dur s)), var_option bv w, fd_field ''epfd'']"

definition epoll_wait_into ::
    "('w, 'f, 'g) epoll_env \<Rightarrow> int \<Rightarrow> nat option \<Rightarrow> string option \<Rightarrow> 'w \<Rightarrow> (cmd_result \<times> 'w) run option" where
  "epoll_wait_into E epfd timeout var w =
     (let timeout_ms = (case timeout of Some d \<Rightarrow> duration_to_ms (ep_arith E) d | None \<Rightarrow> - 1) in
      case sys_epoll_wait E epfd EPOLL_MAX_EVENTS timeout_ms w of
        (Err _, w) \<Rightarrow> Some (Val (Err EXECUTION_FAILURE, w))
      | (Ok events, w) \<Rightarrow>
          (case epoll_drain (sys_epoll_wait E epfd EPOLL_MAX_EVENTS 0) events [] w of
             None \<Rightarrow> None
           | Some (ready, w) \<Rightarrow>
               Some (Val (case var of None \<Rightarrow> (Ok (), w) | Some v \<Rightarrow> populate_ready_array E v ready w))))"

definition epoll_wait_subcommand :: "('w, 'f, 'g) epoll_env \<Rightarrow> 'w handler" where
  "epoll_wait_subcommand E list s =
     (let s = cmd_enter (described (ep_texts E) ''wait'') s in
      with_args (ep_getopt E) (epoll_wait_fields (ep_duration E) (ep_vars E) (world s)) list s (\<lambda>vs.
      on_shell (epoll_wait_into E (int_val (arg vs 2))
        (case arg vs 0 of Value (Nat_val d) \<Rightarrow> Some d | _ \<Rightarrow> None) (text_val (arg vs 1))) s))"

definition epoll_subcommands :: "('w, 'f, 'g) epoll_env \<Rightarrow> (string \<times> 'w handler) list" where
  "epoll_subcommands E =
     [(''create'', epoll_create_subcommand E), (''add'', epoll_add_subcommand E), (''mod'', epoll_mod_subcommand E),
      (''del'', epoll_del_subcommand E), (''wait'', epoll_wait_subcommand E)]"

definition epoll_table :: "('w, 'f, 'g) epoll_env \<Rightarrow> (64 word, 'w handler) int_lookup run" where
  "epoll_table E = int_lookup_new 5 (epoll_subcommands E)"

definition epoll_subcommand :: "('w, 'f, 'g) epoll_env \<Rightarrow> 'w handler" where
  "epoll_subcommand E =
     subcommand_group (ep_getopt E) (described (ep_texts E) ''epoll'') (\<lambda>q. bindR (epoll_table E) (\<lambda>t. lookup t q))"

section \<open>Returning\<close>

text \<open>A call that fills the buffer, and the state after \<open>k\<close> calls.\<close>

definition full_call :: "('w, epoll_event list) syscall \<Rightarrow> 'w \<Rightarrow> bool" where
  "full_call c w \<longleftrightarrow> (case c w of (Ok events, _) \<Rightarrow> EPOLL_MAX_EVENTS \<le> length events | (Err _, _) \<Rightarrow> False)"

fun after_calls :: "('w, epoll_event list) syscall \<Rightarrow> nat \<Rightarrow> 'w \<Rightarrow> 'w" where
  "after_calls c 0 w = w"
| "after_calls c (Suc k) w = after_calls c k (snd (c w))"

lemma epoll_drain_full:
  assumes "full_call c w" "EPOLL_MAX_EVENTS \<le> length events"
  obtains evs where "c w = (Ok evs, snd (c w))" "EPOLL_MAX_EVENTS \<le> length evs"
    "epoll_drain c events ready w = epoll_drain c evs (ready @ map ready_entry events) (snd (c w))"
proof -
  obtain evs w1 where c: "c w = (Ok evs, w1)" "EPOLL_MAX_EVENTS \<le> length evs"
    using assms(1) by (cases "c w") (auto simp: full_call_def split: result.splits)
  then have "evs \<noteq> []" by (auto simp: EPOLL_MAX_EVENTS_def)
  then have "epoll_drain c events ready w = epoll_drain c evs (ready @ map ready_entry events) w1"
    using assms(2) c by (subst epoll_drain.simps) (simp add: Let_def)
  with c show ?thesis using that by simp
qed

lemma epoll_drain_last:
  assumes "\<not> (full_call c w \<and> EPOLL_MAX_EVENTS \<le> length events)"
  shows "epoll_drain c events ready w \<noteq> None"
proof (cases "EPOLL_MAX_EVENTS \<le> length events")
  case True
  obtain r w1 where c: "c w = (r, w1)" by fastforce
  show ?thesis
  proof (cases r)
    case (Ok evs)
    then have "length evs < EPOLL_MAX_EVENTS" using assms True c by (simp add: full_call_def)
    then have "epoll_drain c evs rd w1 \<noteq> None" for rd by (subst epoll_drain.simps) simp
    then show ?thesis by (subst epoll_drain.simps) (simp add: c Ok Let_def)
  qed (subst epoll_drain.simps, simp add: c Let_def)
qed (subst epoll_drain.simps, simp add: Let_def)

lemma epoll_drain_returns:
  "epoll_drain c events ready w \<noteq> None \<longleftrightarrow>
     length events < EPOLL_MAX_EVENTS \<or> (\<exists>k. \<not> full_call c (after_calls c k w))"
proof
  assume "length events < EPOLL_MAX_EVENTS \<or> (\<exists>k. \<not> full_call c (after_calls c k w))"
  then consider "length events < EPOLL_MAX_EVENTS" | k where "\<not> full_call c (after_calls c k w)" by blast
  then show "epoll_drain c events ready w \<noteq> None"
  proof cases
    case 2
    then show ?thesis
    proof (induction k arbitrary: events ready w)
      case (Suc k)
      show ?case
      proof (cases "full_call c w \<and> EPOLL_MAX_EVENTS \<le> length events")
        case True
        then obtain evs where "epoll_drain c events ready w = epoll_drain c evs (ready @ map ready_entry events) (snd (c w))"
          using epoll_drain_full by metis
        then show ?thesis using Suc by simp
      qed (rule epoll_drain_last)
    qed (simp add: epoll_drain_last)
  qed (simp add: epoll_drain_last)
next
  let ?P = "\<lambda>c evs ready w y. length evs < EPOLL_MAX_EVENTS \<or> (\<exists>k. \<not> full_call c (after_calls c k w))"
  assume "epoll_drain c events ready w \<noteq> None"
  then obtain y where "epoll_drain c events ready w = Some y" by blast
  then show "length events < EPOLL_MAX_EVENTS \<or> (\<exists>k. \<not> full_call c (after_calls c k w))"
  proof (rule epoll_drain.raw_induct[where P = ?P, rotated])
    fix loop c evs ready w y
    assume IH: "\<And>c evs ready w y. loop c evs ready w = Some y \<Longrightarrow> ?P c evs ready w y"
      and eq: "(let ready = ready @ map ready_entry evs in
        if length evs < EPOLL_MAX_EVENTS then Some (ready, w)
        else case c w of
               (Ok events, w) \<Rightarrow> if events = [] then Some (ready, w) else loop c events ready w
             | (Err _, w) \<Rightarrow> Some (ready, w)) = Some y"
    show "?P c evs ready w y"
    proof (cases "full_call c w \<and> EPOLL_MAX_EVENTS \<le> length evs")
      case True
      then obtain evs2 where c: "c w = (Ok evs2, snd (c w))" "EPOLL_MAX_EVENTS \<le> length evs2"
        using epoll_drain_full by metis
      then have "evs2 \<noteq> []" by (auto simp: EPOLL_MAX_EVENTS_def)
      then have "loop c evs2 (ready @ map ready_entry evs) (snd (c w)) = Some y"
        using eq True c(1) by (auto simp: Let_def split: prod.splits)
      from IH[OF this] c(2) obtain k where "\<not> full_call c (after_calls c k (snd (c w)))" by auto
      then show ?thesis by (intro disjI2 exI[of _ "Suc k"]) simp
    next
      case False
      then show ?thesis by (cases "full_call c w") (auto intro: exI[of _ 0])
    qed
  qed
qed

text \<open>
  C37: \<open>epoll wait\<close> returns exactly when the first call fails or fills less than its
  buffer of 256 events, or a later one does, fails or finds nothing. The later
  calls do not wait, so as long as 256 descriptors stay ready, as
  level-triggered ones do until they are read, the subcommand does not return,
  whatever its timeout.
\<close>

theorem epoll_wait_returns:
  "epoll_wait_into E epfd timeout var w \<noteq> None \<longleftrightarrow>
     (case sys_epoll_wait E epfd EPOLL_MAX_EVENTS (case timeout of Some d \<Rightarrow> duration_to_ms (ep_arith E) d | None \<Rightarrow> - 1) w of
        (Err _, _) \<Rightarrow> True
      | (Ok events, w1) \<Rightarrow>
          length events < EPOLL_MAX_EVENTS \<or>
          (\<exists>k. \<not> full_call (sys_epoll_wait E epfd EPOLL_MAX_EVENTS 0) (after_calls (sys_epoll_wait E epfd EPOLL_MAX_EVENTS 0) k w1)))"
  unfolding epoll_drain_returns[where ready = "[]", symmetric]
  by (auto simp: epoll_wait_into_def Let_def split: prod.split result.split option.split)

theorem epoll_wait_returns_witness:
  "\<forall>E :: (unit, unit, unit) epoll_env.
     epoll_wait_into (E\<lparr>sys_epoll_wait := \<lambda>_ n _ w. (Ok (replicate n (EPOLLIN, 5)), w)\<rparr>) 3 (Some 0) None () = None \<and>
     epoll_wait_into (E\<lparr>sys_epoll_wait := \<lambda>_ n _ w. (Ok (replicate (n - 1) (EPOLLIN, 5)), w)\<rparr>) 3 (Some 0) None () \<noteq> None"
proof
  fix E :: "(unit, unit, unit) epoll_env"
  have after: "after_calls (Pair (Ok evs)) k w = w" for evs :: "epoll_event list" and k and w :: unit
    by (induction k) auto
  show "epoll_wait_into (E\<lparr>sys_epoll_wait := \<lambda>_ n _ w. (Ok (replicate n (EPOLLIN, 5)), w)\<rparr>) 3 (Some 0) None () = None \<and>
     epoll_wait_into (E\<lparr>sys_epoll_wait := \<lambda>_ n _ w. (Ok (replicate (n - 1) (EPOLLIN, 5)), w)\<rparr>) 3 (Some 0) None () \<noteq> None"
    using epoll_wait_returns[of "E\<lparr>sys_epoll_wait := \<lambda>_ n _ w. (Ok (replicate n (EPOLLIN, 5)), w)\<rparr>" 3 "Some 0" None "()"]
      epoll_wait_returns[of "E\<lparr>sys_epoll_wait := \<lambda>_ n _ w. (Ok (replicate (n - 1) (EPOLLIN, 5)), w)\<rparr>" 3 "Some 0" None "()"]
    by (simp add: full_call_def EPOLL_MAX_EVENTS_def after)
qed

end
