(* ===== verification/Descriptors.thy ===== *)
theory Descriptors
  imports Fcntl Signals
begin

text \<open>
  Subcommands of one system call on a descriptor: \<open>l_builtin/src/close.rs\<close>,
  \<open>lseek.rs\<close>, \<open>flock.rs\<close>, \<open>shutdown.rs\<close>, \<open>splice.rs\<close>, \<open>timerfd.rs\<close>, and \<open>sleep.rs\<close>. The
  system calls and the converter of durations (where it does not panic, see
  \<open>duration_from_cpnt\<close>) are parameters; a duration is a number of nanoseconds.
\<close>

unbundle bit_operations_syntax

section \<open>The system\<close>

text \<open>\<open>as_timespec\<close>: \<open>as time_t\<close> wraps.\<close>

definition as_timespec :: "nat \<Rightarrow> timespec" where
  "as_timespec d = \<lparr>tv_sec = sint (of_nat (d div 10 ^ 9) :: 64 word), tv_nsec = int (d mod 10 ^ 9)\<rparr>"

text \<open>An interrupted \<open>nanosleep\<close> gives the time that remains; \<open>timerfd_settime\<close>
  takes the interval and the first expiry.\<close>

record ('w, 'g) ds_env =
  ds_getopt :: "'g getopt"
  ds_vars :: "'w bash_vars"
  ds_texts :: "string \<Rightarrow> string \<times> string"
  ds_os :: "'w db_ops"
  ds_duration :: "string \<Rightarrow> nat option"
  sys_close :: "int \<Rightarrow> ('w, unit) syscall"
  sys_lseek :: "int \<Rightarrow> int \<Rightarrow> int \<Rightarrow> ('w, int) syscall"
  sys_flock :: "int \<Rightarrow> 32 word \<Rightarrow> ('w, unit) syscall"
  sys_shutdown :: "int \<Rightarrow> int \<Rightarrow> ('w, unit) syscall"
  sys_splice :: "int \<Rightarrow> int \<Rightarrow> nat \<Rightarrow> 32 word \<Rightarrow> ('w, nat) syscall"
  nanosleep :: "timespec \<Rightarrow> 'w \<Rightarrow> (unit, int \<times> timespec) result \<times> 'w"
  timerfd_create :: "int \<Rightarrow> bool \<Rightarrow> ('w, int) syscall"
  timerfd_settime :: "int \<Rightarrow> timespec \<Rightarrow> timespec \<Rightarrow> ('w, unit) syscall"

fun ints_val :: "fd_arg field_value \<Rightarrow> int list" where
  "ints_val (Values vs) = map (\<lambda>v. int_val (Value v)) vs"
| "ints_val _ = []"

definition duration_arg :: "('w, 'g) ds_env \<Rightarrow> string \<Rightarrow> fd_arg option" where
  "duration_arg E s = map_option Nat_val (ds_duration E s)"

text \<open>A system call without a result.\<close>

definition plain_call :: "('w, unit) syscall \<Rightarrow> 'w \<Rightarrow> cmd_result \<times> 'w" where
  "plain_call c w = (case c w of (Err _, w) \<Rightarrow> (Err EXECUTION_FAILURE, w) | (Ok _, w) \<Rightarrow> (Ok (), w))"

section \<open>close\<close>

definition close_fields :: "fd_arg field list" where
  "close_fields = [fd_field ''fd'', Field ''fds'' Rest_vec_kind (int_arg 32)]"

fun close_all :: "('w, 'g) ds_env \<Rightarrow> int list \<Rightarrow> 'w \<Rightarrow> cmd_result \<times> 'w" where
  "close_all E [] w = (Ok (), w)"
| "close_all E (fd # fds) w =
     (case sys_close E fd w of
        (Err _, w) \<Rightarrow> (Err EXECUTION_FAILURE, w)
      | (Ok _, w) \<Rightarrow> close_all E fds w)"

definition close_subcommand :: "('w, 'g) ds_env \<Rightarrow> 'w handler" where
  "close_subcommand E list s =
     (let s = cmd_enter (described (ds_texts E) ''close'') s in
      with_args (ds_getopt E) close_fields list s (\<lambda>vs.
      on_shell_ok (close_all E (int_val (arg vs 0) # ints_val (arg vs 1))) s))"

section \<open>lseek\<close>

definition parse_whence :: "string \<Rightarrow> int option" where
  "parse_whence cptr =
     (case from_utf8 cptr of
        None \<Rightarrow> None
      | Some s \<Rightarrow> map_of [(''SET'', 0), (''0'', 0), (''CUR'', 1), (''1'', 1), (''END'', 2), (''2'', 2)] s)"

definition lseek_fields :: "'w bash_vars \<Rightarrow> 'w \<Rightarrow> fd_arg field list" where
  "lseek_fields bv w =
     [var_option bv w, fd_field ''fd'', Field ''offset'' (Positional_kind (Int_val 0)) (int_arg 64),
      Field ''whence'' (Optional_kind (Some (Int_val 0))) (\<lambda>s. map_option Int_val (parse_whence s))]"

definition lseek_into :: "('w, 'g) ds_env \<Rightarrow> int \<Rightarrow> int \<Rightarrow> int \<Rightarrow> string option \<Rightarrow> 'w \<Rightarrow> (cmd_result \<times> 'w) run option" where
  "lseek_into E fd offset whence var w =
     (case sys_lseek E fd offset whence w of
        (Err _, w) \<Rightarrow> Some (Val (Err EXECUTION_FAILURE, w))
      | (Ok r, w) \<Rightarrow>
          (case var of
             None \<Rightarrow> Some (Val (Ok (), w))
           | Some v \<Rightarrow> Some (bash_var_set_signed (ds_vars E) v (word_of_int r :: 64 word) w)))"

definition lseek_subcommand :: "('w, 'g) ds_env \<Rightarrow> 'w handler" where
  "lseek_subcommand E list s =
     (let s = cmd_enter (described (ds_texts E) ''lseek'') s in
      with_args (ds_getopt E) (lseek_fields (ds_vars E) (world s)) list s (\<lambda>vs.
      on_shell (lseek_into E (int_val (arg vs 1)) (int_val (arg vs 2)) (int_val (arg vs 3)) (text_val (arg vs 0))) s))"

section \<open>flock\<close>

definition LOCK_SH :: "32 word" where "LOCK_SH = 1"
definition LOCK_EX :: "32 word" where "LOCK_EX = 2"
definition LOCK_NB :: "32 word" where "LOCK_NB = 4"
definition LOCK_UN :: "32 word" where "LOCK_UN = 8"

definition flock_fields :: "fd_arg field list" where
  "flock_fields =
     [flag_field ''exclusive_x'' (CHR ''x''), flag_field ''exclusive_e'' (CHR ''e''), flag_field ''shared'' (CHR ''s''),
      flag_field ''unlock'' (CHR ''u''), flag_field ''nonblock'' (CHR ''n''), fd_field ''fd'']"

definition flock_op :: "bool \<Rightarrow> bool \<Rightarrow> bool \<Rightarrow> bool \<Rightarrow> bool \<Rightarrow> 32 word option" where
  "flock_op x e shared unlock nonblock =
     (let (op, chosen) = (if x \<or> e then (LOCK_EX, 1 :: nat) else (0, 0));
          (op, chosen) = (if shared then (op OR LOCK_SH, chosen + 1) else (op, chosen));
          (op, chosen) = (if unlock then (op OR LOCK_UN, chosen + 1) else (op, chosen))
      in if chosen > 1 then None
         else let op = (if chosen = 0 then op OR LOCK_EX else op)
              in Some (if nonblock then op OR LOCK_NB else op))"

definition flock_fd :: "('w, 'g) ds_env \<Rightarrow> int \<Rightarrow> 32 word option \<Rightarrow> 'w \<Rightarrow> cmd_result \<times> 'w" where
  "flock_fd E fd op w =
     (if fd < 0 then (Err EX_USAGE, w)
      else case op of None \<Rightarrow> (Err EX_USAGE, w) | Some op \<Rightarrow> plain_call (sys_flock E fd op) w)"

definition flock_subcommand :: "('w, 'g) ds_env \<Rightarrow> 'w handler" where
  "flock_subcommand E list s =
     (let s = cmd_enter (described (ds_texts E) ''flock'') s in
      with_args (ds_getopt E) flock_fields list s (\<lambda>vs.
      on_shell_ok (flock_fd E (int_val (arg vs 5))
        (flock_op (flag_of (arg vs 0)) (flag_of (arg vs 1)) (flag_of (arg vs 2)) (flag_of (arg vs 3)) (flag_of (arg vs 4)))) s))"

section \<open>shutdown\<close>

definition parse_how :: "string \<Rightarrow> int option" where
  "parse_how cptr =
     (case from_utf8 cptr of
        None \<Rightarrow> None
      | Some s \<Rightarrow> map_of [(''RD'', 0), (''0'', 0), (''WR'', 1), (''1'', 1), (''RDWR'', 2), (''2'', 2)] s)"

definition shutdown_fields :: "fd_arg field list" where
  "shutdown_fields =
     [fd_field ''fd'', Field ''how'' (Optional_kind (Some (Int_val 2))) (\<lambda>s. map_option Int_val (parse_how s))]"

definition shutdown_subcommand :: "('w, 'g) ds_env \<Rightarrow> 'w handler" where
  "shutdown_subcommand E list s =
     (let s = cmd_enter (described (ds_texts E) ''shutdown'') s in
      with_args (ds_getopt E) shutdown_fields list s (\<lambda>vs.
      on_shell_ok (plain_call (sys_shutdown E (int_val (arg vs 0)) (int_val (arg vs 1)))) s))"

section \<open>splice\<close>

definition splice_flags :: "(string \<times> 32 word) list" where
  "splice_flags = [(''move'', 1), (''nonblock'', 2), (''more'', 4), (''gift'', 8)]"

fun splice_bits :: "string list \<Rightarrow> 32 word \<Rightarrow> 32 word option" where
  "splice_bits [] flags = Some flags"
| "splice_bits (tok # toks) flags =
     (case map_of splice_flags (map ascii_lower (trim tok)) of
        Some v \<Rightarrow> splice_bits toks (flags OR v)
      | None \<Rightarrow> None)"

definition parse_splice_flags :: "string \<Rightarrow> 32 word option" where
  "parse_splice_flags cptr =
     (case from_utf8 cptr of None \<Rightarrow> None | Some s \<Rightarrow> splice_bits (split_at (CHR '','') s) 0)"

definition splice_fields :: "'w bash_vars \<Rightarrow> 'w \<Rightarrow> fd_arg field list" where
  "splice_fields bv w =
     [var_option bv w, fd_field ''fd_in'', fd_field ''fd_out'',
      Field ''len'' (Optional_kind (Some (Nat_val (2 ^ 64 - 1)))) (nat_arg 64),
      Field ''flags'' (Optional_kind (Some (Nat_val 0))) (\<lambda>s. map_option (\<lambda>v. Nat_val (unat v)) (parse_splice_flags s))]"

definition splice_into ::
    "('w, 'g) ds_env \<Rightarrow> int \<Rightarrow> int \<Rightarrow> nat \<Rightarrow> 32 word \<Rightarrow> string option \<Rightarrow> 'w \<Rightarrow> (cmd_result \<times> 'w) run option" where
  "splice_into E fd_in fd_out len flags var w =
     (case sys_splice E fd_in fd_out len flags w of
        (Err _, w) \<Rightarrow> Some (Val (Err EXECUTION_FAILURE, w))
      | (Ok moved, w) \<Rightarrow>
          (case var of
             None \<Rightarrow> Some (Val (Ok (), w))
           | Some v \<Rightarrow> Some (bash_var_set_signed (ds_vars E) v (of_nat moved :: 64 word) w)))"

definition splice_subcommand :: "('w, 'g) ds_env \<Rightarrow> 'w handler" where
  "splice_subcommand E list s =
     (let s = cmd_enter (described (ds_texts E) ''splice'') s in
      with_args (ds_getopt E) (splice_fields (ds_vars E) (world s)) list s (\<lambda>vs.
      on_shell (splice_into E (int_val (arg vs 1)) (int_val (arg vs 2)) (nat_val (arg vs 3)) (of_nat (nat_val (arg vs 4)))
        (text_val (arg vs 0))) s))"

section \<open>sleep\<close>

text \<open>The loop goes on with the remaining time; a duration is never negative, so
  the test for that has no branch here.\<close>

partial_function (option) sleep_loop ::
    "(timespec \<Rightarrow> 'w \<Rightarrow> (unit, int \<times> timespec) result \<times> 'w) \<Rightarrow> bool \<Rightarrow> timespec \<Rightarrow> 'w \<Rightarrow> (cmd_result \<times> 'w) option" where
  "sleep_loop pause interruptible ts w =
     (case pause ts w of
        (Ok _, w) \<Rightarrow> Some (Ok (), w)
      | (Err (e, remaining), w) \<Rightarrow>
          if e = EINTR \<and> \<not> interruptible then sleep_loop pause interruptible remaining w
          else Some (Err EXECUTION_FAILURE, w))"

definition sleep_fields :: "('w, 'g) ds_env \<Rightarrow> fd_arg field list" where
  "sleep_fields E =
     [flag_field ''interruptible'' (CHR ''i''), Field ''seconds'' (Positional_kind (Nat_val 0)) (duration_arg E)]"

definition sleep_for :: "('w, 'g) ds_env \<Rightarrow> bool \<Rightarrow> nat \<Rightarrow> 'w \<Rightarrow> (cmd_result \<times> 'w) run option" where
  "sleep_for E interruptible d w = map_option Val (sleep_loop (nanosleep E) interruptible (as_timespec d) w)"

definition sleep_subcommand :: "('w, 'g) ds_env \<Rightarrow> 'w handler" where
  "sleep_subcommand E list s =
     (let s = cmd_enter (described (ds_texts E) ''sleep'') s in
      with_args (ds_getopt E) (sleep_fields E) list s (\<lambda>vs.
      on_shell (sleep_for E (flag_of (arg vs 0)) (nat_val (arg vs 1))) s))"

section \<open>timerfd\<close>

definition CLOCK_REALTIME :: int where "CLOCK_REALTIME = 0"
definition CLOCK_MONOTONIC :: int where "CLOCK_MONOTONIC = 1"

definition parse_clock :: "string option \<Rightarrow> int option" where
  "parse_clock s =
     (case map_option (map ascii_upper) s of
        None \<Rightarrow> Some CLOCK_MONOTONIC
      | Some c \<Rightarrow>
          if c \<in> {''MONOTONIC'', ''CLOCK_MONOTONIC''} then Some CLOCK_MONOTONIC
          else if c \<in> {''REALTIME'', ''CLOCK_REALTIME''} then Some CLOCK_REALTIME
          else None)"

definition duration_option :: "('w, 'g) ds_env \<Rightarrow> string \<Rightarrow> char \<Rightarrow> fd_arg field" where
  "duration_option E n c = Field n (Opt_kind c (Some (Nat_val 0))) (duration_arg E)"

definition clock_option :: "fd_arg field" where
  "clock_option = Field ''clock'' (Opt_kind (CHR ''c'') None) text_arg"

definition timerfd_create_fields :: "('w, 'g) ds_env \<Rightarrow> 'w \<Rightarrow> fd_arg field list" where
  "timerfd_create_fields E w =
     [flag_field ''nonblock'' (CHR ''n''), clock_option, duration_option E ''initial'' (CHR ''s''),
      duration_option E ''interval'' (CHR ''i''), var_positional (ds_vars E) w ''fd_var'']"

text \<open>A clock name that is not UTF-8 counts as none.\<close>

definition timerfd_make ::
    "('w, 'g) ds_env \<Rightarrow> bool \<Rightarrow> string option \<Rightarrow> nat \<Rightarrow> nat \<Rightarrow> string \<Rightarrow> 'w \<Rightarrow> (cmd_result \<times> 'w) run option" where
  "timerfd_make E nonblock clock initial interval var w =
     (case (case clock of None \<Rightarrow> Some CLOCK_MONOTONIC | Some p \<Rightarrow> parse_clock (from_utf8 p)) of
        None \<Rightarrow> Some (Val (Err EXECUTION_FAILURE, w))
      | Some clock \<Rightarrow>
     (case new_fd (ds_os E) (timerfd_create E clock nonblock) True w of
        None \<Rightarrow> None
      | Some (Err e, w) \<Rightarrow> Some (Val (Err e, w))
      | Some (Ok fd, w) \<Rightarrow>
     (case (if 0 < initial \<or> 0 < interval then timerfd_settime E fd (as_timespec interval) (as_timespec initial) w
            else (Ok (), w)) of
        (Err _, w) \<Rightarrow> Some (Val (Err EXECUTION_FAILURE, close_file (ds_os E) fd w))
      | (Ok _, w) \<Rightarrow> Some (bash_var_set_signed (ds_vars E) var (word_of_int fd :: 64 word) w))))"

definition timerfd_create_subcommand :: "('w, 'g) ds_env \<Rightarrow> 'w handler" where
  "timerfd_create_subcommand E list s =
     (let s = cmd_enter (described (ds_texts E) ''create'') s in
      with_args (ds_getopt E) (timerfd_create_fields E (world s)) list s (\<lambda>vs.
      on_shell (timerfd_make E (flag_of (arg vs 0)) (text_val (arg vs 1)) (nat_val (arg vs 2)) (nat_val (arg vs 3))
        (text_of (arg vs 4))) s))"

definition timerfd_set_fields :: "('w, 'g) ds_env \<Rightarrow> fd_arg field list" where
  "timerfd_set_fields E =
     [fd_field ''fd'', duration_option E ''initial'' (CHR ''s''), duration_option E ''interval'' (CHR ''i''), clock_option]"

definition timerfd_set :: "('w, 'g) ds_env \<Rightarrow> int \<Rightarrow> nat \<Rightarrow> nat \<Rightarrow> 'w \<Rightarrow> cmd_result \<times> 'w" where
  "timerfd_set E fd initial interval w =
     (if initial = 0 \<and> interval = 0 then (Err EX_USAGE, w)
      else plain_call (timerfd_settime E fd (as_timespec interval) (as_timespec initial)) w)"

definition timerfd_set_subcommand :: "('w, 'g) ds_env \<Rightarrow> 'w handler" where
  "timerfd_set_subcommand E list s =
     (let s = cmd_enter (described (ds_texts E) ''set'') s in
      with_args (ds_getopt E) (timerfd_set_fields E) list s (\<lambda>vs.
      on_shell_ok (timerfd_set E (int_val (arg vs 0)) (nat_val (arg vs 1)) (nat_val (arg vs 2))) s))"

definition timerfd_subcommands :: "('w, 'g) ds_env \<Rightarrow> (string \<times> 'w handler) list" where
  "timerfd_subcommands E = [(''create'', timerfd_create_subcommand E), (''set'', timerfd_set_subcommand E)]"

definition timerfd_table :: "('w, 'g) ds_env \<Rightarrow> (64 word, 'w handler) int_lookup run" where
  "timerfd_table E = int_lookup_new 2 (timerfd_subcommands E)"

definition timerfd_subcommand :: "('w, 'g) ds_env \<Rightarrow> 'w handler" where
  "timerfd_subcommand E =
     subcommand_group (ds_getopt E) (described (ds_texts E) ''timerfd'') (\<lambda>q. bindR (timerfd_table E) (\<lambda>t. lookup t q))"

section \<open>Properties\<close>

lemma flock_op_cases:
  "flock_op x e shared unlock nonblock =
     (if (x \<or> e) \<and> shared \<or> (x \<or> e) \<and> unlock \<or> shared \<and> unlock then None
      else Some ((if shared then LOCK_SH else if unlock then LOCK_UN else LOCK_EX) OR (if nonblock then LOCK_NB else 0)))"
  by (cases "x \<or> e"; cases shared; cases unlock; cases nonblock) (simp_all add: flock_op_def)

lemma close_all_prefix:
  "\<exists>k \<le> length fds. (\<exists>r w1. fold (\<lambda>fd w. snd (sys_close E fd w)) (take k fds) w = w1 \<and> close_all E fds w = (r, w1) \<and> (r = Ok () \<longrightarrow> k = length fds))"
proof (induction fds arbitrary: w)
  case (Cons fd fds)
  obtain r w1 where c: "sys_close E fd w = (r, w1)" by fastforce
  show ?case
  proof (cases r)
    case (Ok u)
    from Cons[of w1] obtain k r1 where "k \<le> length fds" "close_all E fds w1 = (r1, fold (\<lambda>fd w. snd (sys_close E fd w)) (take k fds) w1)"
      "r1 = Ok () \<longrightarrow> k = length fds" by blast
    then show ?thesis using c Ok by (intro exI[of _ "Suc k"]) auto
  next
    case (Err e)
    then show ?thesis using c by (intro exI[of _ 1]) auto
  qed
qed simp

text \<open>The nanoseconds of a timespec; a duration of at most \<open>2 ^ 63\<close> seconds keeps
  its length.\<close>

definition ts_ns :: "timespec \<Rightarrow> int" where
  "ts_ns ts = tv_sec ts * 10 ^ 9 + tv_nsec ts"

definition ts_ok :: "timespec \<Rightarrow> bool" where
  "ts_ok ts \<longleftrightarrow> 0 \<le> tv_sec ts \<and> 0 \<le> tv_nsec ts \<and> tv_nsec ts < 10 ^ 9"

lemma as_timespec_exact:
  assumes "d < 2 ^ 63 * 10 ^ 9"
  shows "ts_ns (as_timespec d) = int d \<and> ts_ok (as_timespec d)"
proof -
  have "d div 10 ^ 9 < 2 ^ 63" using assms by (simp add: less_mult_imp_div_less)
  then have "sint (of_nat (d div 10 ^ 9) :: 64 word) = int (d div 10 ^ 9)"
    by transfer (simp add: signed_take_bit_int_eq_self)
  then show ?thesis
    by (simp add: ts_ns_def ts_ok_def as_timespec_def zdiv_int zmod_int)
qed

lemma as_timespec_zero:
  assumes "d < 2 ^ 64 * 10 ^ 9"
  shows "ts_ns (as_timespec d) = 0 \<longleftrightarrow> d = 0"
proof -
  have "d div 10 ^ 9 < 2 ^ 64" using assms by (simp add: less_mult_imp_div_less)
  then have z: "sint (of_nat (d div 10 ^ 9) :: 64 word) = 0 \<longleftrightarrow> d div 10 ^ 9 = 0"
    by (auto simp: signed_eq_0_iff word_of_nat_eq_0_iff dest: dvd_imp_le)
  have "s * 1000000000 + int (d mod 1000000000) = 0 \<longleftrightarrow> s = 0 \<and> d mod 1000000000 = 0" for s :: int
  proof
    assume 0: "s * 1000000000 + int (d mod 1000000000) = 0"
    have "(s * 1000000000 + int (d mod 1000000000)) mod 1000000000 = int (d mod 1000000000)" by (simp add: zmod_int)
    then show "s = 0 \<and> d mod 1000000000 = 0" using 0 by simp
  qed simp
  moreover have "d = 0 \<longleftrightarrow> d div 1000000000 = 0 \<and> d mod 1000000000 = 0"
    by (metis add.right_neutral div_0 div_mult_mod_eq mod_0 mult_is_0)
  moreover have "ts_ns (as_timespec d) = sint (of_nat (d div 10 ^ 9) :: 64 word) * 1000000000 + int (d mod 1000000000)"
    by (simp add: ts_ns_def as_timespec_def)
  ultimately show ?thesis using z by simp
qed

text \<open>An interrupted pause has shortened what remains by the time that passed, and
  \<open>pending w\<close> bounds how often a signal can still interrupt.\<close>

definition pause_laws ::
    "(timespec \<Rightarrow> 'w \<Rightarrow> (unit, int \<times> timespec) result \<times> 'w) \<Rightarrow> ('w \<Rightarrow> int) \<Rightarrow> ('w \<Rightarrow> nat) \<Rightarrow> bool" where
  "pause_laws pause clock pending \<longleftrightarrow>
     (\<forall>ts w. ts_ok ts \<longrightarrow> (case pause ts w of
        (Ok _, w') \<Rightarrow> clock w + ts_ns ts \<le> clock w'
      | (Err (e, remaining), w') \<Rightarrow>
          e = EINTR \<and> ts_ok remaining \<and> clock w + ts_ns ts \<le> clock w' + ts_ns remaining \<and> pending w' < pending w))"

lemma sleep_loop_lasts:
  assumes "pause_laws pause clock pending" "ts_ok ts"
  shows "\<exists>w'. sleep_loop pause False ts w = Some (Ok (), w') \<and> clock w + ts_ns ts \<le> clock w'"
  using assms(2)
proof (induction "pending w" arbitrary: ts w rule: less_induct)
  case less
  obtain r w1 where p: "pause ts w = (r, w1)" by fastforce
  note law = assms(1)[unfolded pause_laws_def, rule_format, OF less(2), of w]
  show ?case
  proof (cases r)
    case (Ok u)
    then show ?thesis using law by (subst sleep_loop.simps) (simp add: p)
  next
    case (Err x)
    obtain e remaining where x: "x = (e, remaining)" by fastforce
    then have l: "e = EINTR" "ts_ok remaining" "clock w + ts_ns ts \<le> clock w1 + ts_ns remaining" "pending w1 < pending w"
      using law p Err by auto
    from less(1)[OF l(4,2)] obtain w2 where
      "sleep_loop pause False remaining w1 = Some (Ok (), w2)" "clock w1 + ts_ns remaining \<le> clock w2" by blast
    then show ?thesis using l p Err x by (subst sleep_loop.simps) (auto)
  qed
qed

text \<open>
  C38: Without \<open>-i\<close>, \<open>sleep\<close> returns, with success, after at least the time asked for
  however often signals interrupt it, if they are finitely many and the duration
  has fewer than \<open>2 ^ 63\<close> seconds.
\<close>

theorem sleep_lasts:
  assumes "pause_laws (nanosleep E) clock pending" "d < 2 ^ 63 * 10 ^ 9"
  shows "\<exists>w'. sleep_for E False d w = Some (Val (Ok (), w')) \<and> clock w + int d \<le> clock w'"
  using sleep_loop_lasts[OF assms(1), of "as_timespec d" w] as_timespec_exact[OF assms(2)]
  by (auto simp: sleep_for_def)

text \<open>A clock in nanoseconds and the number of signals to come, each of which
  interrupts once the part of a second has passed.\<close>

definition demo_pause :: "timespec \<Rightarrow> int \<times> nat \<Rightarrow> (unit, int \<times> timespec) result \<times> int \<times> nat" where
  "demo_pause ts w =
     (case w of
        (t, 0) \<Rightarrow> (Ok (), (t + ts_ns ts, 0))
      | (t, Suc n) \<Rightarrow> (Err (EINTR, ts\<lparr>tv_nsec := 0\<rparr>), (t + tv_nsec ts, n)))"

theorem sleep_lasts_witness:
  "\<forall>E :: (int \<times> nat, unit) ds_env. \<exists>w'.
     sleep_for (E\<lparr>nanosleep := demo_pause\<rparr>) False 1500000000 (7, 2) = Some (Val (Ok (), w')) \<and> 1500000007 \<le> fst w'"
proof
  fix E :: "(int \<times> nat, unit) ds_env"
  have "pause_laws (nanosleep (E\<lparr>nanosleep := demo_pause\<rparr>)) fst snd"
    by (auto simp: pause_laws_def demo_pause_def ts_ok_def ts_ns_def split: nat.splits)
  from sleep_lasts[OF this, of 1500000000 "(7, 2)"]
  show "\<exists>w'. sleep_for (E\<lparr>nanosleep := demo_pause\<rparr>) False 1500000000 (7, 2) = Some (Val (Ok (), w')) \<and> 1500000007 \<le> fst w'"
    by simp
qed

text \<open>A timer whose first expiry is zero is disarmed, whatever its interval; \<open>armed w fd\<close>
  tells whether the timer will expire.\<close>

definition timer_laws :: "('w, 'g) ds_env \<Rightarrow> ('w \<Rightarrow> int \<Rightarrow> bool) \<Rightarrow> bool" where
  "timer_laws E armed \<longleftrightarrow>
     (\<forall>fd interval expiry w. case timerfd_settime E fd interval expiry w of
        (Ok _, w') \<Rightarrow> armed w' = (armed w)(fd := ts_ns expiry \<noteq> 0)
      | (Err _, w') \<Rightarrow> armed w' = armed w)"

text \<open>
  After \<open>timerfd set\<close> has succeeded the timer is armed exactly when a first
  expiry was given with \<open>-s\<close>: with \<open>-i\<close> alone the old expiry is not kept but the
  timer disarmed, and zero for both, the way to disarm it, is a usage error that
  changes nothing.
\<close>

lemma timerfd_set_arms:
  assumes "timer_laws E armed" "initial < 2 ^ 64 * 10 ^ 9" "timerfd_set E fd initial interval w = (r, w')"
  shows "(r = Ok () \<longrightarrow> (armed w' fd \<longleftrightarrow> 0 < initial) \<and> 0 < initial + interval) \<and>
         (r \<noteq> Ok () \<longrightarrow> armed w' = armed w) \<and>
         (initial = 0 \<and> interval = 0 \<longrightarrow> r = Err EX_USAGE \<and> w' = w)"
  using assms(1)[unfolded timer_laws_def, THEN spec[of _ fd], THEN spec[of _ "as_timespec interval"], THEN spec[of _ "as_timespec initial"], THEN spec[of _ w]]
    assms(3) as_timespec_zero[OF assms(2)]
  by (auto simp: timerfd_set_def plain_call_def split: if_splits prod.splits result.splits)

text \<open>A system that never refuses to set a timer; its state is what is armed.\<close>

definition demo_settime :: "int \<Rightarrow> timespec \<Rightarrow> timespec \<Rightarrow> (int \<Rightarrow> bool, unit) syscall" where
  "demo_settime fd interval expiry w = (Ok (), w(fd := ts_ns expiry \<noteq> 0))"

lemma timerfd_set_arms_witness:
  "\<forall>E :: (int \<Rightarrow> bool, unit) ds_env. \<not> snd (timerfd_set (E\<lparr>timerfd_settime := demo_settime\<rparr>) 5 0 250000000 (\<lambda>_. True)) 5"
proof
  fix E :: "(int \<Rightarrow> bool, unit) ds_env"
  have "timer_laws (E\<lparr>timerfd_settime := demo_settime\<rparr>) (\<lambda>w. w)" by (simp add: timer_laws_def demo_settime_def)
  moreover have "timerfd_set (E\<lparr>timerfd_settime := demo_settime\<rparr>) 5 0 250000000 (\<lambda>_. True) = (Ok (), (\<lambda>_. True)(5 := False))"
    by (simp add: timerfd_set_def plain_call_def demo_settime_def as_timespec_def ts_ns_def)
  ultimately show "\<not> snd (timerfd_set (E\<lparr>timerfd_settime := demo_settime\<rparr>) 5 0 250000000 (\<lambda>_. True)) 5"
    using timerfd_set_arms[of "E\<lparr>timerfd_settime := demo_settime\<rparr>" "\<lambda>w. w" 0 5 250000000 "\<lambda>_. True"] by simp
qed

end
