(* ===== verification/Sockets.thy ===== *)
theory Sockets
  imports Descriptors
begin

text \<open>
  TCP sockets: \<open>l_builtin/src/accept.rs\<close>, \<open>listen.rs\<close> and \<open>connect.rs\<close>, over
  \<open>ensure_high_fd\<close> and \<open>bufwrite!\<close> of \<open>shared.rs\<close>. The system calls, and the
  connection and the listener of the standard library with their resolution of
  names, are parameters.
\<close>

section \<open>Addresses\<close>

text \<open>The peer's address as the bytes of the socket address, in network order.\<close>

datatype sock_addr =
    Inet "8 word list" "8 word \<times> 8 word"
  | Inet6 "8 word list" "8 word \<times> 8 word"
  | Other_family

definition from_be :: "8 word \<times> 8 word \<Rightarrow> nat" where
  "from_be p = 256 * unat (fst p) + unat (snd p)"

fun join_with :: "char \<Rightarrow> string list \<Rightarrow> string" where
  "join_with c [] = []"
| "join_with c [x] = x"
| "join_with c (x # xs) = x @ c # join_with c xs"

definition ipv4_text :: "8 word list \<Rightarrow> string" where
  "ipv4_text bs = join_with (CHR ''.'') (map (\<lambda>b. dec (unat b)) bs)"

text \<open>\<open>Display\<close> of an \<open>Ipv6Addr\<close>: an IPv4-mapped address, or the segments in
  hexadecimal with the first longest run of at least two zeros left out.\<close>

fun segments :: "8 word list \<Rightarrow> nat list" where
  "segments (a # b # bs) = from_be (a, b) # segments bs"
| "segments _ = []"

fun zero_run :: "nat list \<Rightarrow> nat" where
  "zero_run (0 # xs) = Suc (zero_run xs)"
| "zero_run _ = 0"

fun longest_zeros :: "nat \<Rightarrow> nat \<times> nat \<Rightarrow> nat list \<Rightarrow> nat \<times> nat" where
  "longest_zeros i best [] = best"
| "longest_zeros i best (x # xs) =
     (let n = zero_run (x # xs) in longest_zeros (Suc i) (if snd best < n then (i, n) else best) xs)"

definition segments_text :: "nat list \<Rightarrow> string" where
  "segments_text xs = join_with (CHR '':'') (map hex_number xs)"

definition ipv6_text :: "8 word list \<Rightarrow> string" where
  "ipv6_text bs =
     (if take 12 bs = replicate 10 0 @ [255, 255] then ''::ffff:'' @ ipv4_text (drop 12 bs)
      else let xs = segments bs; (start, n) = longest_zeros 0 (0, 0) xs
           in if n > 1 then segments_text (take start xs) @ ''::'' @ segments_text (drop (start + n) xs)
              else segments_text xs)"

text \<open>What \<open>bufwrite!\<close> leaves in the buffer: as much of the text as fits before a NUL.\<close>

definition bufwrite :: "nat \<Rightarrow> string \<Rightarrow> string" where
  "bufwrite n text = (let t = take (n - 1) text in t @ replicate (n - length t) (CHR 0x00))"

definition addr_text :: "sock_addr \<Rightarrow> string" where
  "addr_text a =
     (case a of
        Inet ip port \<Rightarrow> ipv4_text ip @ CHR '':'' # dec (from_be port)
      | Inet6 ip port \<Rightarrow> ipv6_text ip @ CHR '':'' # dec (from_be port)
      | Other_family \<Rightarrow> ''unknown:0'')"

definition addr_to_ip_port :: "sock_addr \<Rightarrow> string" where
  "addr_to_ip_port a = bufwrite 48 (addr_text a)"

section \<open>The system\<close>

text \<open>\<open>tcp_bind\<close> and \<open>tcp_connect\<close> give the raw descriptor.\<close>

record ('w, 'g) sk_env =
  sk_getopt :: "'g getopt"
  sk_vars :: "'w bash_vars"
  sk_texts :: "string \<Rightarrow> string \<times> string"
  sk_os :: "'w db_ops"
  sys_poll :: "int \<Rightarrow> int \<Rightarrow> ('w, nat) syscall"
  sys_accept :: "int \<Rightarrow> ('w, int \<times> sock_addr) syscall"
  tcp_bind :: "string \<Rightarrow> nat \<Rightarrow> ('w, int) syscall"
  local_port :: "int \<Rightarrow> 'w \<Rightarrow> nat option"
  tcp_connect :: "string \<Rightarrow> nat \<Rightarrow> ('w, int) syscall"

section \<open>accept\<close>

definition accept_fields :: "'w bash_vars \<Rightarrow> 'w \<Rightarrow> fd_arg field list" where
  "accept_fields bv w =
     [Field ''timeout_ms'' (Opt_kind (CHR ''t'') None) (int_arg 32), flag_field ''clear_cloexec'' (CHR ''C''),
      var_positional bv w ''clientfd_var'', var_positional bv w ''addr_var'', fd_field ''listenfd'']"

definition wait_readable :: "('w, 'g) sk_env \<Rightarrow> int \<Rightarrow> int option \<Rightarrow> 'w \<Rightarrow> cmd_result \<times> 'w" where
  "wait_readable E fd timeout w =
     (case timeout of
        None \<Rightarrow> (Ok (), w)
      | Some ms \<Rightarrow>
          (case sys_poll E fd ms w of
             (Err _, w) \<Rightarrow> (Err EXECUTION_FAILURE, w)
           | (Ok n, w) \<Rightarrow> (if n = 0 then Err EX_RETRYFAIL else Ok (), w)))"

definition store_client :: "'w bash_vars \<Rightarrow> string \<Rightarrow> string \<Rightarrow> int \<Rightarrow> sock_addr \<Rightarrow> 'w \<Rightarrow> (cmd_result \<times> 'w) run" where
  "store_client bv fd_var addr_var fd a w =
     bindR (bash_var_set_signed bv fd_var (word_of_int fd :: 32 word) w) (\<lambda>(r, w).
       case r of
         Err e \<Rightarrow> Val (Err e, w)
       | Ok _ \<Rightarrow> Val (bash_var_set bv addr_var (c_str (addr_to_ip_port a)) w))"

definition accept_into ::
    "('w, 'g) sk_env \<Rightarrow> int option \<Rightarrow> bool \<Rightarrow> string \<Rightarrow> string \<Rightarrow> int \<Rightarrow> 'w \<Rightarrow> (cmd_result \<times> 'w) run option" where
  "accept_into E timeout clear_cloexec fd_var addr_var listenfd w =
     (case wait_readable E listenfd timeout w of
        (Err e, w) \<Rightarrow> Some (Val (Err e, w))
      | (Ok _, w) \<Rightarrow>
     (case sys_accept E listenfd w of
        (Err _, w) \<Rightarrow> Some (Val (Err EXECUTION_FAILURE, w))
      | (Ok (fd, a), w) \<Rightarrow>
     (case ensure_high_fd (sk_os E) fd (\<not> clear_cloexec) w of
        None \<Rightarrow> None
      | Some (Err _, w) \<Rightarrow> Some (Val (Err EXECUTION_FAILURE, w))
      | Some (Ok fd, w) \<Rightarrow> Some (store_client (sk_vars E) fd_var addr_var fd a w))))"

fun timeout_val :: "fd_arg field_value \<Rightarrow> int option" where
  "timeout_val (Value (Int_val x)) = Some x"
| "timeout_val _ = None"

definition accept_subcommand :: "('w, 'g) sk_env \<Rightarrow> 'w handler" where
  "accept_subcommand E list s =
     (let s = cmd_enter (described (sk_texts E) ''accept'') s in
      with_args (sk_getopt E) (accept_fields (sk_vars E) (world s)) list s (\<lambda>vs.
      on_shell (accept_into E (timeout_val (arg vs 0)) (flag_of (arg vs 1)) (text_of (arg vs 2)) (text_of (arg vs 3))
        (int_val (arg vs 4))) s))"

section \<open>listen\<close>

definition listen_fields :: "'w bash_vars \<Rightarrow> 'w \<Rightarrow> fd_arg field list" where
  "listen_fields bv w =
     [Field ''port_var'' (Opt_kind (CHR ''p'') None) (var_arg bv w), flag_field ''nocloexec'' (CHR ''C''),
      var_positional bv w ''listenfd_var'',
      Field ''ip'' (Optional_kind (Some (Text ''127.0.0.1''))) (\<lambda>s. map_option Text (str_from_cpnt s)),
      Field ''port'' (Optional_kind (Some (Nat_val 0))) (nat_arg 16)]"

partial_function (option) retry_eintr :: "('w, 'a) syscall \<Rightarrow> 'w \<Rightarrow> (('a, int) result \<times> 'w) option" where
  "retry_eintr c w =
     (case c w of
        (Ok x, w) \<Rightarrow> Some (Ok x, w)
      | (Err e, w) \<Rightarrow> if e = EINTR then retry_eintr c w else Some (Err e, w))"

text \<open>The early returns drop the listener, which closes its descriptor; after
  success it is forgotten.\<close>

definition store_listener ::
    "('w, 'g) sk_env \<Rightarrow> string \<Rightarrow> bool \<Rightarrow> int \<Rightarrow> 'w \<Rightarrow> (cmd_result \<times> 'w) run option" where
  "store_listener E fd_var nocloexec raw_fd w =
     (case ensure_high_fd (sk_os E) raw_fd (\<not> nocloexec) w of
        None \<Rightarrow> None
      | Some (Err _, w) \<Rightarrow> Some (Val (Err EXECUTION_FAILURE, close_file (sk_os E) raw_fd w))
      | Some (Ok fd, w) \<Rightarrow>
          Some (bindR (bash_var_set_signed (sk_vars E) fd_var (word_of_int fd :: 32 word) w) (\<lambda>(r, w).
            Val (case r of Err e \<Rightarrow> (Err e, close_file (sk_os E) raw_fd w) | Ok _ \<Rightarrow> (Ok (), w)))))"

definition listen_into ::
    "('w, 'g) sk_env \<Rightarrow> string option \<Rightarrow> bool \<Rightarrow> string \<Rightarrow> string \<Rightarrow> nat \<Rightarrow> 'w \<Rightarrow> (cmd_result \<times> 'w) run option" where
  "listen_into E port_var nocloexec fd_var ip port w =
     (if port = 0 \<and> port_var = None then Some (Val (Err EX_USAGE, w))
      else case retry_eintr (tcp_bind E ip port) w of
             None \<Rightarrow> None
           | Some (Err _, w) \<Rightarrow> Some (Val (Err EXECUTION_FAILURE, w))
           | Some (Ok raw_fd, w) \<Rightarrow>
               (case port_var of
                  None \<Rightarrow> store_listener E fd_var nocloexec raw_fd w
                | Some v \<Rightarrow>
                    (case bash_var_set_unsigned (sk_vars E) v
                            (of_nat (case local_port E raw_fd w of Some p \<Rightarrow> p | None \<Rightarrow> 0) :: 16 word) w of
                       Panic \<Rightarrow> Some Panic
                     | Val (Err e, w) \<Rightarrow> Some (Val (Err e, close_file (sk_os E) raw_fd w))
                     | Val (Ok _, w) \<Rightarrow> store_listener E fd_var nocloexec raw_fd w)))"

definition listen_subcommand :: "('w, 'g) sk_env \<Rightarrow> 'w handler" where
  "listen_subcommand E list s =
     (let s = cmd_enter (described (sk_texts E) ''listen'') s in
      with_args (sk_getopt E) (listen_fields (sk_vars E) (world s)) list s (\<lambda>vs.
      on_shell (listen_into E (text_val (arg vs 0)) (flag_of (arg vs 1)) (text_of (arg vs 2)) (text_of (arg vs 3))
        (nat_val (arg vs 4))) s))"

section \<open>connect\<close>

definition connect_fields :: "'w bash_vars \<Rightarrow> 'w \<Rightarrow> fd_arg field list" where
  "connect_fields bv w =
     [var_positional bv w ''clientfd_var'', Field ''ip'' (Positional_kind (Text [])) text_arg,
      Field ''port'' (Positional_kind (Nat_val 0)) (nat_arg 32)]"

text \<open>\<open>port as u16\<close> keeps the low bits.\<close>

definition connect_into :: "('w, 'g) sk_env \<Rightarrow> string \<Rightarrow> string \<Rightarrow> nat \<Rightarrow> 'w \<Rightarrow> (cmd_result \<times> 'w) run option" where
  "connect_into E fd_var ip port w =
     (case from_utf8 ip of
        None \<Rightarrow> Some (Val (Err EX_USAGE, w))
      | Some ip_str \<Rightarrow>
     (case tcp_connect E ip_str (unat (of_nat port :: 16 word)) w of
        (Err _, w) \<Rightarrow> Some (Val (Err EXECUTION_FAILURE, w))
      | (Ok fd, w) \<Rightarrow>
          Some (bindR (bash_var_set_signed (sk_vars E) fd_var (word_of_int fd :: 64 word) w) (\<lambda>(r, w).
            Val (case r of Err e \<Rightarrow> (Err e, close_file (sk_os E) fd w) | Ok _ \<Rightarrow> (Ok (), w))))))"

definition connect_subcommand :: "('w, 'g) sk_env \<Rightarrow> 'w handler" where
  "connect_subcommand E list s =
     (let s = cmd_enter (described (sk_texts E) ''connect'') s in
      with_args (sk_getopt E) (connect_fields (sk_vars E) (world s)) list s (\<lambda>vs.
      on_shell (connect_into E (text_of (arg vs 0)) (text_of (arg vs 1)) (nat_val (arg vs 2))) s))"

section \<open>Addresses fit their buffer\<close>

lemma length_join: "length (join_with c xs) = sum_list (map length xs) + (length xs - 1)"
  by (induction c xs rule: join_with.induct) auto

lemma length_join_le: "\<forall>x \<in> set xs. length x \<le> k \<Longrightarrow> length (join_with c xs) \<le> Suc k * length xs - 1"
proof (induction c xs rule: join_with.induct)
  case (3 c x y xs)
  then have "length (join_with c (y # xs)) \<le> Suc k * length (y # xs) - 1" "length x \<le> k" by simp_all
  then show ?case by simp
qed auto

lemma length_hex_number: "n < 16 ^ k \<Longrightarrow> 0 < k \<Longrightarrow> length (hex_number n) \<le> k"
proof (induction k arbitrary: n)
  case (Suc k)
  show ?case
  proof (cases "n < 16")
    case False
    then have "0 < k" using Suc.prems by (cases k) auto
    moreover have "n div 16 < 16 ^ k" using Suc.prems by (simp add: less_mult_imp_div_less mult.commute)
    ultimately have "length (hex_number (n div 16)) \<le> k" using Suc.IH by simp
    then show ?thesis using False by (subst hex_number.simps) simp
  qed (subst hex_number.simps, simp)
qed simp

lemma from_be_less: "from_be p < 65536"
proof -
  have "unat (fst p) < 256" "unat (snd p) < 256"
    using unsigned_less[of "fst p"] unsigned_less[of "snd p"] by simp_all
  then show ?thesis by (simp add: from_be_def)
qed

lemma segments_less: "x \<in> set (segments bs) \<Longrightarrow> x < 65536"
  by (induction bs rule: segments.induct) (auto simp: from_be_less)

lemma length_segments: "length (segments bs) = length bs div 2"
  by (induction bs rule: segments.induct) auto

lemma length_segments_text: "\<forall>x \<in> set xs. x < 65536 \<Longrightarrow> length (segments_text xs) \<le> 5 * length xs - 1"
  using length_join_le[of "map hex_number xs" 4 "CHR '':''"] length_hex_number[of _ 4]
  by (simp add: segments_text_def)

lemma length_dec: "n < 10 ^ k \<Longrightarrow> 0 < k \<Longrightarrow> length (dec n) \<le> k"
  using length_digs_le[of n k] by (simp add: dec_def Suc_le_eq)

lemma length_ipv4_text:
  assumes "length bs \<le> 4"
  shows "length (ipv4_text bs) \<le> 15"
proof -
  have "length (dec (unat b)) \<le> 3" for b :: "8 word"
  proof -
    have "unat b < 256" using unsigned_less[of b] by simp
    then show ?thesis using length_dec[of "unat b" 3] by simp
  qed
  then have "length (ipv4_text bs) \<le> 4 * length bs - 1"
    using length_join_le[of "map (\<lambda>b. dec (unat b)) bs" 3 "CHR ''.''"] by (simp add: ipv4_text_def)
  then show ?thesis using assms by simp
qed

lemma length_ipv6_text:
  assumes "length bs = 16"
  shows "length (ipv6_text bs) \<le> 41"
proof -
  have len: "length (segments bs) = 8" using assms by (simp add: length_segments)
  have sub: "length (segments_text (take i (segments bs))) + 2 + length (segments_text (drop (i + n) (segments bs))) \<le> 41" for i n
  proof -
    have "length (segments_text (take i (segments bs))) \<le> 5 * length (take i (segments bs)) - 1"
      by (rule length_segments_text) (blast dest: in_set_takeD segments_less)
    moreover have "length (segments_text (drop (i + n) (segments bs))) \<le> 5 * length (drop (i + n) (segments bs)) - 1"
      by (rule length_segments_text) (blast dest: in_set_dropD segments_less)
    ultimately show ?thesis using len by simp
  qed
  have "length (segments_text (segments bs)) \<le> 39"
    using length_segments_text[of "segments bs"] segments_less len by auto
  moreover have "length (ipv4_text (drop 12 bs)) \<le> 15" using assms by (intro length_ipv4_text) simp
  ultimately show ?thesis
    using sub by (auto simp: ipv6_text_def Let_def add.assoc split: prod.split)
qed

definition addr_ok :: "sock_addr \<Rightarrow> bool" where
  "addr_ok a \<longleftrightarrow> (case a of Inet ip _ \<Rightarrow> length ip = 4 | Inet6 ip _ \<Rightarrow> length ip = 16 | Other_family \<Rightarrow> True)"

lemma length_addr_text: "addr_ok a \<Longrightarrow> length (addr_text a) < 48"
proof -
  assume ok: "addr_ok a"
  have "length (dec (from_be p)) \<le> 5" for p
    using length_dec[of "from_be p" 5] from_be_less[of p] by simp
  note port = this
  show ?thesis
  proof (cases a)
    case (Inet ip p)
    then show ?thesis using ok length_ipv4_text[of ip] port[of p] by (simp add: addr_ok_def addr_text_def)
  next
    case (Inet6 ip p)
    then show ?thesis using ok length_ipv6_text[of ip] port[of p] by (simp add: addr_ok_def addr_text_def)
  qed (simp add: addr_text_def)
qed

lemma nul_free_join: "c \<noteq> CHR 0x00 \<Longrightarrow> \<forall>x \<in> set xs. nul_free x \<Longrightarrow> nul_free (join_with c xs)"
  by (induction c xs rule: join_with.induct) (auto simp: nul_free_def)

lemma nul_free_hex_number: "nul_free (hex_number n)"
proof (induction n rule: hex_number.induct)
  case (1 n)
  have "CHR 0x00 \<noteq> hex_chars ! k" if "k < 16" for k
    using that nth_mem[of k hex_chars] by (auto simp: hex_chars_def)
  then show ?case using 1 by (subst hex_number.simps) (simp add: nul_free_def)
qed

lemma nul_free_addr_text: "nul_free (addr_text a)"
proof -
  have "nul_free (ipv4_text bs)" for bs by (auto simp: ipv4_text_def intro!: nul_free_join)
  moreover have "nul_free (segments_text xs)" for xs
    by (auto simp: segments_text_def nul_free_hex_number intro!: nul_free_join)
  ultimately have "nul_free (ipv6_text bs)" "nul_free (ipv4_text bs)" for bs
    by (auto simp: ipv6_text_def Let_def nul_free_def split: prod.split)
  then show ?thesis using dec_nul_free by (auto simp: addr_text_def nul_free_def split: sock_addr.split)
qed

lemma bufwrite_c_str: "nul_free s \<Longrightarrow> length s < n \<Longrightarrow> c_str (bufwrite n s) = s"
  by (cases "n - length s") (auto simp: bufwrite_def Let_def)

lemma dec_no_colon: "CHR '':'' \<notin> set (dec n)"
proof
  assume "CHR '':'' \<in> set (dec n)"
  then obtain d where "d < 10" "CHR '':'' = digit_char d" using digs_set[of "CHR '':''" n] by (auto simp: dec_def split: if_splits)
  then have "(of_char (CHR '':'') :: nat) = 48 + d" using of_char_digit by metis
  then show False using \<open>d < 10\<close> by simp
qed

text \<open>
  C39: The text that \<open>accept\<close> leaves for the address of the peer is complete, never
  cut off by the buffer of 48 bytes, and the part after its last colon is the
  port.
\<close>

theorem peer_address_complete:
  assumes "addr_ok a"
  shows "c_str (addr_to_ip_port a) = addr_text a \<and> length (addr_text a) < 48 \<and>
    (\<forall>ip port. a \<in> {Inet ip port, Inet6 ip port} \<longrightarrow>
       (\<exists>host digits. addr_text a = host @ CHR '':'' # digits \<and> CHR '':'' \<notin> set digits \<and>
          parse_unsigned 10 65535 digits = Some (from_be port)))"
proof (intro conjI allI impI)
  show "c_str (addr_to_ip_port a) = addr_text a"
    unfolding addr_to_ip_port_def by (intro bufwrite_c_str nul_free_addr_text length_addr_text assms)
  fix ip port assume "a \<in> {Inet ip port, Inet6 ip port}"
  moreover have "parse_unsigned 10 65535 (dec (from_be port)) = Some (from_be port)"
    using from_be_less[of port] by (intro parse_unsigned_dec) simp
  ultimately show "\<exists>host digits. addr_text a = host @ CHR '':'' # digits \<and> CHR '':'' \<notin> set digits \<and>
          parse_unsigned 10 65535 digits = Some (from_be port)"
    using dec_no_colon[of "from_be port"] by (auto simp: addr_text_def) blast+
qed (rule length_addr_text[OF assms])

theorem peer_address_complete_witness:
  "c_str (addr_to_ip_port (Inet [127, 0, 0, 1] (31, 144))) = ''127.0.0.1:8080''"
proof -
  have "dec 127 = ''127''" "dec 0 = ''0''" "dec 1 = ''1''" "dec 8080 = ''8080''" by (simp_all add: dec_eval)
  then have "addr_text (Inet [127, 0, 0, 1] (31, 144)) = ''127.0.0.1:8080''"
    by (simp add: addr_text_def ipv4_text_def from_be_def)
  then show ?thesis using peer_address_complete[of "Inet [127, 0, 0, 1] (31, 144)"] by (simp add: addr_ok_def)
qed

text \<open>A failure after the descriptor was moved closes the old number a second time
  when the listener is dropped.\<close>

lemma listen_closes_again:
  assumes "ensure_high_fd (sk_os E) raw (\<not> nocloexec) w = Some (Err x, w1)"
  shows "store_listener E v nocloexec raw w = Some (Val (Err EXECUTION_FAILURE, close_file (sk_os E) raw w1))"
  using assms by (simp add: store_listener_def)

lemma connect_port_wraps:
  "connect_into E v ip port w = connect_into E v ip (port mod 65536) w"
proof -
  have "(of_nat port :: 16 word) = of_nat (port mod 65536)" by (transfer, simp add: take_bit_eq_mod zmod_int)
  then show ?thesis unfolding connect_into_def by (rule arg_cong)
qed

end
