(* ===== verification/Var_Edit.thy ===== *)
theory Var_Edit
  imports Shm Descriptors
begin

text \<open>
  Subcommands that edit a variable of the shell in place: \<open>l_builtin/src/cmd_replace.rs\<close>
  (a regular expression on every value) and \<open>cmd_sedvar.rs\<close> (a sed script on the
  values as NUL-delimited records). The regular expressions and the sed
  interpreter are third-party crates and parameters, bash's variables as in
  \<open>Shm\<close>.
\<close>

section \<open>Environment\<close>

text \<open>\<open>'r\<close> are compiled patterns, \<open>'s\<close> compiled scripts with \<open>null_data\<close> set; an array
  is prepared as \<open>l_prepare_indexed_array\<close> does, which empties it.\<close>

record ('w, 'g, 'r, 's) edit_env =
  ed_getopt :: "'g getopt"
  ed_vars :: "'w bash_vars"
  ed_texts :: "string \<Rightarrow> string \<times> string"
  ed_find :: "string \<Rightarrow> 'w \<Rightarrow> bash_value option"
  ed_arr_put :: "string \<Rightarrow> int \<Rightarrow> string \<Rightarrow> 'w \<Rightarrow> 'w"
  ed_assoc_put :: "string \<Rightarrow> string \<Rightarrow> string \<Rightarrow> 'w \<Rightarrow> 'w"
  ed_prepare :: "string \<Rightarrow> 'w \<Rightarrow> bool \<times> 'w"
  regex_new :: "string \<Rightarrow> 'r option"
  replace_all :: "'r \<Rightarrow> string \<Rightarrow> string \<Rightarrow> string"
  sed_new :: "string \<Rightarrow> 's option"
  sed_eval :: "'s \<Rightarrow> string \<Rightarrow> string option"

text \<open>The elements are taken one after the other; the first that fails stops the
  loop, and the ones before it stay changed.\<close>

fun edit_each :: "('v \<Rightarrow> 'v option) \<Rightarrow> ('k \<Rightarrow> 'v \<Rightarrow> 'w \<Rightarrow> 'w) \<Rightarrow> ('k \<times> 'v) list \<Rightarrow> 'w \<Rightarrow> cmd_result \<times> 'w" where
  "edit_each f put [] w = (Ok (), w)"
| "edit_each f put ((k, v) # items) w =
     (case f v of
        None \<Rightarrow> (Err EXECUTION_FAILURE, w)
      | Some v' \<Rightarrow> edit_each f put items (put k v' w))"

section \<open>replace\<close>

text \<open>\<open>CString::new\<close> refuses a NUL.\<close>

definition cstring_new :: "string \<Rightarrow> string option" where
  "cstring_new s = (if CHR 0x00 \<in> set s then None else Some s)"

definition replaced :: "('w, 'g, 'r, 's) edit_env \<Rightarrow> 'r \<Rightarrow> string \<Rightarrow> string \<Rightarrow> string option" where
  "replaced E re replacement val = cstring_new (replace_all E re val replacement)"

definition replace_var :: "('w, 'g, 'r, 's) edit_env \<Rightarrow> string \<Rightarrow> string \<Rightarrow> string \<Rightarrow> 'w \<Rightarrow> cmd_result \<times> 'w" where
  "replace_var E var pattern replacement w =
     (case ed_find E var w of
        None \<Rightarrow> (Err EXECUTION_FAILURE, w)
      | Some x \<Rightarrow>
     (case regex_new E pattern of
        None \<Rightarrow> (Err EX_USAGE, w)
      | Some re \<Rightarrow>
     (case x of
        Associative items \<Rightarrow> edit_each (replaced E re replacement) (ed_assoc_put E var) items w
      | Indexed items \<Rightarrow> edit_each (replaced E re replacement) (ed_arr_put E var) items w
      | Scalar val \<Rightarrow>
          (case replaced E re replacement (case val of None \<Rightarrow> [] | Some s \<Rightarrow> s) of
             None \<Rightarrow> (Err EXECUTION_FAILURE, w)
           | Some s \<Rightarrow> bash_var_set (ed_vars E) var s w))))"

definition replace_fields :: "'w bash_vars \<Rightarrow> 'w \<Rightarrow> fd_arg field list" where
  "replace_fields bv w =
     [var_positional bv w ''var'', Field ''pattern'' (Positional_kind (Text [])) (\<lambda>s. map_option Text (str_from_cpnt s)),
      Field ''replacement'' (Positional_kind (Text [])) text_arg]"

definition replace_subcommand :: "('w, 'g, 'r, 's) edit_env \<Rightarrow> 'w handler" where
  "replace_subcommand E list s =
     (let s = cmd_enter (described (ed_texts E) ''replace'') s in
      with_args (ed_getopt E) (replace_fields (ed_vars E) (world s)) list s (\<lambda>vs.
      on_shell_ok (replace_var E (text_of (arg vs 0)) (text_of (arg vs 1)) (text_of (arg vs 2))) s))"

section \<open>sedvar\<close>

text \<open>The parts between NULs, without the empty one after the last.\<close>

definition split_records :: "string \<Rightarrow> string list" where
  "split_records bytes =
     (if bytes = [] then []
      else let recs = split_at (CHR 0x00) bytes
           in if last bytes = CHR 0x00 then butlast recs else recs)"

definition first_record :: "string list \<Rightarrow> string" where
  "first_record recs = (case recs of [] \<Rightarrow> [] | r # _ \<Rightarrow> r)"

definition transform_one :: "('w, 'g, 'r, 's) edit_env \<Rightarrow> 's \<Rightarrow> string \<Rightarrow> string option" where
  "transform_one E sd val = map_option (\<lambda>out. first_record (split_records out)) (sed_eval E sd val)"

definition terminated :: "string list \<Rightarrow> string" where
  "terminated vals = concat (map (\<lambda>v. v @ [CHR 0x00]) vals)"

definition put_records :: "('w, 'g, 'r, 's) edit_env \<Rightarrow> string \<Rightarrow> string list \<Rightarrow> 'w \<Rightarrow> 'w" where
  "put_records E var recs w = fold (\<lambda>(i, r). ed_arr_put E var (int i) r) (enumerate 0 recs) w"

definition sed_records :: "('w, 'g, 'r, 's) edit_env \<Rightarrow> string \<Rightarrow> 's \<Rightarrow> bool \<Rightarrow> string list \<Rightarrow> 'w \<Rightarrow> cmd_result \<times> 'w" where
  "sed_records E var sd is_array vals w =
     (case sed_eval E sd (terminated vals) of
        None \<Rightarrow> (Err EXECUTION_FAILURE, w)
      | Some out \<Rightarrow>
          (let records = split_records out in
           if \<not> is_array \<and> length records \<le> 1 then bash_var_set (ed_vars E) var (first_record records) w
           else case ed_prepare E var w of
                  (False, w) \<Rightarrow> (Err EXECUTION_FAILURE, w)
                | (True, w) \<Rightarrow> (Ok (), put_records E var records w)))"

definition sedvar :: "('w, 'g, 'r, 's) edit_env \<Rightarrow> string \<Rightarrow> string \<Rightarrow> 'w \<Rightarrow> cmd_result \<times> 'w" where
  "sedvar E var script w =
     (case ed_find E var w of
        None \<Rightarrow> (Err EXECUTION_FAILURE, w)
      | Some x \<Rightarrow>
     (case sed_new E script of
        None \<Rightarrow> (Err EX_USAGE, w)
      | Some sd \<Rightarrow>
     (case x of
        Associative items \<Rightarrow> edit_each (transform_one E sd) (ed_assoc_put E var) items w
      | Indexed items \<Rightarrow> sed_records E var sd True (map snd items) w
      | Scalar val \<Rightarrow> sed_records E var sd False [case val of None \<Rightarrow> [] | Some s \<Rightarrow> s] w)))"

definition sedvar_fields :: "'w bash_vars \<Rightarrow> 'w \<Rightarrow> fd_arg field list" where
  "sedvar_fields bv w =
     [var_positional bv w ''var'', Field ''script'' (Positional_kind (Text [])) (\<lambda>s. map_option Text (str_from_cpnt s))]"

definition sedvar_subcommand :: "('w, 'g, 'r, 's) edit_env \<Rightarrow> 'w handler" where
  "sedvar_subcommand E list s =
     (let s = cmd_enter (described (ed_texts E) ''sedvar'') s in
      with_args (ed_getopt E) (sedvar_fields (ed_vars E) (world s)) list s (\<lambda>vs.
      on_shell_ok (sedvar E (text_of (arg vs 0)) (text_of (arg vs 1))) s))"

section \<open>Properties\<close>

text \<open>Bash's arrays as lists of elements: an indexed array in ascending order, a put
  on a key that is there keeps its place.\<close>

definition array_put :: "int \<Rightarrow> string \<Rightarrow> (int \<times> string) list \<Rightarrow> (int \<times> string) list" where
  "array_put i s items = (if i \<in> fst ` set items then AList.update i s items else insort_key fst (i, s) items)"

definition edit_laws :: "('w, 'g, 'r, 's) edit_env \<Rightarrow> bool" where
  "edit_laws E \<longleftrightarrow>
     (\<forall>v i s w items. ed_find E v w = Some (Indexed items) \<longrightarrow>
        ed_find E v (ed_arr_put E v i s w) = Some (Indexed (array_put i s items))) \<and>
     (\<forall>v k s w items. ed_find E v w = Some (Associative items) \<longrightarrow> k \<in> fst ` set items \<longrightarrow>
        ed_find E v (ed_assoc_put E v k s w) = Some (Associative (AList.update k s items))) \<and>
     (\<forall>v w w'. ed_prepare E v w = (True, w') \<longrightarrow> ed_find E v w' = Some (Indexed []))"

lemma edit_laws_items:
  assumes "edit_laws E"
  shows "ed_find E v w = Some (Indexed items) \<Longrightarrow> ed_find E v (ed_arr_put E v i s w) = Some (Indexed (array_put i s items))"
    and "ed_find E v w = Some (Associative aitems) \<Longrightarrow> k \<in> fst ` set aitems \<Longrightarrow>
      ed_find E v (ed_assoc_put E v k s w) = Some (Associative (AList.update k s aitems))"
    and "ed_prepare E v w = (True, w') \<Longrightarrow> ed_find E v w' = Some (Indexed [])"
  using assms[unfolded edit_laws_def, THEN conjunct1] assms[unfolded edit_laws_def, THEN conjunct2, THEN conjunct1]
    assms[unfolded edit_laws_def, THEN conjunct2, THEN conjunct2] by blast+

lemma update_middle:
  "k \<notin> fst ` set before \<Longrightarrow> AList.update k s (before @ (k, v) # behind) = before @ (k, s) # behind"
  by (induction before) auto

text \<open>An editing loop whose puts update the element in place; \<open>items_of\<close> reads the
  elements from the state.\<close>

definition puts_in_place :: "('w \<Rightarrow> ('k \<times> 'v) list) \<Rightarrow> ('k \<Rightarrow> 'v \<Rightarrow> 'w \<Rightarrow> 'w) \<Rightarrow> bool" where
  "puts_in_place items_of put \<longleftrightarrow>
     (\<forall>before k x x' behind w. items_of w = before @ (k, x) # behind \<longrightarrow> distinct (map fst (items_of w)) \<longrightarrow>
        items_of (put k x' w) = before @ (k, x') # behind)"

lemma edit_each_prefix:
  assumes put: "puts_in_place items_of put"
    and g: "\<And>x y. f x = Some y \<Longrightarrow> y = g x"
    and "items_of w = before @ items" "distinct (map fst (items_of w))" "edit_each f put items w = (r, w')"
  shows "\<exists>n \<le> length items. items_of w' = before @ map (\<lambda>(k, x). (k, g x)) (take n items) @ drop n items \<and>
     (r = Ok () \<longleftrightarrow> n = length items) \<and> (n < length items \<longrightarrow> r = Err EXECUTION_FAILURE \<and> f (snd (items ! n)) = None)"
  using assms(3-)
proof (induction items arbitrary: before w)
  case (Cons kv items)
  obtain k x where kv: "kv = (k, x)" by fastforce
  show ?case
  proof (cases "f x")
    case None
    then show ?thesis using Cons.prems kv by (intro exI[of _ 0]) auto
  next
    case (Some x')
    then have [simp]: "g x = x'" using g by metis
    have w1: "items_of (put k x' w) = (before @ [(k, x')]) @ items"
      using put[unfolded puts_in_place_def, rule_format, of w before k x items x'] Cons.prems kv by simp
    moreover have "distinct (map fst (items_of (put k x' w)))" using w1 Cons.prems kv by simp
    moreover have "edit_each f put items (put k x' w) = (r, w')" using Cons.prems kv Some by simp
    ultimately obtain n where n: "n \<le> length items"
        "items_of w' = (before @ [(k, x')]) @ map (\<lambda>(k, x). (k, g x)) (take n items) @ drop n items"
        "r = Ok () \<longleftrightarrow> n = length items" "n < length items \<longrightarrow> r = Err EXECUTION_FAILURE \<and> f (snd (items ! n)) = None"
      using Cons.IH by blast
    then show ?thesis using kv Some by (intro exI[of _ "Suc n"]) auto
  qed
qed auto

fun element_values :: "bash_value \<Rightarrow> string list" where
  "element_values (Indexed items) = map snd items"
| "element_values (Associative items) = map snd items"
| "element_values (Scalar _) = []"

fun array_ok :: "bash_value \<Rightarrow> bool" where
  "array_ok (Indexed items) = distinct (map fst items)"
| "array_ok (Associative items) = distinct (map fst items)"
| "array_ok (Scalar _) = False"

text \<open>An array whose first \<open>n\<close> elements have been edited.\<close>

fun edited :: "(string \<Rightarrow> string) \<Rightarrow> nat \<Rightarrow> bash_value \<Rightarrow> bash_value" where
  "edited f n (Indexed items) = Indexed (map (\<lambda>(k, x). (k, f x)) (take n items) @ drop n items)"
| "edited f n (Associative items) = Associative (map (\<lambda>(k, x). (k, f x)) (take n items) @ drop n items)"
| "edited f n (Scalar s) = Scalar s"

definition indexed_items :: "('w, 'g, 'r, 's) edit_env \<Rightarrow> string \<Rightarrow> 'w \<Rightarrow> (int \<times> string) list" where
  "indexed_items E v w = (case ed_find E v w of Some (Indexed items) \<Rightarrow> items | _ \<Rightarrow> [])"

definition assoc_items_of :: "('w, 'g, 'r, 's) edit_env \<Rightarrow> string \<Rightarrow> 'w \<Rightarrow> (string \<times> string) list" where
  "assoc_items_of E v w = (case ed_find E v w of Some (Associative items) \<Rightarrow> items | _ \<Rightarrow> [])"

lemma indexed_itemsD: "indexed_items E v w = xs \<Longrightarrow> xs \<noteq> [] \<Longrightarrow> ed_find E v w = Some (Indexed xs)"
  by (auto simp: indexed_items_def split: option.splits bash_value.splits)

lemma assoc_items_ofD: "assoc_items_of E v w = xs \<Longrightarrow> xs \<noteq> [] \<Longrightarrow> ed_find E v w = Some (Associative xs)"
  by (auto simp: assoc_items_of_def split: option.splits bash_value.splits)

lemma indexed_put_middle:
  assumes "edit_laws E" "indexed_items E v w = before @ (k, x) # behind" "distinct (map fst (indexed_items E v w))"
  shows "ed_find E v (ed_arr_put E v k s w) = Some (Indexed (before @ (k, s) # behind))"
  using edit_laws_items(1)[OF assms(1) indexed_itemsD[OF assms(2)], of k s] assms(2,3)
  by (simp add: array_put_def update_middle)

lemma assoc_put_middle:
  assumes "edit_laws E" "assoc_items_of E v w = before @ (k, x) # behind" "distinct (map fst (assoc_items_of E v w))"
  shows "ed_find E v (ed_assoc_put E v k s w) = Some (Associative (before @ (k, s) # behind))"
  using edit_laws_items(2)[OF assms(1) assoc_items_ofD[OF assms(2)], of k s] assms(2,3)
  by (simp add: update_middle)

lemma edit_each_indexed:
  assumes "edit_laws E" "ed_find E v w = Some (Indexed items)" "distinct (map fst items)"
    and "\<And>x y. f x = Some y \<Longrightarrow> y = g x" "edit_each f (ed_arr_put E v) items w = (r, w')"
  shows "\<exists>n \<le> length items. ed_find E v w' = Some (edited g n (Indexed items)) \<and>
     (r = Ok () \<longleftrightarrow> n = length items) \<and> (n < length items \<longrightarrow> r = Err EXECUTION_FAILURE \<and> f (snd (items ! n)) = None)"
proof (cases "items = []")
  case False
  have items: "indexed_items E v w = [] @ items" by (simp add: indexed_items_def assms(2))
  have put: "puts_in_place (indexed_items E v) (ed_arr_put E v)"
    unfolding puts_in_place_def
  proof (intro allI impI)
    fix before k x x' behind w
    assume "indexed_items E v w = before @ (k, x) # behind" "distinct (map fst (indexed_items E v w))"
    from indexed_put_middle[OF assms(1) this, of x']
    show "indexed_items E v (ed_arr_put E v k x' w) = before @ (k, x') # behind" by (simp add: indexed_items_def)
  qed
  from edit_each_prefix[where f = f and g = g, OF put assms(4) items _ assms(5)] assms(3) items
  obtain n where n: "n \<le> length items" "r = Ok () \<longleftrightarrow> n = length items"
      "indexed_items E v w' = map (\<lambda>(k, x). (k, g x)) (take n items) @ drop n items"
      "n < length items \<longrightarrow> r = Err EXECUTION_FAILURE \<and> f (snd (items ! n)) = None" by auto
  have "map (\<lambda>(k, x). (k, g x)) (take n items) @ drop n items \<noteq> []" using False by (cases n) auto
  with n show ?thesis using indexed_itemsD[OF n(3)] by auto
qed (use assms in simp)

lemma edit_each_assoc:
  assumes "edit_laws E" "ed_find E v w = Some (Associative items)" "distinct (map fst items)"
    and "\<And>x y. f x = Some y \<Longrightarrow> y = g x" "edit_each f (ed_assoc_put E v) items w = (r, w')"
  shows "\<exists>n \<le> length items. ed_find E v w' = Some (edited g n (Associative items)) \<and>
     (r = Ok () \<longleftrightarrow> n = length items) \<and> (n < length items \<longrightarrow> r = Err EXECUTION_FAILURE \<and> f (snd (items ! n)) = None)"
proof (cases "items = []")
  case False
  have items: "assoc_items_of E v w = [] @ items" by (simp add: assoc_items_of_def assms(2))
  have put: "puts_in_place (assoc_items_of E v) (ed_assoc_put E v)"
    unfolding puts_in_place_def
  proof (intro allI impI)
    fix before k x x' behind w
    assume "assoc_items_of E v w = before @ (k, x) # behind" "distinct (map fst (assoc_items_of E v w))"
    from assoc_put_middle[OF assms(1) this, of x']
    show "assoc_items_of E v (ed_assoc_put E v k x' w) = before @ (k, x') # behind" by (simp add: assoc_items_of_def)
  qed
  from edit_each_prefix[where f = f and g = g, OF put assms(4) items _ assms(5)] assms(3) items
  obtain n where n: "n \<le> length items" "r = Ok () \<longleftrightarrow> n = length items"
      "assoc_items_of E v w' = map (\<lambda>(k, x). (k, g x)) (take n items) @ drop n items"
      "n < length items \<longrightarrow> r = Err EXECUTION_FAILURE \<and> f (snd (items ! n)) = None" by auto
  have "map (\<lambda>(k, x). (k, g x)) (take n items) @ drop n items \<noteq> []" using False by (cases n) auto
  with n show ?thesis using assoc_items_ofD[OF n(3)] by auto
qed (use assms in simp)

text \<open>
  \<open>replace\<close> on an array edits its elements in order and keeps their keys: on
  success every value has all its matches replaced; it stops at the first value
  whose replacement has a NUL byte, with the elements before it edited.
\<close>

lemma replace_elements:
  assumes "edit_laws E" "ed_find E v w = Some x" "array_ok x" "regex_new E pattern = Some re"
    and "replace_var E v pattern replacement w = (r, w')"
  shows "\<exists>n \<le> length (element_values x).
     ed_find E v w' = Some (edited (\<lambda>s. replace_all E re s replacement) n x) \<and>
     (r = Ok () \<longleftrightarrow> n = length (element_values x)) \<and>
     (n < length (element_values x) \<longrightarrow>
        r = Err EXECUTION_FAILURE \<and> CHR 0x00 \<in> set (replace_all E re (element_values x ! n) replacement))"
proof -
  have val: "y = replace_all E re s replacement" if "replaced E re replacement s = Some y" for s y
    using that by (simp add: replaced_def cstring_new_def split: if_splits)
  have none: "replaced E re replacement s = None \<longleftrightarrow> CHR 0x00 \<in> set (replace_all E re s replacement)" for s
    by (simp add: replaced_def cstring_new_def)
  show ?thesis
  proof (cases x)
    case (Indexed items)
    from edit_each_indexed[of E v w items "replaced E re replacement" "\<lambda>s. replace_all E re s replacement" r w', OF assms(1) _ _ val]
    show ?thesis using assms(2-) Indexed none by (auto simp: replace_var_def)
  next
    case (Associative items)
    from edit_each_assoc[of E v w items "replaced E re replacement" "\<lambda>s. replace_all E re s replacement" r w', OF assms(1) _ _ val]
    show ?thesis using assms(2-) Associative none by (auto simp: replace_var_def)
  qed (use assms(3) in simp)
qed

lemma split_terminated:
  assumes "list_all nul_free recs"
  shows "split_at (CHR 0x00) (terminated recs) = recs @ [[]]"
  using assms by (induction recs) (auto simp: terminated_def nul_free_def split_at_append)

lemma split_records_terminated: "list_all nul_free recs \<Longrightarrow> split_records (terminated recs) = recs"
proof (cases recs rule: rev_cases)
  case (snoc rs r)
  assume "list_all nul_free recs"
  moreover have "terminated recs \<noteq> [] \<and> last (terminated recs) = CHR 0x00" using snoc by (simp add: terminated_def)
  ultimately show ?thesis by (simp add: split_records_def split_terminated)
qed (simp add: split_records_def terminated_def)

lemma array_put_end: "\<forall>(j, _) \<in> set items. j < i \<Longrightarrow> array_put i s items = items @ [(i, s)]"
proof -
  assume "\<forall>(j, _) \<in> set items. j < i"
  then have "i \<notin> fst ` set items" "insort_key fst (i, s) items = items @ [(i, s)]" by (induction items) auto
  then show ?thesis by (simp add: array_put_def)
qed

lemma put_records_find:
  assumes "edit_laws E" "ed_find E v w = Some (Indexed (map (\<lambda>(j, x). (int j, x)) (enumerate 0 before)))"
  shows "ed_find E v (fold (\<lambda>(i, r). ed_arr_put E v (int i) r) (enumerate (length before) recs) w) =
    Some (Indexed (map (\<lambda>(j, x). (int j, x)) (enumerate 0 (before @ recs))))"
  using assms(2)
proof (induction recs arbitrary: before w)
  case (Cons r recs)
  have "array_put (int (length before)) r (map (\<lambda>(j, x). (int j, x)) (enumerate 0 before)) =
      map (\<lambda>(j, x). (int j, x)) (enumerate 0 (before @ [r]))"
    by (subst array_put_end) (auto simp: enumerate_append_eq in_set_enumerate_eq)
  then have "ed_find E v (ed_arr_put E v (int (length before)) r w) =
      Some (Indexed (map (\<lambda>(j, x). (int j, x)) (enumerate 0 (before @ [r]))))"
    using edit_laws_items(1)[OF assms(1) Cons.prems] by simp
  from Cons.IH[OF this] show ?case by simp
qed simp

text \<open>
  \<open>sedvar\<close> gives an indexed array to the script as one stream of NUL-terminated
  records; the records that the script prints become the elements, numbered from
  zero whatever the old indices were.
\<close>

lemma sedvar_array:
  assumes "edit_laws E" "ed_find E v w = Some (Indexed items)" "sed_new E script = Some sd"
    and "sed_eval E sd (terminated (map snd items)) = Some (terminated recs)" "list_all nul_free recs"
    and "ed_prepare E v w = (True, w1)"
  shows "\<exists>w'. sedvar E v script w = (Ok (), w') \<and>
     ed_find E v w' = Some (Indexed (map (\<lambda>(i, r). (int i, r)) (enumerate 0 recs)))"
  using put_records_find[OF assms(1), of v w1 "[]" recs] edit_laws_items(3)[OF assms(1,6)] assms
  by (simp add: sedvar_def sed_records_def split_records_terminated put_records_def)

text \<open>Variables as a map; a pattern is a character, the only script deletes the first
  record.\<close>

definition demo_edit ::
    "(string \<Rightarrow> bash_value option, 'g, char, unit) edit_env \<Rightarrow> (string \<Rightarrow> bash_value option, 'g, char, unit) edit_env" where
  "demo_edit E = E\<lparr>
     ed_find := \<lambda>v w. w v,
     ed_arr_put := \<lambda>v i s w. (case w v of Some (Indexed items) \<Rightarrow> w(v \<mapsto> Indexed (array_put i s items)) | _ \<Rightarrow> w),
     ed_assoc_put := \<lambda>v k s w. (case w v of Some (Associative items) \<Rightarrow> w(v \<mapsto> Associative (AList.update k s items)) | _ \<Rightarrow> w),
     ed_prepare := \<lambda>v w. (True, w(v \<mapsto> Indexed [])),
     regex_new := \<lambda>p. (case p of [c] \<Rightarrow> Some c | _ \<Rightarrow> None),
     replace_all := \<lambda>c s r. concat (map (\<lambda>x. if x = c then r else [x]) s),
     sed_new := \<lambda>_. Some (),
     sed_eval := \<lambda>_ s. Some (drop (Suc (length (takeWhile (\<lambda>c. c \<noteq> CHR 0x00) s))) s)\<rparr>"

lemma demo_edit_laws: "edit_laws (demo_edit E)"
  by (simp add: edit_laws_def demo_edit_def)

lemma replace_elements_witness:
  "\<forall>E :: (string \<Rightarrow> bash_value option, unit, char, unit) edit_env. \<exists>w'.
     replace_var (demo_edit E) ''a'' ''o'' ''0'' [''a'' \<mapsto> Indexed [(0, ''foo''), (7, ''bar'')]] = (Ok (), w') \<and>
     w' ''a'' = Some (Indexed [(0, ''f00''), (7, ''bar'')])"
proof
  fix E :: "(string \<Rightarrow> bash_value option, unit, char, unit) edit_env"
  let ?w = "[''a'' \<mapsto> Indexed [(0, ''foo''), (7, ''bar'')]]"
  obtain r w' where r: "replace_var (demo_edit E) ''a'' ''o'' ''0'' ?w = (r, w')" by fastforce
  have "r = Ok ()" using r
    by (auto simp: replace_var_def demo_edit_def replaced_def cstring_new_def)
  then show "\<exists>w'. replace_var (demo_edit E) ''a'' ''o'' ''0'' ?w = (Ok (), w') \<and>
     w' ''a'' = Some (Indexed [(0, ''f00''), (7, ''bar'')])"
    using replace_elements[OF demo_edit_laws _ _ _ r, of "Indexed [(0, ''foo''), (7, ''bar'')]" "CHR ''o''"] r
    by (auto simp: demo_edit_def)
qed

lemma sedvar_array_witness:
  "\<forall>E :: (string \<Rightarrow> bash_value option, unit, char, unit) edit_env. \<exists>w'.
     sedvar (demo_edit E) ''a'' ''1d'' [''a'' \<mapsto> Indexed [(3, ''foo''), (7, ''bar'')]] = (Ok (), w') \<and>
     w' ''a'' = Some (Indexed [(0, ''bar'')])"
proof
  fix E :: "(string \<Rightarrow> bash_value option, unit, char, unit) edit_env"
  let ?w = "[''a'' \<mapsto> Indexed [(3, ''foo''), (7, ''bar'')]]"
  show "\<exists>w'. sedvar (demo_edit E) ''a'' ''1d'' ?w = (Ok (), w') \<and> w' ''a'' = Some (Indexed [(0, ''bar'')])"
    using sedvar_array[OF demo_edit_laws, of E "''a''" ?w "[(3, ''foo''), (7, ''bar'')]" "''1d''" "()" "[''bar'']" "?w(''a'' \<mapsto> Indexed [])"]
    by (simp add: demo_edit_def terminated_def nul_free_def)
qed

end
