(* ===== verification/Lua_Api.thy ===== *)
theory Lua_Api
  imports Var_Edit
begin

text \<open>
  \<open>l_builtin/src/cmd_lua.rs\<close>: the \<open>bash\<close> module that scripts see (\<open>bash.get\<close>, \<open>bash.set\<close>,
  \<open>bash.unset\<close>, \<open>bash.eval\<close>, \<open>bash.expand\<close>, \<open>bash.expand_list\<close>) and the subcommand that
  runs a script. The Lua interpreter is a third-party crate: it is a parameter that
  is given the module, and a table is the list of pairs its iterator yields. Bash's
  variables and floating-point numbers are parameters. A C string ends at the first
  NUL of its bytes.
\<close>

section \<open>Values and environment\<close>

datatype 'f lua_value =
    Lua_nil
  | Lua_bool bool
  | Lua_int "64 word"
  | Lua_num 'f
  | Lua_str string
  | Lua_table "('f lua_value \<times> 'f lua_value) list"
  | Lua_other

datatype lua_error =
    Bad_base
  | Not_scalar
  | Not_integer_key
  | Not_associative
  | Readonly
  | Creation_failed
  | Cannot_unset int
  | Script_error

text \<open>\<open>lu_new_array\<close>, \<open>lu_new_assoc\<close> and \<open>lu_to_array\<close> are \<open>make_new_array_variable\<close>,
  \<open>make_new_assoc_variable\<close> and \<open>convert_var_to_array\<close>.\<close>

record ('w, 'g, 'f) lua_env =
  lu_getopt :: "'g getopt"
  lu_texts :: "string \<Rightarrow> string \<times> string"
  f64_integral :: "'f \<Rightarrow> bool"
  f64_as_i64 :: "'f \<Rightarrow> 64 word"
  f64_display :: "'f \<Rightarrow> string"
  lu_find :: "string \<Rightarrow> 'w \<Rightarrow> bash_value option"
  lu_invisible :: "string \<Rightarrow> 'w \<Rightarrow> bool"
  lu_readonly :: "string \<Rightarrow> 'w \<Rightarrow> bool"
  lu_non_unsettable :: "string \<Rightarrow> 'w \<Rightarrow> bool"
  lu_bind :: "string \<Rightarrow> string \<Rightarrow> 'w \<Rightarrow> bool \<times> 'w"
  lu_unbind :: "string \<Rightarrow> 'w \<Rightarrow> int \<times> 'w"
  lu_to_array :: "string \<Rightarrow> 'w \<Rightarrow> bool \<times> 'w"
  lu_new_array :: "string \<Rightarrow> 'w \<Rightarrow> bool \<times> 'w"
  lu_new_assoc :: "string \<Rightarrow> 'w \<Rightarrow> bool \<times> 'w"
  lu_arr_flush :: "string \<Rightarrow> 'w \<Rightarrow> 'w"
  lu_arr_put :: "string \<Rightarrow> int \<Rightarrow> string \<Rightarrow> 'w \<Rightarrow> 'w"
  lu_assoc_flush :: "string \<Rightarrow> 'w \<Rightarrow> 'w"
  lu_assoc_put :: "string \<Rightarrow> string \<Rightarrow> string \<Rightarrow> 'w \<Rightarrow> 'w"
  lu_execute :: "string \<Rightarrow> 'w \<Rightarrow> int \<times> 'w"
  lu_expand :: "string \<Rightarrow> 'w \<Rightarrow> string \<times> 'w"
  lu_expand_words :: "string \<Rightarrow> 'w \<Rightarrow> string list \<times> 'w"

type_synonym ('w, 'f) lua_call = "'w \<Rightarrow> ('f lua_value, lua_error) result \<times> 'w"

section \<open>Conversions\<close>

definition parse_base :: "64 word option \<Rightarrow> (64 word, lua_error) result" where
  "parse_base base =
     (case base of
        None \<Rightarrow> Ok 1
      | Some b \<Rightarrow> if b = 0 \<or> b = 1 then Ok b else Err Bad_base)"

text \<open>The bytes with the final NUL.\<close>

definition scalar_to_bytes :: "('w, 'g, 'f) lua_env \<Rightarrow> 'f lua_value \<Rightarrow> (string, lua_error) result" where
  "scalar_to_bytes E v =
     (case v of
        Lua_bool b \<Rightarrow> Ok ((if b then ''true'' else ''false'') @ [CHR 0x00])
      | Lua_int i \<Rightarrow> Ok (dec_int (sint i) @ [CHR 0x00])
      | Lua_num n \<Rightarrow> Ok (f64_display E n @ [CHR 0x00])
      | Lua_str s \<Rightarrow> Ok (s @ [CHR 0x00])
      | _ \<Rightarrow> Err Not_scalar)"

definition integer_key :: "('w, 'g, 'f) lua_env \<Rightarrow> 'f lua_value \<Rightarrow> bool" where
  "integer_key E k = (case k of Lua_int _ \<Rightarrow> True | Lua_num n \<Rightarrow> f64_integral E n | _ \<Rightarrow> False)"

fun table_has_non_integer_keys :: "('w, 'g, 'f) lua_env \<Rightarrow> ('f lua_value \<times> 'f lua_value) list \<Rightarrow> bool" where
  "table_has_non_integer_keys E [] = False"
| "table_has_non_integer_keys E ((k, v) # pairs) = (if integer_key E k then table_has_non_integer_keys E pairs else True)"

definition table_key_to_index :: "('w, 'g, 'f) lua_env \<Rightarrow> 'f lua_value \<Rightarrow> (64 word, lua_error) result" where
  "table_key_to_index E k =
     (case k of
        Lua_int i \<Rightarrow> Ok i
      | Lua_num n \<Rightarrow> if f64_integral E n then Ok (f64_as_i64 E n) else Err Not_integer_key
      | _ \<Rightarrow> Err Not_integer_key)"

section \<open>bash.set\<close>

text \<open>The array is flushed before its first pair is converted.\<close>

fun put_pairs ::
    "('w, 'g, 'f) lua_env \<Rightarrow> string \<Rightarrow> 64 word \<Rightarrow> ('f lua_value \<times> 'f lua_value) list \<Rightarrow> ('w, 'f) lua_call" where
  "put_pairs E name base [] w = (Ok (Lua_bool True), w)"
| "put_pairs E name base ((k, v) # pairs) w =
     (case table_key_to_index E k of
        Err e \<Rightarrow> (Err e, w)
      | Ok i \<Rightarrow>
          (case scalar_to_bytes E v of
             Err e \<Rightarrow> (Err e, w)
           | Ok s \<Rightarrow> put_pairs E name base pairs (lu_arr_put E name (sint (i - base)) (c_str s) w)))"

definition set_array_from_table ::
    "('w, 'g, 'f) lua_env \<Rightarrow> string \<Rightarrow> ('f lua_value \<times> 'f lua_value) list \<Rightarrow> 64 word \<Rightarrow> ('w, 'f) lua_call" where
  "set_array_from_table E name table base w =
     (case (case lu_find E name w of
              Some (Indexed _) \<Rightarrow> (True, w)
            | Some _ \<Rightarrow> lu_to_array E name w
            | None \<Rightarrow> lu_new_array E name w) of
        (False, w) \<Rightarrow> (Err Creation_failed, w)
      | (True, w) \<Rightarrow> put_pairs E name base table (lu_arr_flush E name w))"

fun put_assoc_pairs ::
    "('w, 'g, 'f) lua_env \<Rightarrow> string \<Rightarrow> ('f lua_value \<times> 'f lua_value) list \<Rightarrow> ('w, 'f) lua_call" where
  "put_assoc_pairs E name [] w = (Ok (Lua_bool True), w)"
| "put_assoc_pairs E name ((k, v) # pairs) w =
     (case scalar_to_bytes E k of
        Err e \<Rightarrow> (Err e, w)
      | Ok key \<Rightarrow>
          (case scalar_to_bytes E v of
             Err e \<Rightarrow> (Err e, w)
           | Ok s \<Rightarrow> put_assoc_pairs E name pairs (lu_assoc_put E name (c_str key) (c_str s) w)))"

definition set_assoc_from_table ::
    "('w, 'g, 'f) lua_env \<Rightarrow> string \<Rightarrow> ('f lua_value \<times> 'f lua_value) list \<Rightarrow> ('w, 'f) lua_call" where
  "set_assoc_from_table E name table w =
     (case lu_find E name w of
        Some (Associative _) \<Rightarrow> put_assoc_pairs E name table (lu_assoc_flush E name w)
      | Some _ \<Rightarrow> (Err Not_associative, w)
      | None \<Rightarrow>
          (case lu_new_assoc E name w of
             (False, w) \<Rightarrow> (Err Creation_failed, w)
           | (True, w) \<Rightarrow> put_assoc_pairs E name table (lu_assoc_flush E name w)))"

definition is_associative :: "bash_value option \<Rightarrow> bool" where
  "is_associative x = (case x of Some (Associative _) \<Rightarrow> True | _ \<Rightarrow> False)"

definition set_bash_from_lua ::
    "('w, 'g, 'f) lua_env \<Rightarrow> string \<Rightarrow> 'f lua_value \<Rightarrow> 64 word option \<Rightarrow> ('w, 'f) lua_call" where
  "set_bash_from_lua E lua_name val base w =
     (let name = c_str lua_name in
      case parse_base base of
        Err e \<Rightarrow> (Err e, w)
      | Ok base \<Rightarrow>
          if lu_find E name w \<noteq> None \<and> lu_readonly E name w then (Err Readonly, w)
          else (case val of
                  Lua_table table \<Rightarrow>
                    if is_associative (lu_find E name w) \<or> table_has_non_integer_keys E table
                    then set_assoc_from_table E name table w
                    else set_array_from_table E name table base w
                | other \<Rightarrow>
                    (case scalar_to_bytes E other of
                       Err e \<Rightarrow> (Err e, w)
                     | Ok s \<Rightarrow> (case lu_bind E name (c_str s) w of (b, w) \<Rightarrow> (Ok (Lua_bool b), w)))))"

section \<open>bash.get\<close>

text \<open>A new table is filled pair by pair; setting a key again replaces its value.\<close>

definition table_of_items :: "('k \<Rightarrow> 'f lua_value) \<Rightarrow> ('k \<times> string) list \<Rightarrow> 'f lua_value" where
  "table_of_items key items = Lua_table (fold (\<lambda>(k, s). AList.update (key k) (Lua_str s)) items [])"

definition get_bash_from_lua :: "('w, 'g, 'f) lua_env \<Rightarrow> string \<Rightarrow> 64 word option \<Rightarrow> ('w, 'f) lua_call" where
  "get_bash_from_lua E lua_name base w =
     (let name = c_str lua_name in
      case parse_base base of
        Err e \<Rightarrow> (Err e, w)
      | Ok base \<Rightarrow>
          (Ok (case lu_find E name w of
                 None \<Rightarrow> Lua_nil
               | Some x \<Rightarrow>
                   if lu_invisible E name w then Lua_nil
                   else (case x of
                           Indexed items \<Rightarrow> table_of_items (\<lambda>i. Lua_int (word_of_int i + base)) items
                         | Associative items \<Rightarrow> table_of_items Lua_str items
                         | Scalar None \<Rightarrow> Lua_nil
                         | Scalar (Some s) \<Rightarrow> Lua_str s)), w))"

section \<open>The other functions\<close>

definition l_check_unbind_variable :: "('w, 'g, 'f) lua_env \<Rightarrow> string \<Rightarrow> 'w \<Rightarrow> int \<times> 'w" where
  "l_check_unbind_variable E name w =
     (if lu_find E name w \<noteq> None \<and> lu_readonly E name w then (10000, w)
      else if lu_find E name w \<noteq> None \<and> lu_non_unsettable E name w then (10001, w)
      else lu_unbind E name w)"

definition lua_unset :: "('w, 'g, 'f) lua_env \<Rightarrow> string \<Rightarrow> ('w, 'f) lua_call" where
  "lua_unset E sname w =
     (case l_check_unbind_variable E (c_str sname) w of
        (rc, w) \<Rightarrow>
          (if rc = 0 then Ok (Lua_bool True) else if rc = - 1 then Ok (Lua_bool False) else Err (Cannot_unset rc), w))"

definition lua_eval :: "('w, 'g, 'f) lua_env \<Rightarrow> string \<Rightarrow> ('w, 'f) lua_call" where
  "lua_eval E cmd w = (case lu_execute E (c_str cmd) w of (rc, w) \<Rightarrow> (Ok (Lua_int (word_of_int rc)), w))"

definition lua_expand :: "('w, 'g, 'f) lua_env \<Rightarrow> string \<Rightarrow> ('w, 'f) lua_call" where
  "lua_expand E s w = (case lu_expand E (c_str s) w of (t, w) \<Rightarrow> (Ok (Lua_str t), w))"

definition numbered :: "string list \<Rightarrow> 'f lua_value" where
  "numbered ws = Lua_table (map (\<lambda>(i, s). (Lua_int (of_nat i), Lua_str s)) (enumerate 1 ws))"

definition lua_expand_list :: "('w, 'g, 'f) lua_env \<Rightarrow> string \<Rightarrow> ('w, 'f) lua_call" where
  "lua_expand_list E s w = (case lu_expand_words E (c_str s) w of (ws, w) \<Rightarrow> (Ok (numbered ws), w))"

section \<open>Running a script\<close>

text \<open>The calls a script can make, and what the module answers.\<close>

datatype 'f bash_call =
    Get string "64 word option"
  | Set string "'f lua_value" "64 word option"
  | Unset string
  | Eval string
  | Expand string
  | Expand_list string

fun bash_module :: "('w, 'g, 'f) lua_env \<Rightarrow> 'f bash_call \<Rightarrow> ('w, 'f) lua_call" where
  "bash_module E (Get name base) = get_bash_from_lua E name base"
| "bash_module E (Set name val base) = set_bash_from_lua E name val base"
| "bash_module E (Unset name) = lua_unset E name"
| "bash_module E (Eval cmd) = lua_eval E cmd"
| "bash_module E (Expand s) = lua_expand E s"
| "bash_module E (Expand_list s) = lua_expand_list E s"

text \<open>The interpreter gets the module, the table \<open>arg\<close> and the script; \<open>None\<close> when the
  script does not end.\<close>

type_synonym ('w, 'f) lua_interpreter =
  "('f bash_call \<Rightarrow> ('w, 'f) lua_call) \<Rightarrow> 'f lua_value \<Rightarrow> string \<Rightarrow> 'w \<Rightarrow> (('f lua_value, lua_error) result \<times> 'w) option"

definition run_lua_script ::
    "('w, 'g, 'f) lua_env \<Rightarrow> ('w, 'f) lua_interpreter \<Rightarrow> string \<Rightarrow> string list \<Rightarrow> 'w \<Rightarrow> (('f lua_value, lua_error) result \<times> 'w) option" where
  "run_lua_script E interp script args w = interp (bash_module E) (numbered args) script w"

definition l_lua_subcommand :: "('w, 'g, 'f) lua_env \<Rightarrow> ('w, 'f) lua_interpreter \<Rightarrow> 'w handler" where
  "l_lua_subcommand E interp list s =
     (let s = cmd_enter (described (lu_texts E) ''lua'') s in
      with_args (lu_getopt E) [rest_field ''rest''] list s (\<lambda>vs.
      case words_collect (rest_words (arg vs 0)) of
        [] \<Rightarrow> done_with (Err EX_USAGE) s
      | script # args \<Rightarrow>
          on_shell (\<lambda>w. map_option (\<lambda>(r, w). Val (case r of Ok _ \<Rightarrow> (Ok (), w) | Err _ \<Rightarrow> (Err EXECUTION_FAILURE, w)))
            (run_lua_script E interp script args w)) s))"

section \<open>Arrays set from tables\<close>

text \<open>Bash's indexed arrays; whether a variable is visible is not touched by its
  elements.\<close>

definition lua_array_laws :: "('w, 'g, 'f) lua_env \<Rightarrow> bool" where
  "lua_array_laws E \<longleftrightarrow>
     (\<forall>v i s w items. lu_find E v w = Some (Indexed items) \<longrightarrow>
        lu_find E v (lu_arr_put E v i s w) = Some (Indexed (array_put i s items))) \<and>
     (\<forall>v w items. lu_find E v w = Some (Indexed items) \<longrightarrow> lu_find E v (lu_arr_flush E v w) = Some (Indexed [])) \<and>
     (\<forall>v w w'. lu_to_array E v w = (True, w') \<or> lu_new_array E v w = (True, w') \<longrightarrow> (\<exists>items. lu_find E v w' = Some (Indexed items)))"

lemma lua_laws_put:
  "lua_array_laws E \<Longrightarrow> lu_find E v w = Some (Indexed items) \<Longrightarrow>
     lu_find E v (lu_arr_put E v i s w) = Some (Indexed (array_put i s items))"
  unfolding lua_array_laws_def by (drule conjunct1) blast

lemma lua_laws_flush:
  "lua_array_laws E \<Longrightarrow> lu_find E v w = Some (Indexed items) \<Longrightarrow> lu_find E v (lu_arr_flush E v w) = Some (Indexed [])"
  unfolding lua_array_laws_def by (drule conjunct2, drule conjunct1) blast

lemma lua_laws_new:
  "lua_array_laws E \<Longrightarrow> lu_to_array E v w = (True, w') \<or> lu_new_array E v w = (True, w') \<Longrightarrow>
     \<exists>items. lu_find E v w' = Some (Indexed items)"
  unfolding lua_array_laws_def by (drule conjunct2, drule conjunct2) blast

text \<open>The element that a pair of the table becomes.\<close>

definition pair_element :: "('w, 'g, 'f) lua_env \<Rightarrow> 64 word \<Rightarrow> 'f lua_value \<times> 'f lua_value \<Rightarrow> (int \<times> string) option" where
  "pair_element E base p =
     (case (table_key_to_index E (fst p), scalar_to_bytes E (snd p)) of
        (Ok i, Ok s) \<Rightarrow> Some (sint (i - base), c_str s)
      | _ \<Rightarrow> None)"

definition array_of :: "(int \<times> string) list \<Rightarrow> (int \<times> string) list" where
  "array_of elems = fold (\<lambda>(i, s). array_put i s) elems []"

lemma put_pairs_prefix:
  assumes "lua_array_laws E" "lu_find E v w = Some (Indexed (array_of done))" "put_pairs E v base table w = (r, w')"
  shows "\<exists>n elems. n \<le> length table \<and> map (pair_element E base) (take n table) = map Some elems \<and>
     lu_find E v w' = Some (Indexed (array_of (done @ elems))) \<and>
     (if n = length table then r = Ok (Lua_bool True) else (\<exists>e. r = Err e) \<and> pair_element E base (table ! n) = None)"
  using assms(2,3)
proof (induction table arbitrary: "done" w)
  case (Cons p table)
  obtain k x where p: "p = (k, x)" by fastforce
  show ?case
  proof (cases "pair_element E base p")
    case None
    then have "w' = w" "\<exists>e. r = Err e"
      using Cons.prems(2) p by (auto simp: pair_element_def split: result.splits)
    then show ?thesis using Cons.prems(1) None by (intro exI[of _ 0] exI[of _ "[]"]) auto
  next
    case (Some el)
    then obtain i s where el: "table_key_to_index E k = Ok i" "scalar_to_bytes E x = Ok s" "el = (sint (i - base), c_str s)"
      by (auto simp: pair_element_def p split: result.splits)
    have "lu_find E v (lu_arr_put E v (sint (i - base)) (c_str s) w) = Some (Indexed (array_of (done @ [el])))"
      using lua_laws_put[OF assms(1) Cons.prems(1)] el by (simp add: array_of_def)
    from Cons.IH[OF this] Cons.prems(2) obtain n elems where
      "n \<le> length table" "map (pair_element E base) (take n table) = map Some elems"
      "lu_find E v w' = Some (Indexed (array_of ((done @ [el]) @ elems)))"
      "if n = length table then r = Ok (Lua_bool True) else (\<exists>e. r = Err e) \<and> pair_element E base (table ! n) = None"
      using el by (auto simp: p)
    then show ?thesis using Some by (intro exI[of _ "Suc n"] exI[of _ "el # elems"]) auto
  qed
qed auto

lemma set_array_prefix:
  assumes "lua_array_laws E" "set_array_from_table E v table base w = (r, w')" "r \<noteq> Err Creation_failed"
  shows "\<exists>n elems. n \<le> length table \<and> map (pair_element E base) (take n table) = map Some elems \<and>
     lu_find E v w' = Some (Indexed (array_of elems)) \<and>
     (if n = length table then r = Ok (Lua_bool True) else (\<exists>e. r = Err e) \<and> pair_element E base (table ! n) = None)"
proof -
  obtain items w1 where "lu_find E v w1 = Some (Indexed items)" "put_pairs E v base table (lu_arr_flush E v w1) = (r, w')"
    using assms(2,3) lua_laws_new[OF assms(1), of v w]
    by (auto simp: set_array_from_table_def split: prod.splits bool.splits option.splits bash_value.splits)
  then have "lu_find E v (lu_arr_flush E v w1) = Some (Indexed (array_of []))"
      and "put_pairs E v base table (lu_arr_flush E v w1) = (r, w')"
    using lua_laws_flush[OF assms(1)] by (auto simp: array_of_def)
  from put_pairs_prefix[OF assms(1) this] show ?thesis by simp
qed

lemma array_put_new:
  assumes "i \<notin> fst ` set items" "distinct (map fst items)"
  shows "set (array_put i s items) = insert (i, s) (set items) \<and> distinct (map fst (array_put i s items))"
proof -
  have "distinct (map fst (insort_key fst (i, s) items))"
    using assms by (induction items) (auto simp: set_insort_key)
  then show ?thesis using assms(1) by (auto simp: array_put_def set_insort_key)
qed

lemma array_of_set:
  assumes "distinct (map fst elems)"
  shows "set (array_of elems) = set elems \<and> distinct (map fst (array_of elems))"
  using assms
proof (induction elems rule: rev_induct)
  case (snoc el elems)
  then have "fst el \<notin> fst ` set (array_of elems)" "distinct (map fst (array_of elems))" by auto
  from array_put_new[OF this, of "snd el"] show ?case using snoc by (auto simp: array_of_def split: prod.split)
qed (simp add: array_of_def)

lemma table_of_items_map:
  fixes key :: "'k \<Rightarrow> 'f lua_value"
  assumes "distinct (map (\<lambda>p. key (fst p)) items)"
  shows "\<exists>t. table_of_items key items = Lua_table t \<and> map_of t = map_of (map (\<lambda>(k, s). (key k, Lua_str s)) items)"
proof -
  have "map_of (fold (\<lambda>(k, s). AList.update (key k) (Lua_str s)) items acc) =
      map_of acc ++ map_of (map (\<lambda>(k, s). (key k, Lua_str s)) items)" for acc :: "('f lua_value \<times> 'f lua_value) list"
    using assms
  proof (induction items arbitrary: acc)
    case (Cons p items)
    obtain k s where p: "p = (k, s)" by fastforce
    have "key k \<notin> dom (map_of (map (\<lambda>(k, s). (key k, Lua_str s :: 'f lua_value)) items))"
      using Cons.prems by (auto simp: p dom_map_of_conv_image_fst image_iff)
    then show ?case using Cons
      by (simp add: p update_conv') (auto simp: map_add_def fun_eq_iff dom_def split: option.split)
  qed simp
  then show ?thesis by (simp add: table_of_items_def)
qed

text \<open>What the shell stores for a scalar.\<close>

definition bash_text :: "('w, 'g, 'f) lua_env \<Rightarrow> 'f lua_value \<Rightarrow> string" where
  "bash_text E x = (case scalar_to_bytes E x of Ok s \<Rightarrow> c_str s | Err _ \<Rightarrow> [])"

lemma pair_element_int:
  "pair_element E base (Lua_int i, x) = Some el \<Longrightarrow> el = (sint (i - base), bash_text E x)"
  by (auto simp: pair_element_def bash_text_def table_key_to_index_def split: result.splits)

text \<open>
  C40: A table with integer keys that \<open>bash.set\<close> has stored is read back by \<open>bash.get\<close>
  with the same base: the same keys, each with the text of its value. It is lost,
  read as \<open>nil\<close>, when the variable was declared but unset, since neither function
  makes it visible.
\<close>

theorem lua_table_roundtrip:
  fixes E :: "('w, 'g, 'f) lua_env"
  assumes "lua_array_laws E" "\<not> is_associative (lu_find E (c_str name) w)"
    and "\<forall>k \<in> set (map fst table). \<exists>i. k = Lua_int i" "distinct (map fst table)"
    and "set_bash_from_lua E name (Lua_table table) base w = (Ok res, w')"
  shows "\<exists>t. get_bash_from_lua E name base w' = (Ok (if lu_invisible E (c_str name) w' then Lua_nil else Lua_table t), w') \<and>
     map_of t = (\<lambda>k. map_option (\<lambda>x. Lua_str (bash_text E x)) (map_of table k))"
proof -
  obtain b where b: "parse_base base = Ok b" using assms(5) by (auto simp: set_bash_from_lua_def Let_def split: result.splits)
  have "\<not> table_has_non_integer_keys E table" using assms(3) by (induction table) (auto simp: integer_key_def)
  then have "set_array_from_table E (c_str name) table b w = (Ok res, w')"
    using assms(2,5) b by (auto simp: set_bash_from_lua_def Let_def split: if_splits)
  from set_array_prefix[OF assms(1) this] obtain elems where
      elems: "map (pair_element E b) table = map Some elems" and find: "lu_find E (c_str name) w' = Some (Indexed (array_of elems))"
    by (auto split: if_splits)
  let ?key = "\<lambda>i. Lua_int (word_of_int i + b) :: 'f lua_value"
  have conv: "map (\<lambda>(k, s). (?key k, Lua_str s :: 'f lua_value)) elems = map (\<lambda>(k, x). (k, Lua_str (bash_text E x) :: 'f lua_value)) table"
    using elems assms(3)
  proof (induction table arbitrary: elems)
    case (Cons p table)
    then obtain i el els where "fst p = Lua_int i" "elems = el # els" "pair_element E b p = Some el"
        "map (pair_element E b) table = map Some els" by (cases elems) auto
    moreover from this have "el = (sint (i - b), bash_text E (snd p))" using pair_element_int by (metis prod.collapse)
    ultimately show ?case using Cons by (auto simp: split_beta)
  qed simp
  have "map (\<lambda>p. ?key (fst p)) elems = map fst (map (\<lambda>(k, s). (?key k, Lua_str s :: 'f lua_value)) elems)"
    by (simp add: comp_def split_beta)
  then have keys: "map (\<lambda>p. ?key (fst p)) elems = map fst table"
    unfolding conv by (simp add: comp_def split_beta)
  then have "distinct (map (?key \<circ> fst) elems)" using assms(4) by (simp add: comp_def)
  then have dist: "distinct (map fst elems)" and inj: "inj_on (?key \<circ> fst) (set elems)"
    by (metis distinct_map list.map_comp, metis distinct_map)
  from array_of_set[OF dist] have arr: "set (array_of elems) = set elems" "distinct (array_of elems)"
    by (auto simp: distinct_map)
  have distk: "distinct (map (\<lambda>p. ?key (fst p)) (array_of elems))"
    using arr inj by (simp add: distinct_map comp_def)
  from table_of_items_map[OF this] obtain t where t: "table_of_items ?key (array_of elems) = Lua_table t"
      "map_of t = map_of (map (\<lambda>(k, s). (?key k, Lua_str s :: 'f lua_value)) (array_of elems))" by blast
  have "map_of (map (\<lambda>(k, s). (?key k, Lua_str s :: 'f lua_value)) (array_of elems)) = map_of (map (\<lambda>(k, s). (?key k, Lua_str s :: 'f lua_value)) elems)"
  proof (rule map_of_inject_set[THEN iffD2])
    show "distinct (map fst (map (\<lambda>(k, s). (?key k, Lua_str s :: 'f lua_value)) (array_of elems)))"
      using distk by (simp add: comp_def split_beta)
    show "distinct (map fst (map (\<lambda>(k, s). (?key k, Lua_str s :: 'f lua_value)) elems))"
      using keys assms(4) by (simp add: comp_def split_beta)
  qed (simp only: set_map arr(1))
  then have "map_of t = (\<lambda>k. map_option (\<lambda>x. Lua_str (bash_text E x)) (map_of table k))"
    unfolding t(2) conv by (simp add: map_of_map fun_eq_iff)
  then show ?thesis using find t(1) b by (intro exI[of _ t]) (simp add: get_bash_from_lua_def Let_def)
qed

lemma key_error: "table_key_to_index E k \<noteq> Err Creation_failed"
  by (simp add: table_key_to_index_def split: lua_value.split)

lemma scalar_error: "scalar_to_bytes E x \<noteq> Err Creation_failed"
  by (simp add: scalar_to_bytes_def split: lua_value.split)

text \<open>
  When \<open>bash.set\<close> of a table on an indexed array raises an error, either nothing
  changed, or the old elements are gone and the array holds the pairs before the
  first one that cannot be converted.
\<close>

lemma lua_set_partial:
  fixes E :: "('w, 'g, 'f) lua_env"
  assumes "lua_array_laws E" "lu_find E (c_str name) w = Some (Indexed items)" "\<not> table_has_non_integer_keys E table"
    and "set_bash_from_lua E name (Lua_table table) base w = (Err e, w')"
  shows "e \<in> {Bad_base, Readonly} \<and> w' = w \<or>
     (\<exists>b n elems. parse_base base = Ok b \<and> n < length table \<and>
        map (pair_element E b) (take n table) = map Some elems \<and> pair_element E b (table ! n) = None \<and>
        lu_find E (c_str name) w' = Some (Indexed (array_of elems)))"
proof (cases "parse_base base")
  case (Err e')
  then have "e' = Bad_base" by (auto simp: parse_base_def split: option.splits if_splits)
  then show ?thesis using Err assms(4) by (simp add: set_bash_from_lua_def)
next
  case (Ok b)
  show ?thesis
  proof (cases "lu_readonly E (c_str name) w")
    case True
    then show ?thesis using Ok assms(2,4) by (simp add: set_bash_from_lua_def)
  next
    case False
    then have s: "set_array_from_table E (c_str name) table b w = (Err e, w')"
      using Ok assms(2-) by (simp add: set_bash_from_lua_def is_associative_def)
    have "e \<noteq> Creation_failed"
    proof -
      have "put_pairs E v b t w1 \<noteq> (Err Creation_failed, w')" for v t w1
        by (induction t arbitrary: w1) (auto simp: key_error scalar_error split: result.splits)
      then show ?thesis using s assms(2) by (auto simp: set_array_from_table_def)
    qed
    then have "Err e \<noteq> (Err Creation_failed :: ('f lua_value, lua_error) result)" by simp
    from set_array_prefix[OF assms(1) s this] show ?thesis
    proof (elim exE conjE)
      fix n elems
      assume n: "n \<le> length table" "map (pair_element E b) (take n table) = map Some elems"
          "lu_find E (c_str name) w' = Some (Indexed (array_of elems))"
        and "if n = length table then (Err e :: ('f lua_value, lua_error) result) = Ok (Lua_bool True)
          else (\<exists>e'. (Err e :: ('f lua_value, lua_error) result) = Err e') \<and> pair_element E b (table ! n) = None"
      then have "n < length table" "pair_element E b (table ! n) = None" by (auto split: if_splits)
      with n Ok show ?thesis by blast
    qed
  qed
qed

text \<open>A table with a string key does not replace an indexed array or a scalar.\<close>

lemma lua_set_string_keys:
  assumes "lu_find E (c_str name) w = Some (Indexed items)" "table_has_non_integer_keys E table"
    and "parse_base base = Ok b" "\<not> lu_readonly E (c_str name) w"
  shows "set_bash_from_lua E name (Lua_table table) base w = (Err Not_associative, w)"
  using assms by (simp add: set_bash_from_lua_def set_assoc_from_table_def)

text \<open>With the default base the key zero is put at index \<open>- 1\<close>.\<close>

lemma lua_set_negative_index:
  "put_pairs E name 1 [(Lua_int 0, Lua_str s)] w = (Ok (Lua_bool True), lu_arr_put E name (- 1) (c_str (s @ [CHR 0x00])) w)"
  by (simp add: table_key_to_index_def scalar_to_bytes_def)

text \<open>Variables as a map, none of them readonly or invisible.\<close>

definition demo_lua ::
    "(string \<Rightarrow> bash_value option, 'g, 'f) lua_env \<Rightarrow> (string \<Rightarrow> bash_value option, 'g, 'f) lua_env" where
  "demo_lua E = E\<lparr>
     lu_find := \<lambda>v w. w v,
     lu_invisible := \<lambda>_ _. False,
     lu_readonly := \<lambda>_ _. False,
     lu_new_array := \<lambda>v w. (True, w(v \<mapsto> Indexed [])),
     lu_to_array := \<lambda>v w. (True, w(v \<mapsto> Indexed [])),
     lu_arr_flush := \<lambda>v w. w(v \<mapsto> Indexed []),
     lu_arr_put := \<lambda>v i s w. (case w v of Some (Indexed items) \<Rightarrow> w(v \<mapsto> Indexed (array_put i s items)) | _ \<Rightarrow> w)\<rparr>"

lemma demo_lua_laws: "lua_array_laws (demo_lua E)"
  by (auto simp: lua_array_laws_def demo_lua_def)

theorem lua_table_roundtrip_witness:
  "\<forall>E :: (string \<Rightarrow> bash_value option, unit, unit) lua_env. \<exists>w' t.
     set_bash_from_lua (demo_lua E) ''x'' (Lua_table [(Lua_int 1, Lua_str ''a''), (Lua_int 3, Lua_bool True)]) None Map.empty =
       (Ok (Lua_bool True), w') \<and>
     get_bash_from_lua (demo_lua E) ''x'' None w' = (Ok (Lua_table t), w') \<and> map_of t (Lua_int 3) = Some (Lua_str ''true'')"
proof
  fix E :: "(string \<Rightarrow> bash_value option, unit, unit) lua_env"
  let ?table = "[(Lua_int 1, Lua_str ''a''), (Lua_int 3, Lua_bool True)] :: (unit lua_value \<times> unit lua_value) list"
  have name: "c_str ''x'' = ''x''" by (rule c_str_id) (simp add: nul_free_def)
  obtain r w' where s: "set_bash_from_lua (demo_lua E) ''x'' (Lua_table ?table) None Map.empty = (r, w')" by fastforce
  then have r: "r = Ok (Lua_bool True)"
    by (simp add: set_bash_from_lua_def Let_def parse_base_def name is_associative_def integer_key_def set_array_from_table_def
        demo_lua_def table_key_to_index_def scalar_to_bytes_def)
  have "c_str ''true'' = ''true''" by (rule c_str_id) (simp add: nul_free_def)
  then have shown: "bash_text (demo_lua E) (Lua_bool True) = ''true''"
    by (simp add: bash_text_def scalar_to_bytes_def)
  from lua_table_roundtrip[OF demo_lua_laws _ _ _ s[unfolded r]]
  obtain t where "get_bash_from_lua (demo_lua E) ''x'' None w' = (Ok (Lua_table t), w')"
      "map_of t = (\<lambda>k. map_option (\<lambda>x. Lua_str (bash_text (demo_lua E) x)) (map_of ?table k))"
    by (auto simp: is_associative_def demo_lua_def)
  then show "\<exists>w' t. set_bash_from_lua (demo_lua E) ''x'' (Lua_table ?table) None Map.empty = (Ok (Lua_bool True), w') \<and>
     get_bash_from_lua (demo_lua E) ''x'' None w' = (Ok (Lua_table t), w') \<and> map_of t (Lua_int 3) = Some (Lua_str ''true'')"
    using s r shown by auto
qed

lemma lua_set_partial_witness:
  "\<forall>E :: (string \<Rightarrow> bash_value option, unit, unit) lua_env. \<exists>w'.
     set_bash_from_lua (demo_lua E) ''x'' (Lua_table [(Lua_int 1, Lua_table [])]) None [''x'' \<mapsto> Indexed [(0, ''old''), (9, ''z'')]] =
       (Err Not_scalar, w') \<and> w' ''x'' = Some (Indexed [])"
proof
  fix E :: "(string \<Rightarrow> bash_value option, unit, unit) lua_env"
  let ?table = "[(Lua_int 1, Lua_table [])] :: (unit lua_value \<times> unit lua_value) list"
  let ?w = "[''x'' \<mapsto> Indexed [(0, ''old''), (9, ''z'')]]"
  have name: "c_str ''x'' = ''x''" by (rule c_str_id) (simp add: nul_free_def)
  obtain r w' where s: "set_bash_from_lua (demo_lua E) ''x'' (Lua_table ?table) None ?w = (r, w')" by fastforce
  then have r: "r = Err Not_scalar"
    by (simp add: set_bash_from_lua_def Let_def parse_base_def name is_associative_def integer_key_def set_array_from_table_def
        demo_lua_def table_key_to_index_def scalar_to_bytes_def)
  from lua_set_partial[OF demo_lua_laws _ _ s[unfolded r]]
  have "w' ''x'' = Some (Indexed [])"
    by (auto simp: demo_lua_def name integer_key_def array_of_def)
  then show "\<exists>w'. set_bash_from_lua (demo_lua E) ''x'' (Lua_table ?table) None ?w = (Err Not_scalar, w') \<and> w' ''x'' = Some (Indexed [])"
    using s r by blast
qed

end
