(* ===== verification/Display.thy ===== *)
theory Display
  imports Int_Str
begin

text \<open>
  \<open>l_builtin/src/bprint_bytes.rs\<close> apart from the integers (\<open>Int_Str\<close>): what each type
  writes, and the formatting macros. A writer is a function on a state; the
  error of a write is ignored. \<open>to_string_lossy\<close> and the \<open>Display\<close> of an I/O error are
  the standard library's: the text is given.
\<close>

section \<open>Definitions\<close>

datatype panic_payload = Payload_str string | Payload_string string | Payload_other

text \<open>\<open>Bytes\<close> are slices, arrays, vectors, strings and C strings; \<open>Scalar_value\<close> is a
  \<open>char\<close> of Rust, by its code point.\<close>

datatype displayed =
    Bytes string
  | C_pointer "string option"
  | Os_text string
  | Byte char
  | Scalar_value nat
  | Unsigned nat
  | Signed int
  | Io_message string
  | Panic_payload panic_payload

definition byte :: "nat \<Rightarrow> char" where
  "byte n = char_of n"

text \<open>\<open>char::encode_utf8\<close>.\<close>

definition encode_utf8 :: "nat \<Rightarrow> string" where
  "encode_utf8 c =
     (if c < 0x80 then [byte c]
      else if c < 0x800 then [byte (0xC0 + c div 64), byte (0x80 + c mod 64)]
      else if c < 0x10000 then [byte (0xE0 + c div 4096), byte (0x80 + c div 64 mod 64), byte (0x80 + c mod 64)]
      else [byte (0xF0 + c div 262144), byte (0x80 + c div 4096 mod 64), byte (0x80 + c div 64 mod 64), byte (0x80 + c mod 64)])"

definition payload_text :: "panic_payload \<Rightarrow> string" where
  "payload_text p = (case p of Payload_str s \<Rightarrow> s | Payload_string s \<Rightarrow> s | Payload_other \<Rightarrow> ''unknown panic payload'')"

fun displayed_bytes :: "displayed \<Rightarrow> string" where
  "displayed_bytes (Bytes s) = s"
| "displayed_bytes (C_pointer p) = (case p of None \<Rightarrow> ''(null)'' | Some s \<Rightarrow> c_str s)"
| "displayed_bytes (Os_text s) = s"
| "displayed_bytes (Byte b) = [b]"
| "displayed_bytes (Scalar_value c) = encode_utf8 c"
| "displayed_bytes (Unsigned n) = dec n"
| "displayed_bytes (Signed i) = dec_int i"
| "displayed_bytes (Io_message s) = s"
| "displayed_bytes (Panic_payload p) = payload_text p"

text \<open>The macros: one write per argument, in order.\<close>

fun bwrite :: "(string \<Rightarrow> 'w \<Rightarrow> 'w) \<Rightarrow> displayed list \<Rightarrow> 'w \<Rightarrow> 'w" where
  "bwrite write_all [] w = w"
| "bwrite write_all (x # xs) w = bwrite write_all xs (write_all (displayed_bytes x) w)"

definition newline :: displayed where
  "newline = Bytes [CHR 0x0A]"

definition bwriteln :: "(string \<Rightarrow> 'w \<Rightarrow> 'w) \<Rightarrow> displayed list \<Rightarrow> 'w \<Rightarrow> 'w" where
  "bwriteln write_all xs = bwrite write_all (xs @ [newline])"

definition push_bytes :: "string \<Rightarrow> string \<Rightarrow> string" where
  "push_bytes s buf = buf @ s"

definition bformat :: "displayed list \<Rightarrow> string" where
  "bformat xs = bwrite push_bytes xs []"

definition bformatln :: "displayed list \<Rightarrow> string" where
  "bformatln xs = bwriteln push_bytes xs []"

definition bformatstring :: "displayed list \<Rightarrow> string run" where
  "bformatstring xs = (case from_utf8 (bformat xs) of Some s \<Rightarrow> Val s | None \<Rightarrow> Panic)"

text \<open>Printing locks a standard stream and writes to it; without arguments it does nothing.\<close>

record 'w std_streams =
  write_stdout :: "string \<Rightarrow> 'w \<Rightarrow> 'w"
  write_stderr :: "string \<Rightarrow> 'w \<Rightarrow> 'w"

definition bprint_impl :: "(string \<Rightarrow> 'w \<Rightarrow> 'w) \<Rightarrow> displayed list \<Rightarrow> 'w \<Rightarrow> 'w" where
  "bprint_impl target xs w = (case xs of [] \<Rightarrow> w | _ \<Rightarrow> bwrite target xs w)"

definition bprint :: "'w std_streams \<Rightarrow> displayed list \<Rightarrow> 'w \<Rightarrow> 'w" where
  "bprint S = bprint_impl (write_stdout S)"

definition beprint :: "'w std_streams \<Rightarrow> displayed list \<Rightarrow> 'w \<Rightarrow> 'w" where
  "beprint S = bprint_impl (write_stderr S)"

definition bprintln :: "'w std_streams \<Rightarrow> displayed list \<Rightarrow> 'w \<Rightarrow> 'w" where
  "bprintln S xs = bprint_impl (write_stdout S) (xs @ [newline])"

definition beprintln :: "'w std_streams \<Rightarrow> displayed list \<Rightarrow> 'w \<Rightarrow> 'w" where
  "beprintln S xs = bprint_impl (write_stderr S) (xs @ [newline])"

section \<open>Formatting\<close>

lemma bwrite_append: "bwrite f (xs @ ys) w = bwrite f ys (bwrite f xs w)"
  by (induction xs arbitrary: w) auto

lemma bwrite_push: "bwrite push_bytes xs buf = buf @ concat (map displayed_bytes xs)"
  by (induction xs arbitrary: buf) (auto simp: push_bytes_def)

lemma bformat_concat: "bformat xs = concat (map displayed_bytes xs)"
  by (simp add: bformat_def bwrite_push)

text \<open>Formatting pieces and writing them gives what writing the formatted bytes gives.\<close>

lemma bwriteln_bformat:
  assumes "\<And>a b w. write_all b (write_all a w) = write_all (a @ b) w" "\<And>w. write_all [] w = w"
  shows "bwriteln write_all xs w = write_all (bformatln xs) w"
proof -
  have "bwrite write_all xs w = write_all (concat (map displayed_bytes xs)) w" for xs w
    by (induction xs arbitrary: w) (simp_all add: assms)
  then show ?thesis by (simp add: bwriteln_def bformatln_def bwrite_push)
qed

text \<open>A printed line is its bytes with a newline, in order.\<close>

lemma bprintln_writes: "bprintln S xs = bwriteln (write_stdout S) xs" "beprintln S xs = bwriteln (write_stderr S) xs"
  by (auto simp: bprintln_def beprintln_def bprint_impl_def bwriteln_def fun_eq_iff split: list.splits)

lemma utf8_valid_append: "utf8_valid s \<Longrightarrow> utf8_valid (s @ t) = utf8_valid t"
proof (induction s rule: utf8_valid.induct)
  case (2 a s)
  consider (one) "in_range 0 0x7F a" | (two) b s' where "\<not> in_range 0 0x7F a" "in_range 0xC2 0xDF a" "s = b # s'"
    | (three) b c s' where "\<not> in_range 0 0x7F a" "\<not> in_range 0xC2 0xDF a" "in_range 0xE0 0xEF a" "s = b # c # s'"
    | (four) b c d s' where "\<not> in_range 0 0x7F a" "\<not> in_range 0xC2 0xDF a" "\<not> in_range 0xE0 0xEF a" "in_range 0xF0 0xF4 a" "s = b # c # d # s'"
    using 2(5) by (simp split: if_splits list.splits)
  then show ?case
  proof cases
    case one then show ?thesis using 2(1,5) by simp
  next
    case two then show ?thesis using 2(2)[OF two] 2(5) by simp
  next
    case three then show ?thesis using 2(3)[OF three] 2(5) by simp
  next
    case four then show ?thesis using 2(4)[OF four] 2(5) by simp
  qed
qed simp

definition scalar_value :: "nat \<Rightarrow> bool" where
  "scalar_value c \<longleftrightarrow> c < 0xD800 \<or> 0xE000 \<le> c \<and> c < 0x110000"

lemma of_byte: "n < 256 \<Longrightarrow> of_char (byte n) = n"
  by (simp add: byte_def)

lemma utf8_encoded:
  "2 \<le> a \<Longrightarrow> a < 32 \<Longrightarrow> b < 64 \<Longrightarrow> utf8_valid [byte (0xC0 + a), byte (0x80 + b)]"
  "a < 16 \<Longrightarrow> b < 64 \<Longrightarrow> d < 64 \<Longrightarrow> (a = 0 \<Longrightarrow> 32 \<le> b) \<Longrightarrow> (a = 13 \<Longrightarrow> b < 32) \<Longrightarrow>
     utf8_valid [byte (0xE0 + a), byte (0x80 + b), byte (0x80 + d)]"
  "a < 5 \<Longrightarrow> b < 64 \<Longrightarrow> d < 64 \<Longrightarrow> e < 64 \<Longrightarrow> (a = 0 \<Longrightarrow> 16 \<le> b) \<Longrightarrow> (a = 4 \<Longrightarrow> b < 16) \<Longrightarrow>
     utf8_valid [byte (0xF0 + a), byte (0x80 + b), byte (0x80 + d), byte (0x80 + e)]"
  by (auto simp: utf8_cont_def utf8_second3_def utf8_second4_def in_range_def of_byte)

lemma encode_utf8_valid:
  assumes "scalar_value c"
  shows "utf8_valid (encode_utf8 c)"
proof -
  consider "c < 0x80" | "0x80 \<le> c" "c < 0x800" | "0x800 \<le> c" "c < 0x10000" "c < 0xD800 \<or> 0xE000 \<le> c"
    | "0x10000 \<le> c" "c < 0x110000"
    using assms by (force simp: scalar_value_def)
  then show ?thesis
  proof cases
    case 2
    then have "2 \<le> c div 64" "c div 64 < 32" by auto
    moreover have "encode_utf8 c = [byte (0xC0 + c div 64), byte (0x80 + c mod 64)]" using 2 by (simp add: encode_utf8_def)
    ultimately show ?thesis by (simp only:) (rule utf8_encoded(1); simp)
  next
    case 3
    define q where "q = c div 64"
    have q0: "c div 4096 = q div 64" using div_mult2_eq[of c 64 64] by (simp add: q_def)
    have q1: "c = 64 * q + c mod 64" "c mod 64 < 64" by (simp_all add: q_def)
    have "32 \<le> q" "q < 864 \<or> 896 \<le> q" "q < 1024"
      using 3 q1 by linarith+
    moreover have "q = 64 * (q div 64) + q mod 64" "q mod 64 < 64" by simp_all
    ultimately have "q div 64 = 0 \<Longrightarrow> 32 \<le> q mod 64" "q div 64 = 13 \<Longrightarrow> q mod 64 < 32" "q div 64 < 16"
      by arith+
    moreover have "encode_utf8 c = [byte (0xE0 + q div 64), byte (0x80 + q mod 64), byte (0x80 + c mod 64)]"
      using 3 by (simp add: encode_utf8_def q0 q_def)
    ultimately show ?thesis by (simp only:) (rule utf8_encoded(2); simp)
  next
    case 4
    define q where "q = c div 4096"
    have q0: "c div 262144 = q div 64" using div_mult2_eq[of c 4096 64] by (simp add: q_def)
    have q1: "c = 4096 * q + c mod 4096" "c mod 4096 < 4096" by (simp_all add: q_def)
    have "16 \<le> q" "q < 272"
      using 4 q1 by linarith+
    moreover have "q = 64 * (q div 64) + q mod 64" "q mod 64 < 64" by simp_all
    ultimately have "q div 64 = 0 \<Longrightarrow> 16 \<le> q mod 64" "q div 64 = 4 \<Longrightarrow> q mod 64 < 16" "q div 64 < 5"
      by arith+
    moreover have "encode_utf8 c = [byte (0xF0 + q div 64), byte (0x80 + q mod 64), byte (0x80 + c div 64 mod 64), byte (0x80 + c mod 64)]"
      using 4 by (simp add: encode_utf8_def q0 q_def)
    ultimately show ?thesis by (simp only:) (rule utf8_encoded(3); simp)
  qed (simp add: encode_utf8_def in_range_def of_byte)
qed

text \<open>Which arguments can make \<open>bformatstring!\<close> panic.\<close>

fun displays_text :: "displayed \<Rightarrow> bool" where
  "displays_text (Bytes s) = utf8_valid s"
| "displays_text (C_pointer p) = (case p of None \<Rightarrow> True | Some s \<Rightarrow> utf8_valid (c_str s))"
| "displays_text (Os_text s) = utf8_valid s"
| "displays_text (Byte b) = in_range 0 0x7F b"
| "displays_text (Scalar_value c) = scalar_value c"
| "displays_text (Unsigned n) = True"
| "displays_text (Signed i) = True"
| "displays_text (Io_message s) = utf8_valid s"
| "displays_text (Panic_payload p) = utf8_valid (payload_text p)"

lemma dec_int_valid: "utf8_valid (dec n)" "utf8_valid (dec_int i)"
proof -
  show n: "utf8_valid (dec n)" for n by (rule utf8_valid_ascii[OF dec_ascii])
  show "utf8_valid (dec_int i)"
  proof (cases "i < 0")
    case True
    have "in_range 0 0x7F (CHR ''-'')" by (simp add: in_range_def)
    then have "utf8_valid (CHR ''-'' # dec (nat (- i)))" using n by (simp only: utf8_valid.simps if_True)
    then show ?thesis using True by (simp only: dec_int_def if_True)
  qed (simp only: dec_int_def if_False n)
qed

lemma displayed_valid: "displays_text x \<Longrightarrow> utf8_valid (displayed_bytes x)"
  by (cases x; simp only: displays_text.simps displayed_bytes.simps)
    (simp_all add: encode_utf8_valid dec_int_valid in_range_def split: option.splits)

lemma bformatstring_ok: "list_all displays_text xs \<Longrightarrow> bformatstring xs = Val (concat (map displayed_bytes xs))"
proof -
  assume "list_all displays_text xs"
  then have "utf8_valid (concat (map displayed_bytes xs))"
    by (induction xs) (auto simp: utf8_valid_append displayed_valid)
  then show ?thesis by (simp add: bformatstring_def bformat_concat from_utf8_def)
qed

end
