(* ===== verification/Utilities.thy ===== *)
theory Utilities
  imports Display Fd_Io Fcntl Signals
begin

text \<open>
  Subcommands without a state of their own: \<open>l_builtin/src/cmd_core.rs\<close> (utilities of the
  uutils crates, run in the process), \<open>cmd_version.rs\<close> and the test runner of
  \<open>unittest.rs\<close>. The utilities, the tests and the standard streams are parameters, as
  are the constants that the build generates.
\<close>

section \<open>Environment\<close>

text \<open>The main function of a utility gets the words with its name first and returns an
  exit code; a test of the registry passes or panics.\<close>

record ('w, 'g) util_env =
  ut_getopt :: "'g getopt"
  ut_texts :: "string \<Rightarrow> string \<times> string"
  ut_stdout :: "string \<Rightarrow> 'w \<Rightarrow> 'w"
  ut_stderr :: "string \<Rightarrow> 'w \<Rightarrow> 'w"
  uumain :: "string \<Rightarrow> string list \<Rightarrow> 'w \<Rightarrow> int \<times> 'w"
  builtin_version :: string
  builtin_commit :: string
  bash_version :: string
  bash_commit :: string
  dist_version :: "string option"
  patch_level :: int
  build_version :: int
  release_status :: "string option"
  array_impl_is_alt :: int
  run_test :: "string \<Rightarrow> string \<Rightarrow> 'w \<Rightarrow> bool \<times> 'w"

section \<open>core\<close>

definition uu_names :: "string list" where
  "uu_names = [''dirname'', ''ls'', ''rm'', ''stat'', ''tee'', ''sleep'', ''printf'']"

definition uu_table :: "('w, 'g) util_env \<Rightarrow> (64 word, string list \<Rightarrow> 'w \<Rightarrow> int \<times> 'w) int_lookup run" where
  "uu_table E = int_lookup_new 7 (map (\<lambda>n. (n, uumain E n)) uu_names)"

definition core_fields :: "fd_arg field list" where
  "core_fields = [rest_field ''rest'']"

definition l_core_subcommand :: "('w, 'g) util_env \<Rightarrow> 'w handler" where
  "l_core_subcommand E list s =
     (let s = cmd_enter (described (ut_texts E) ''core'') s in
      with_args (ut_getopt E) core_fields list s (\<lambda>vs.
      let rest = rest_words (arg vs 0) in
      case iter_current rest of
        None \<Rightarrow> done_with (Err EX_NOTFOUND) s
      | Some val \<Rightarrow>
     (case bindR (uu_table E) (\<lambda>t. lookup t val) of
        Panic \<Rightarrow> Some Panic
      | Val None \<Rightarrow> done_with (Err EX_NOTFOUND) s
      | Val (Some main) \<Rightarrow>
          (case main (words_collect rest) (world s) of (r, w) \<Rightarrow>
             done_with (if r = 0 then Ok () else Err (Code r)) (set_world w s)))))"

section \<open>version\<close>

definition version_lines :: "('w, 'g) util_env \<Rightarrow> displayed list list" where
  "version_lines E =
     [[Bytes ''L_builtin version: '', Bytes (builtin_version E)],
      [Bytes ''L_builtin commit:  '', Bytes (builtin_commit E)],
      [Bytes ''Bash version (compile-time): '', Bytes (bash_version E)],
      [Bytes ''Bash commit (compile-time):  '', Bytes (bash_commit E)],
      [Bytes ''Bash version (runtime):      '', C_pointer (dist_version E), Bytes ''.'', Signed (patch_level E), Bytes ''('',
       Signed (build_version E), Bytes '')-'', C_pointer (release_status E)],
      [Bytes (if array_impl_is_alt E = 1 then ''Bash array implementation: ALT (dense)''
              else if array_impl_is_alt E = 0 then ''Bash array implementation: non-ALT (sparse linked list)''
              else ''Bash array implementation: unknown (error)'')]]"

definition version_subcommand :: "('w, 'g) util_env \<Rightarrow> 'w handler" where
  "version_subcommand E list s =
     (let s = cmd_enter (described (ut_texts E) ''version'') s in
      with_args (ut_getopt E) ([] :: fd_arg field list) list s (\<lambda>vs.
      done_with (Ok ()) (set_world (fold (bwriteln (ut_stdout E)) (version_lines E) (world s)) s)))"

section \<open>unittest\<close>

definition test_suites :: "(string \<times> string list) list" where
  "test_suites =
     [(''bash_api'', [''test_valid_var_names'', ''test_invalid_var_names'']),
      (''bprint_bytes'', [''test_basic'', ''test_cstr'', ''test_multi'', ''test_stderr'', ''test_bwriteln''])]"

definition say :: "('w, 'g) util_env \<Rightarrow> displayed list \<Rightarrow> 'w \<Rightarrow> 'w" where
  "say E = bwriteln (ut_stderr E)"

fun run_tests :: "('w, 'g) util_env \<Rightarrow> string \<Rightarrow> string list \<Rightarrow> nat \<times> 'w \<Rightarrow> nat \<times> 'w" where
  "run_tests E grp [] st = st"
| "run_tests E grp (t # ts) (failed, w) =
     (case run_test E grp t (say E [Bytes ''  test '', Bytes t, Bytes '' ...''] w) of
        (True, w) \<Rightarrow> run_tests E grp ts (failed, say E [Bytes ''    ok''] w)
      | (False, w) \<Rightarrow> run_tests E grp ts (failed + 1, say E [Bytes ''    FAILED (panic)''] w))"

fun run_suites :: "('w, 'g) util_env \<Rightarrow> (string \<times> string list) list \<Rightarrow> nat \<times> 'w \<Rightarrow> nat \<times> 'w" where
  "run_suites E [] st = st"
| "run_suites E ((grp, tests) # ss) (failed, w) =
     run_suites E ss (run_tests E grp tests (failed, say E [Bytes grp, Bytes '':''] w))"

definition l_unittest_subcommand :: "('w, 'g) util_env \<Rightarrow> 'w handler" where
  "l_unittest_subcommand E list s =
     with_args (ut_getopt E) ([] :: fd_arg field list) list s (\<lambda>vs.
     case run_suites E test_suites (0, say E [Bytes ''running in-process unit tests ...''] (world s)) of
       (failed, w) \<Rightarrow>
         (let total_tests = sum_list (map (length \<circ> snd) test_suites);
              w = say E [Bytes (''test result: '' @ dec (total_tests - failed) @ '' passed; '' @ dec failed @ '' failed'')] w;
              code = (if failed > 200 then 200 else failed)
          in done_with (cint_to_cmd_result (int code)) (set_world w s)))"

section \<open>What they do\<close>

lemma uu_table_ok: "table_ok TYPE(64) 7 (map (\<lambda>n. (n, uumain E n)) uu_names)"
  "list_all nul_free (map fst (map (\<lambda>n. (n, uumain E n)) uu_names))"
  by (simp_all add: table_ok_def uu_names_def t_bytes_def min_required_len_def)

lemma core_parse:
  assumes "getopt_yields ops list ''h'' (getopt_reset ops) [] ws"
  shows "parse ops core_fields list = Some (Ok [Words ws])"
proof -
  have "optstring core_fields = ''h''" by (simp add: optstring_def core_fields_def rest_field_def)
  then show ?thesis
    using parse_yields[of ops list core_fields] assms
    by (simp add: core_fields_def rest_field_def new_default_def has_rest_def)
qed

text \<open>The utility that the first word names or abbreviates runs on all the words, and
  its exit code is the result.\<close>

lemma core_runs:
  fixes E :: "('w, 'g) util_env"
  assumes y: "getopt_yields (ut_getopt E) list ''h'' (getopt_reset (ut_getopt E)) [] (Some q # ws)"
    and q: "q \<noteq> []" "nul_free q"
  shows "l_core_subcommand E list s =
    (let s0 = cmd_enter (described (ut_texts E) ''core'') s in
     case prefix_lookup (map (\<lambda>n. (n, uumain E n)) uu_names) q of
       None \<Rightarrow> Some (Val (Err EX_NOTFOUND, s0))
     | Some main \<Rightarrow> (case main (q # words_collect ws) (world s0) of (r, w) \<Rightarrow>
         Some (Val (cint_to_cmd_result r, set_world w s0))))"
proof -
  have "8 dvd LENGTH(64)" by simp
  from int_lookup_new_holds[OF this uu_table_ok] obtain t :: "(64 word, string list \<Rightarrow> 'w \<Rightarrow> int \<times> 'w) int_lookup" and es
    where t: "uu_table E = Val t" "holds t es" "mset es = mset (map (\<lambda>n. (n, uumain E n)) uu_names)"
    unfolding uu_table_def by blast
  have "lookup t q = Val (prefix_lookup (map (\<lambda>n. (n, uumain E n)) uu_names) q)"
    using u64.find_prefix[OF t(2) q] prefix_lookup_mset[OF t(3) u64.entries_distinct[OF t(2)]] by simp
  then show ?thesis
    by (simp add: l_core_subcommand_def with_args_def core_parse[OF y] t(1) Let_def iter_current_def done_with_def
        cint_to_cmd_result_def split: option.splits prod.splits)
qed

lemma run_tests_mono: "fst st \<le> fst (run_tests E g ts st)"
proof (induction E g ts st rule: run_tests.induct)
  case (2 E grp t ts failed w)
  then show ?case by (fastforce split: prod.splits bool.splits)
qed simp

lemma run_suites_mono: "fst st \<le> fst (run_suites E ss st)"
proof (induction E ss st rule: run_suites.induct)
  case (2 E grp tests ss failed w)
  then show ?case using run_tests_mono[of "(failed, say E [Bytes grp, Bytes '':''] w)" E grp tests] by simp
qed simp

text \<open>The command succeeds exactly when no test of the registry failed.\<close>

lemma unittest_result:
  assumes "l_unittest_subcommand E list s = Some (Val (r, s'))"
    and "\<exists>vs. parse (ut_getopt E) ([] :: fd_arg field list) list = Some (Ok vs)"
  shows "r = Ok () \<longleftrightarrow> fst (run_suites E test_suites (0, say E [Bytes ''running in-process unit tests ...''] (world s))) = 0"
  using assms by (auto simp: l_unittest_subcommand_def with_args_def done_with_def cint_to_cmd_result_def Let_def split: prod.splits if_splits)

end
