(* ===== verification/Process_State.thy ===== *)
theory Process_State
  imports Semaphore Shm Signals Lua_Api
begin

text \<open>
  What every subcommand keeps of the state that the builtin holds in static
  variables: the registries of \<open>cmd_barrier.rs\<close>, \<open>cmd_mutex.rs\<close> and
  \<open>cmd_semaphore.rs\<close> have one entry for a handle, the registry of \<open>cmd_shm.rs\<close> has
  one entry for a variable and refers to opened databases only.
\<close>

section \<open>Handlers that keep a property\<close>

text \<open>\<open>leads P Q\<close>: a call in a state with \<open>P\<close> ends in one with \<open>Q\<close>.\<close>

definition leads :: "('w \<Rightarrow> bool) \<Rightarrow> ('w \<Rightarrow> bool) \<Rightarrow> 'w handler \<Rightarrow> bool" where
  "leads P Q h \<longleftrightarrow> (\<forall>list s r s'. P (world s) \<longrightarrow> h list s = Some (Val (r, s')) \<longrightarrow> Q (world s'))"

definition keeps :: "('w \<Rightarrow> bool) \<Rightarrow> 'w handler \<Rightarrow> bool" where
  "keeps P h \<longleftrightarrow> leads P P h"

lemma leadsI: "(\<And>list s r s'. P (world s) \<Longrightarrow> h list s = Some (Val (r, s')) \<Longrightarrow> Q (world s')) \<Longrightarrow> leads P Q h"
  by (auto simp: leads_def)

lemma leadsD: "leads P Q h \<Longrightarrow> P (world s) \<Longrightarrow> h list s = Some (Val (r, s')) \<Longrightarrow> Q (world s')"
  by (auto simp: leads_def)

lemma keepsI: "(\<And>list s r s'. P (world s) \<Longrightarrow> h list s = Some (Val (r, s')) \<Longrightarrow> P (world s')) \<Longrightarrow> keeps P h"
  by (auto simp: keeps_def intro: leadsI)

lemma keepsD: "keeps P h \<Longrightarrow> P (world s) \<Longrightarrow> h list s = Some (Val (r, s')) \<Longrightarrow> P (world s')"
  by (auto simp: keeps_def dest: leadsD)

lemma world_set_world [simp]: "world (set_world w s) = w"
  by (simp add: set_world_def)

lemma with_args_cases:
  assumes "with_args ops fs list s k = Some (Val (r, s'))"
  obtains (failed) e where "r = Err e" "s' = s" | (parsed) vs where "k vs = Some (Val (r, s'))"
  using assms by (auto simp: with_args_def split: option.splits result.splits)

text \<open>The usual form of a subcommand.\<close>

lemma leads_command:
  assumes "\<And>list s. h list s = (let s = cmd_enter (d s) s in with_args ops (fs s) list s (k s))"
    and "\<And>vs s r s'. P (world s) \<Longrightarrow> k s vs = Some (Val (r, s')) \<Longrightarrow> Q (world s')"
    and "\<And>w. P w \<Longrightarrow> Q w"
  shows "leads P Q h"
proof (rule leadsI)
  fix list s r s'
  assume P: "P (world s)" and h: "h list s = Some (Val (r, s'))"
  then have "with_args ops (fs (cmd_enter (d s) s)) list (cmd_enter (d s) s) (k (cmd_enter (d s) s)) = Some (Val (r, s'))"
    by (simp add: assms(1) Let_def)
  then show "Q (world s')"
    by (cases rule: with_args_cases) (use P assms(2)[of "cmd_enter (d s) s"] assms(3) in auto)
qed

lemma keeps_command:
  assumes "\<And>list s. h list s = (let s = cmd_enter (d s) s in with_args ops (fs s) list s (k s))"
    and "\<And>vs s r s'. P (world s) \<Longrightarrow> k s vs = Some (Val (r, s')) \<Longrightarrow> P (world s')"
  shows "keeps P h"
  unfolding keeps_def
  by (rule leads_command[where h = h and d = d and ops = ops and fs = fs and k = k]) (rule assms(1), erule (1) assms(2))

lemma lookup_in_values:
  assumes "lookup (t :: ('a::len word, 'v) int_lookup) q = Val (Some v)"
  shows "v \<in> set (lvals t)"
  using assms
  by (auto simp: lookup_def lookup_shortest_unique_prefix_def Let_def bindR_eq_Val idx_def split: if_splits)

lemma ok_or_Ok: "ok_or x e = Ok h \<longleftrightarrow> x = Some h"
  by (cases x) auto

lemma ok_or_Err: "ok_or x e = Err e' \<longleftrightarrow> x = None \<and> e' = e"
  by (cases x) auto

lemma leads_group:
  assumes n: "list_all nul_free (map fst tab)" and k: "\<forall>e\<in>set tab. leads P Q (snd e)"
    and PQ: "\<And>w. P w \<Longrightarrow> Q w"
  shows "leads P Q (subcommand_group ops d (\<lambda>q. bindR (int_lookup_new N tab) (\<lambda>t :: (64 word, 'w handler) int_lookup. lookup t q)))"
proof -
  have v: "\<exists>e\<in>set tab. h = snd e"
    if l: "bindR (int_lookup_new N tab) (\<lambda>t :: (64 word, 'w handler) int_lookup. lookup t q) = Val (Some h)" for q h
  proof -
    from l obtain t :: "(64 word, 'w handler) int_lookup" where
      t: "int_lookup_new N tab = Val t" "lookup t q = Val (Some h)" by (auto simp: bindR_eq_Val)
    from int_lookup_new_obtains[OF _ n t(1)] obtain es where "holds t es" "mset es = mset tab" by auto
    then have "set (lvals t) = snd ` set tab" by (auto simp: holds_def dest: mset_eq_setD)
    then show ?thesis using lookup_in_values[OF t(2)] by auto
  qed
  show ?thesis
  proof (rule leads_command)
    fix vs s r s'
    assume P: "P (world (s :: 'w shell))"
      and r: "(case caller_handler (\<lambda>q. bindR (int_lookup_new N tab) (\<lambda>t :: (64 word, 'w handler) int_lookup. lookup t q)) (fst (caller_args vs)) of
             Panic \<Rightarrow> Some Panic
           | Val (Err e) \<Rightarrow> Some (Val (Err e, s))
           | Val (Ok h) \<Rightarrow> h (snd (caller_args vs)) s) = Some (Val (r, s'))"
    then show "Q (world s')"
      using k v[of "fst (caller_args vs)"] PQ
      by (auto simp: caller_handler_def bindR_eq_Val ok_or_Ok ok_or_Err split: run.splits result.splits option.splits
          dest: leadsD)
  qed (simp_all add: subcommand_group_def PQ)
qed

lemma keeps_group:
  assumes "list_all nul_free (map fst tab)" "\<forall>e\<in>set tab. keeps P (snd e)"
  shows "keeps P (subcommand_group ops d (\<lambda>q. bindR (int_lookup_new N tab) (\<lambda>t :: (64 word, 'w handler) int_lookup. lookup t q)))"
  using leads_group[OF assms(1), of P P ops d N] assms(2) by (simp add: keeps_def)

section \<open>Barriers, mutexes and semaphores\<close>

definition registry_ok :: "registry \<Rightarrow> bool" where
  "registry_ok r \<longleftrightarrow> distinct (map fst (reg_map r))"

definition registries_ok :: "'m proc \<Rightarrow> bool" where
  "registries_ok p \<longleftrightarrow> registry_ok (barriers p) \<and> registry_ok (mutexes p) \<and> registry_ok (semaphores p)"

lemma registry_store_ok: "registry_ok r \<Longrightarrow> registry_ok (snd (registry_store p n r))"
  by (simp add: registry_ok_def registry_store_def Let_def distinct_update)

lemma registry_take_ok: "registry_ok r \<Longrightarrow> registry_ok (snd (registry_take i r))"
  by (simp add: registry_ok_def registry_take_def distinct_delete)

lemma registries_set_sys [simp]: "registries_ok (world (set_sys m s)) = registries_ok (world s)"
  by (simp add: registries_ok_def set_sys_def)

lemma registries_on_sys: "on_sys f s = (x, s') \<Longrightarrow> registries_ok (world s') = registries_ok (world s)"
  by (auto simp: on_sys_def registries_ok_def split: prod.splits)

lemma registries_set_handle_var:
  "set_handle_var bv v i s = Some (Val (r, s')) \<Longrightarrow> registries_ok (world s') = registries_ok (world s)"
  by (auto simp: set_handle_var_def bindR_eq_Val)

lemma registries_stored:
  "store_barrier p n s = (i, s') \<Longrightarrow> registries_ok (world s) \<Longrightarrow> registries_ok (world s')"
  "store_mutex p n s = (i, s') \<Longrightarrow> registries_ok (world s) \<Longrightarrow> registries_ok (world s')"
  "store_semaphore p n s = (i, s') \<Longrightarrow> registries_ok (world s) \<Longrightarrow> registries_ok (world s')"
  using registry_store_ok[of "barriers (world s)" p n] registry_store_ok[of "mutexes (world s)" p n]
    registry_store_ok[of "semaphores (world s)" p n]
  by (auto simp: store_barrier_def store_mutex_def store_semaphore_def registries_ok_def split: prod.splits)

lemma registries_taken:
  "take_barrier i s = (e, s') \<Longrightarrow> registries_ok (world s) \<Longrightarrow> registries_ok (world s')"
  "get_mutex_handle i s = (e', s') \<Longrightarrow> registries_ok (world s) \<Longrightarrow> registries_ok (world s')"
  "take_semaphore i s = (e, s') \<Longrightarrow> registries_ok (world s) \<Longrightarrow> registries_ok (world s')"
  using registry_take_ok[of "barriers (world s)" i] registry_take_ok[of "mutexes (world s)" i]
    registry_take_ok[of "semaphores (world s)" i]
  by (auto simp: take_barrier_def get_mutex_handle_def take_semaphore_def registries_ok_def split: prod.splits)

lemmas registries_steps = registries_stored registries_taken registries_on_sys registries_set_handle_var

lemmas registries_splits = prod.splits option.splits result.splits if_splits

lemmas sync_commands =
  barrier_create_subcommand_def barrier_open_subcommand_def barrier_wait_subcommand_def barrier_close_subcommand_def barrier_reset_subcommand_def barrier_destroy_subcommand_def
  mutex_create_subcommand_def mutex_open_subcommand_def mutex_lock_subcommand_def mutex_unlock_subcommand_def mutex_close_subcommand_def mutex_destroy_subcommand_def
  semaphore_create_subcommand_def semaphore_open_subcommand_def semaphore_wait_subcommand_def semaphore_post_subcommand_def semaphore_close_subcommand_def semaphore_destroy_subcommand_def

lemma sync_commands_keep:
  "keeps registries_ok (barrier_create_subcommand B)" "keeps registries_ok (barrier_open_subcommand B)"
  "keeps registries_ok (barrier_wait_subcommand B)" "keeps registries_ok (barrier_close_subcommand B)"
  "keeps registries_ok (barrier_reset_subcommand B)" "keeps registries_ok (barrier_destroy_subcommand B)"
  "keeps registries_ok (mutex_create_subcommand M)" "keeps registries_ok (mutex_open_subcommand M)"
  "keeps registries_ok (mutex_lock_subcommand M)" "keeps registries_ok (mutex_unlock_subcommand M)"
  "keeps registries_ok (mutex_close_subcommand M)" "keeps registries_ok (mutex_destroy_subcommand M)"
  "keeps registries_ok (semaphore_create_subcommand S)" "keeps registries_ok (semaphore_open_subcommand S)"
  "keeps registries_ok (semaphore_wait_subcommand S)" "keeps registries_ok (semaphore_post_subcommand S)"
  "keeps registries_ok (semaphore_close_subcommand S)" "keeps registries_ok (semaphore_destroy_subcommand S)"
  by (rule keeps_command, rule sync_commands,
      (auto simp: Let_def done_with_def split: registries_splits dest!: registries_steps)[1])+

lemma barrier_keeps: "keeps registries_ok (barrier_subcommand E)"
  using keeps_group[of "barrier_subcommands E" registries_ok]
  by (simp add: barrier_subcommand_def barrier_table_def barrier_subcommands_def sync_commands_keep)

lemma mutex_keeps: "keeps registries_ok (mutex_subcommand E)"
  using keeps_group[of "mutex_subcommands E" registries_ok]
  by (simp add: mutex_subcommand_def mutex_table_def mutex_subcommands_def sync_commands_keep)

lemma semaphore_keeps: "keeps registries_ok (semaphore_subcommand E)"
  using keeps_group[of "semaphore_subcommands E" registries_ok]
  by (simp add: semaphore_subcommand_def semaphore_table_def semaphore_subcommands_def sync_commands_keep)

section \<open>Shared variables\<close>

definition shm_ok :: "'w shm_world \<Rightarrow> bool" where
  "shm_ok m \<longleftrightarrow> distinct (map fst (shm_registry m)) \<and> (\<forall>e\<in>set (shm_registry m). snd e < length (shm_dbs m))"

definition shm_has :: "nat \<Rightarrow> 'w shm_world \<Rightarrow> bool" where
  "shm_has i m \<longleftrightarrow> shm_ok m \<and> i < length (shm_dbs m)"

text \<open>What a step does to worlds with \<open>P\<close>: a failing one keeps \<open>shm_ok\<close>, a successful
  one gives \<open>Q\<close> of its result.\<close>

definition step_keeps :: "('w shm_world \<Rightarrow> bool) \<Rightarrow> ('w, 'a) shm_step \<Rightarrow> ('a \<Rightarrow> 'w shm_world \<Rightarrow> bool) \<Rightarrow> bool" where
  "step_keeps P m Q \<longleftrightarrow> (\<forall>s r s'. P (world s) \<and> m s = Some (Val (r, s')) \<longrightarrow>
     (case r of Ok x \<Rightarrow> Q x (world s') | Err _ \<Rightarrow> shm_ok (world s')))"

lemma step_keepsI:
  assumes "\<And>s x s'. P (world s) \<Longrightarrow> m s = Some (Val (Ok x, s')) \<Longrightarrow> Q x (world s')"
    and "\<And>s e s'. P (world s) \<Longrightarrow> m s = Some (Val (Err e, s')) \<Longrightarrow> shm_ok (world s')"
  shows "step_keeps P m Q"
  unfolding step_keeps_def
proof (intro allI impI, elim conjE)
  fix s r s' assume "P (world s)" "m s = Some (Val (r, s'))"
  then show "case r of Ok x \<Rightarrow> Q x (world s') | Err _ \<Rightarrow> shm_ok (world s')"
    using assms by (cases r) auto
qed

lemma step_keepsD:
  assumes "step_keeps P m Q" "P (world s)"
  shows "m s = Some (Val (Ok x, s')) \<Longrightarrow> Q x (world s')" "m s = Some (Val (Err e, s')) \<Longrightarrow> shm_ok (world s')"
  using assms unfolding step_keeps_def by fastforce+

lemma step_keeps_andthen [step_intros]:
  assumes m: "step_keeps P m Q" and f: "\<And>x. step_keeps (Q x) (f x) R"
  shows "step_keeps P (andthen m f) R"
proof (rule step_keepsI)
  fix s x s' assume P: "P (world s)" and e: "andthen m f s = Some (Val (Ok x, s'))"
  from e obtain y s1 where "m s = Some (Val (Ok y, s1))" "f y s1 = Some (Val (Ok x, s'))"
    by (auto simp: andthen_def split: option.splits run.splits prod.splits result.splits)
  then show "R x (world s')" using step_keepsD[OF m P] step_keepsD[OF f] by blast
next
  fix s e s' assume P: "P (world s)" and r: "andthen m f s = Some (Val (Err e, s'))"
  then consider "m s = Some (Val (Err e, s'))" | y s1 where "m s = Some (Val (Ok y, s1))" "f y s1 = Some (Val (Err e, s'))"
    by (auto simp: andthen_def split: option.splits run.splits prod.splits result.splits)
  then show "shm_ok (world s')" using step_keepsD[OF m P] step_keepsD[OF f] by cases blast+
qed

lemma step_keeps_yield:
  "(\<And>w. P w \<Longrightarrow> case r of Ok x \<Rightarrow> Q x w | Err _ \<Rightarrow> shm_ok w) \<Longrightarrow> step_keeps P (yield_result r) Q"
  by (auto simp: step_keeps_def yield_result_def)

lemma step_keeps_on_world:
  "(\<And>w r w'. P w \<Longrightarrow> f w = Some (r, w') \<Longrightarrow> Q r w') \<Longrightarrow> step_keeps P (on_world f) Q"
  by (auto simp: step_keeps_def on_world_def)

lemma step_keeps_or_fail:
  assumes "\<And>w r w'. P w \<Longrightarrow> f w = Some (r, w') \<Longrightarrow> case r of Ok x \<Rightarrow> Q x w' | Err _ \<Rightarrow> shm_ok w'"
  shows "step_keeps P (or_fail f) Q"
  unfolding or_fail_def
  by (rule step_keeps_andthen[where Q = "\<lambda>r w. case r of Ok x \<Rightarrow> Q x w | Err _ \<Rightarrow> shm_ok w"],
      rule step_keeps_on_world, rule assms, assumption+, rule step_keeps_yield)
    (auto split: result.splits)

lemma step_keeps_change: "(\<And>w. P w \<Longrightarrow> Q () (f w)) \<Longrightarrow> step_keeps P (change_world f) Q"
  by (auto simp: step_keeps_def change_world_def)

lemma step_keeps_each:
  assumes "\<And>v. step_keeps I (f v) (\<lambda>_. I)"
  shows "step_keeps I (for_each_var f vs) (\<lambda>_. I)"
  by (induction vs) (auto intro!: step_keeps_yield step_keeps_andthen[where Q = "\<lambda>_. I"] assms)

lemma step_keeps_command:
  assumes "step_keeps P m Q" "\<And>x w. Q x w \<Longrightarrow> shm_ok w" "P (world s)" "m s = Some (Val (r, s'))"
  shows "shm_ok (world s')"
  using assms(2) step_keepsD[OF assms(1,3)] assms(4) by (cases r) auto

subsection \<open>Operations\<close>

lemma use_db_same:
  "use_db f i m = Some (r, m') \<Longrightarrow> shm_registry m' = shm_registry m \<and> length (shm_dbs m') = length (shm_dbs m)"
  by (auto simp: use_db_def)

lemma use_db_keeps: "use_db f i m = Some (r, m') \<Longrightarrow> shm_has j m' = shm_has j m \<and> shm_ok m' = shm_ok m"
  using use_db_same[of f i m r m'] by (simp add: shm_has_def shm_ok_def)

lemma shm_on_os [simp]: "shm_ok (on_os f m) = shm_ok m" "shm_has j (on_os f m) = shm_has j m"
  "shm_ok (m\<lparr>shm_sys := w\<rparr>) = shm_ok m" "shm_has j (m\<lparr>shm_sys := w\<rparr>) = shm_has j m"
  by (simp_all add: on_os_def shm_ok_def shm_has_def)

lemma open_new_keeps:
  "shm_ok m \<Longrightarrow> open_new os loc m = Some (r, m') \<Longrightarrow> case r of Ok i \<Rightarrow> shm_has i m' | Err _ \<Rightarrow> shm_ok m'"
  by (force simp: open_new_def shm_has_def shm_ok_def split: option.splits result.splits prod.splits)

lemma find_bound_has: "shm_ok m \<Longrightarrow> find_bound loc m = Some i \<Longrightarrow> shm_has i m"
  by (auto simp: find_bound_def find_Some_iff shm_has_def shm_ok_def)

lemma get_db_loc_keeps:
  "shm_ok m \<Longrightarrow> get_db_loc os loc m = Some (r, m') \<Longrightarrow> case r of Ok i \<Rightarrow> shm_has i m' | Err _ \<Rightarrow> shm_ok m'"
  by (auto simp: get_db_loc_def ok_or_Ok ok_or_Err find_bound_has split: db_path.splits result.splits
      dest: open_new_keeps)

lemma forget_var_keeps: "shm_ok m \<Longrightarrow> shm_ok (forget_var E v m)"
  by (auto simp: forget_var_def shm_ok_def distinct_delete dest: set_keys_delete)

lemma unbind_registry_keeps: "shm_ok m \<Longrightarrow> shm_ok (unbind_registry_vars E key m)"
proof -
  have "shm_ok m \<Longrightarrow> shm_ok (fold (forget_var E) vs m)" for vs m
    by (induction vs arbitrary: m) (auto simp: forget_var_keeps)
  then show "shm_ok m \<Longrightarrow> shm_ok (unbind_registry_vars E key m)" by (simp add: unbind_registry_vars_def)
qed

lemma set_update_cases: "x \<in> set (AList.update k v al) \<Longrightarrow> x = (k, v) \<or> x \<in> set al"
  by (induction al) (auto split: if_splits)

lemma bound_keeps: "shm_has db m \<Longrightarrow> shm_has db (m\<lparr>shm_registry := AList.update v db (shm_registry m)\<rparr>)"
  by (auto simp: shm_has_def shm_ok_def distinct_update dest!: set_update_cases)

subsection \<open>Subcommands\<close>

lemma or_fail_use_db:
  "or_fail (use_db f j) s = Some (Val (r, s')) \<Longrightarrow> shm_has i (world s') = shm_has i (world s) \<and> shm_ok (world s') = shm_ok (world s)"
  by (auto simp: or_fail_def on_world_def andthen_def yield_result_def dest!: use_db_keeps[where j = i] split: option.splits)

lemma use_db_step: "step_keeps (shm_has i) (or_fail (use_db f j)) (\<lambda>_. shm_has i)"
  by (auto simp: step_keeps_def shm_has_def dest!: or_fail_use_db[where i = i] split: result.splits)

lemma shm_has_ok: "shm_has i w \<Longrightarrow> shm_ok w"
  by (simp add: shm_has_def)

lemma bind_var_has:
  assumes p: "shm_has db (world s)" and e: "bind_var E db assoc preserve v s = Some (Val (r, s'))"
  shows "shm_has db (world s')"
proof -
  obtain ok w where i: "init_dynamic E v assoc (shm_sys (world s)) = (ok, w)" by force
  define s1 where "s1 = s\<lparr>world := (world s)\<lparr>shm_registry := AList.update v db (shm_registry (world s)), shm_sys := w\<rparr>\<rparr>"
  have s1: "shm_has db (world s1)" using bound_keeps[OF p, of v] by (simp add: s1_def)
  show ?thesis
  proof (cases "ok \<and> preserve \<and> capture_current_value E v (shm_sys (world s)) \<noteq> None")
    case True
    then obtain data where d: "capture_current_value E v (shm_sys (world s)) = Some data" by blast
    have "or_fail (use_db (db_with_write (h_os E) (put_entry v data)) db) s1 = Some (Val (r, s'))"
      using e True by (simp add: bind_var_def Let_def i d s1_def)
    then show ?thesis using or_fail_use_db[where i = db] s1 by blast
  next
    case False
    then have "s' = s1" using e by (auto simp: bind_var_def Let_def i s1_def yield_result_def split: bool.splits if_splits option.splits)
    then show ?thesis using s1 by simp
  qed
qed

lemma bind_var_step: "step_keeps (shm_has db) (bind_var E db assoc preserve v) (\<lambda>_. shm_has db)"
  by (rule step_keepsI) (blast intro: shm_has_ok dest: bind_var_has)+

lemma bind_open_step: "step_keeps shm_ok (bind_open E loc) shm_has"
  unfolding bind_open_def
  by (rule step_keeps_andthen[where Q = "\<lambda>r w. case r of Ok i \<Rightarrow> shm_has i w | Err _ \<Rightarrow> shm_ok w"],
      rule step_keeps_on_world, erule (1) get_db_loc_keeps)
    (auto split: result.splits intro!: step_keeps_yield step_keeps_on_world open_new_keeps
      step_keeps_andthen[where Q = "\<lambda>r w. case r of Ok i \<Rightarrow> shm_has i w | Err _ \<Rightarrow> shm_ok w"])

lemma sync_var_step: "step_keeps (shm_has db) (sync_var E db v) (\<lambda>_. shm_has db)"
  by (auto simp: step_keeps_def sync_var_def shm_has_def split: run.splits result.splits
      dest!: or_fail_use_db[where i = db])

lemma unbind_var_step: "step_keeps shm_ok (unbind_var E v) (\<lambda>_. shm_ok)"
  by (auto simp: step_keeps_def unbind_var_def snapshot_var_def split: option.splits
      intro!: forget_var_keeps dest: use_db_keeps)

lemma drop_var_step: "step_keeps shm_ok (drop_var E v) (\<lambda>_. shm_ok)"
proof -
  have "shm_ok (world s')" if "shm_ok (world s)" "drop_var E v s = Some (Val (r, s'))" for s r s'
    using that
    by (auto simp: drop_var_def andthen_def change_world_def forget_var_keeps
        split: option.splits run.splits prod.splits result.splits dest!: or_fail_use_db)
  then show ?thesis by (auto simp: step_keeps_def split: result.splits)
qed

lemmas shm_steps = bind_open_step bind_var_step use_db_step sync_var_step unbind_var_step drop_var_step
  step_keeps_change step_keeps_each step_keeps_yield

lemma get_db_step: "step_keeps shm_ok (or_fail (get_db_loc os loc)) shm_has"
  by (rule step_keeps_or_fail) (rule get_db_loc_keeps)

lemma resolve_step: "step_keeps shm_ok (yield_result (resolve_dbloc a)) (\<lambda>_. shm_ok)"
  by (rule step_keeps_yield) (simp split: result.splits)

lemma keeps_shm_command:
  assumes "\<And>list s. h list s = (let s = cmd_enter (d s) s in with_args ops (fs s) list s (\<lambda>vs. m vs s))"
    and "\<And>vs. step_keeps shm_ok (m vs) (\<lambda>_. shm_ok)"
  shows "keeps shm_ok h"
proof (rule keeps_command[OF assms(1)])
  fix vs s r s' assume "shm_ok (world s)" "m vs s = Some (Val (r, s'))"
  then show "shm_ok (world s')" using step_keepsD[OF assms(2)] by (cases r) blast+
qed

lemma step_keeps_if:
  "(c \<Longrightarrow> step_keeps P m Q) \<Longrightarrow> (\<not> c \<Longrightarrow> step_keeps P m' Q) \<Longrightarrow> step_keeps P (if c then m else m') Q"
  "(c \<Longrightarrow> step_keeps P m Q) \<Longrightarrow> (\<not> c \<Longrightarrow> step_keeps P m' Q) \<Longrightarrow> step_keeps P (\<lambda>s. if c then m s else m' s) Q"
  by (cases c; simp)+

lemma step_keeps_post: "step_keeps P m Q' \<Longrightarrow> (\<And>x w. Q' x w \<Longrightarrow> Q x w) \<Longrightarrow> step_keeps P m Q"
  by (auto simp: step_keeps_def split: result.splits)

lemma step_keeps_error: "step_keeps shm_ok (yield_result (Err e)) Q" "step_keeps (shm_has i) (yield_result (Err e)) Q"
  "step_keeps shm_ok (\<lambda>s. Some (Val (Err e, s))) Q"
  by (auto simp: step_keeps_def yield_result_def shm_has_def)

lemma change_ok_step: "(\<And>w. shm_ok w \<Longrightarrow> shm_ok (f w)) \<Longrightarrow> step_keeps shm_ok (change_world f) (\<lambda>_. shm_ok)"
  by (rule step_keeps_change)

lemma change_has_step: "(\<And>w. shm_has i w \<Longrightarrow> shm_ok (f w)) \<Longrightarrow> step_keeps (shm_has i) (change_world f) (\<lambda>_. shm_ok)"
  by (rule step_keeps_change)

lemma use_db_ok_step: "step_keeps (shm_has i) (or_fail (use_db f j)) (\<lambda>_. shm_ok)"
  by (rule step_keeps_post[OF use_db_step]) (rule shm_has_ok)

lemmas shm_intros = step_keeps_andthen[OF resolve_step] step_keeps_andthen[OF bind_open_step]
  step_keeps_andthen[OF get_db_step] step_keeps_andthen[OF use_db_step]
  step_keeps_if step_keeps_error step_keeps_post[OF step_keeps_each[OF bind_var_step] shm_has_ok]
  step_keeps_post[OF step_keeps_each[OF sync_var_step] shm_has_ok] step_keeps_each[OF unbind_var_step]
  step_keeps_each[OF drop_var_step] use_db_ok_step change_ok_step change_has_step

lemmas shm_commands = shm_bind_subcommand_def shm_sync_subcommand_def shm_rm_subcommand_def
  shm_unbind_subcommand_def shm_drop_subcommand_def shm_clear_subcommand_def shm_info_subcommand_def shm_ls_subcommand_def

lemma shm_commands_keep:
  "keeps shm_ok (shm_bind_subcommand E)" "keeps shm_ok (shm_sync_subcommand E)" "keeps shm_ok (shm_rm_subcommand E)"
  "keeps shm_ok (shm_unbind_subcommand E)" "keeps shm_ok (shm_drop_subcommand E)" "keeps shm_ok (shm_clear_subcommand E)"
  "keeps shm_ok (shm_info_subcommand E)" "keeps shm_ok (shm_ls_subcommand E)"
  by (rule keeps_shm_command, rule shm_commands, (unfold Let_def)?, (intro shm_intros; simp add: unbind_registry_keeps shm_has_ok)[1])+

lemma shm_keeps: "keeps shm_ok (shm_subcommand E)"
  using keeps_group[of "shm_subcommands E" shm_ok]
  by (simp add: shm_subcommand_def shm_table_def shm_subcommands_def shm_commands_keep)

section \<open>Dynamic variables\<close>

lemma shm_getter_keeps: "shm_ok m \<Longrightarrow> shm_getter E sync v m = Some m' \<Longrightarrow> shm_ok m'"
  by (auto simp: shm_getter_def split: option.splits prod.splits result.splits dest: use_db_keeps)

lemma shm_setter_keeps: "shm_ok m \<Longrightarrow> shm_setter E v assign change m = Some m' \<Longrightarrow> shm_ok m'"
  by (auto simp: shm_setter_def split: option.splits dest!: use_db_keeps)

lemma dynamic_variables_keep:
  assumes "shm_ok m"
  shows "shm_array_getter E v m = Some m' \<Longrightarrow> shm_ok m'" "shm_assoc_getter E v m = Some m' \<Longrightarrow> shm_ok m'"
    "shm_array_setter E v x i m = Some m' \<Longrightarrow> shm_ok m'" "shm_assoc_setter E v x k m = Some m' \<Longrightarrow> shm_ok m'"
  using assms
  by (auto simp: shm_array_getter_def shm_assoc_getter_def shm_array_setter_def shm_assoc_setter_def
      dest: shm_getter_keeps shm_setter_keeps)

section \<open>Subcommands that run other commands\<close>

text \<open>The functions of the environment keep \<open>P\<close>.\<close>

definition sig_env_keeps :: "('w \<Rightarrow> bool) \<Rightarrow> ('w, 'g) sig_env \<Rightarrow> bool" where
  "sig_env_keeps P E \<longleftrightarrow>
     (\<forall>w. P w \<longrightarrow> (\<forall>h st. P (snd (sigprocmask E h st w))) \<and> P (snd (current_mask E w)) \<and> P (run_traps E w) \<and>
        (\<forall>c. P (snd (run_command E c w))) \<and> (\<forall>t. P (sg_print E t w)) \<and> (\<forall>v. P (snd (sg_prepare E v w))) \<and>
        (\<forall>v i x. P (sg_put E v i x w)))"

lemma sig_env_keepsD:
  assumes "sig_env_keeps P E" "P w"
  shows "sigprocmask E h st w = (u, w') \<Longrightarrow> P w'" "current_mask E w = (m, w') \<Longrightarrow> P w'" "P (run_traps E w)"
    "run_command E c w = (rc, w') \<Longrightarrow> P w'" "P (sg_print E t w)" "sg_prepare E v w = (ok, w') \<Longrightarrow> P w'" "P (sg_put E v i x w)"
  using assms unfolding sig_env_keeps_def by (metis snd_conv)+

lemma fold_keeps: "P w \<Longrightarrow> (\<And>x w. P w \<Longrightarrow> P (f x w)) \<Longrightarrow> P (fold f xs w)"
  by (induction xs arbitrary: w) auto

definition fn_keeps :: "('w \<Rightarrow> bool) \<Rightarrow> ('w \<Rightarrow> 'a \<times> 'w) \<Rightarrow> bool" where
  "fn_keeps P f \<longleftrightarrow> (\<forall>w. P w \<longrightarrow> P (snd (f w)))"

lemma fn_keepsI: "(\<And>w. P w \<Longrightarrow> P (snd (f w))) \<Longrightarrow> fn_keeps P f"
  by (simp add: fn_keeps_def)

lemma fn_keepsD: "fn_keeps P f \<Longrightarrow> P w \<Longrightarrow> P (snd (f w))"
  by (simp add: fn_keeps_def)

lemma keeps_on_shell_ok:
  assumes f: "fn_keeps P f" and s: "P (world s)" and e: "on_shell_ok f s = Some (Val (r, s'))"
  shows "P (world s')"
proof -
  have "world s' = snd (f (world s))" using e by (auto simp: on_shell_ok_def on_shell_def split: prod.splits)
  then show ?thesis using fn_keepsD[OF f s] by simp
qed

lemma sig_list_emit_keeps:
  assumes E: "sig_env_keeps P E"
  shows "fn_keeps P (sig_list_emit E v)"
proof (rule fn_keepsI)
  fix w assume w: "P w"
  show "P (snd (sig_list_emit E v w))"
  proof -
  obtain m w1 where m: "current_mask E w = (m, w1)" by force
  note w1 = sig_env_keepsD(2)[OF E w m]
  have l: "P w \<Longrightarrow> P (fold (\<lambda>n. sg_print E (n @ [CHR 0x0A])) ns w)" for ns w
    by (erule fold_keeps) (rule sig_env_keepsD(5)[OF E])
  have a: "P w \<Longrightarrow> P (put_names E x ns w)" for x ns w
    unfolding put_names_def by (erule fold_keeps) (simp add: sig_env_keepsD(7)[OF E] split: prod.splits)
  show ?thesis
  proof (cases m)
    case (Ok msk)
    show ?thesis
    proof (cases v)
      case (Some x)
      obtain ok w2 where p: "sg_prepare E x w1 = (ok, w2)" by force
      show ?thesis using a[OF sig_env_keepsD(6)[OF E w1 p]] sig_env_keepsD(6)[OF E w1 p]
        by (simp add: sig_list_emit_def m Ok Some p split: bool.splits)
    qed (simp add: sig_list_emit_def m Ok l w1)
  qed (simp add: sig_list_emit_def m w1)
  qed
qed

lemma sig_modify_block_keeps:
  assumes E: "sig_env_keeps P E"
  shows "fn_keeps P (sig_modify_block E sigs b)"
proof (rule fn_keepsI)
  fix w assume w: "P w"
  show "P (snd (sig_modify_block E sigs b w))"
  proof (cases "sigspecs_add E sigs {}")
  case (Some st)
  obtain r w1 where r: "sigprocmask E (if b then Sig_block else Sig_unblock) st w = (r, w1)" by force
  show ?thesis using sig_env_keepsD(1)[OF E w r] w by (simp add: sig_modify_block_def Some r split: result.splits)
  qed (simp add: sig_modify_block_def w)
qed

lemma run_with_unblocked_keeps:
  assumes E: "sig_env_keeps P E"
  shows "fn_keeps P (l_run_with_unblocked E cmd st)"
proof (rule fn_keepsI)
  fix w assume w: "P w"
  show "P (snd (l_run_with_unblocked E cmd st w))"
  proof -
  have restored: "P w \<Longrightarrow> P (restore_mask E old w)" for old w
    using sig_env_keepsD(1)[OF E, of w] unfolding restore_mask_def by (metis prod.collapse)
  obtain m w1 where m: "current_mask E w = (m, w1)" by force
  note w1 = sig_env_keepsD(2)[OF E w m]
  show ?thesis
  proof (cases m)
    case (Ok old)
    let ?u = "{i \<in> st. 1 \<le> i \<and> i < nsig E}"
    obtain r w2 where r: "sigprocmask E Sig_setmask (old - ?u) w1 = (r, w2)" by force
    note w2 = sig_env_keepsD(1)[OF E w1 r]
    obtain rc w3 where c: "run_command E cmd (run_traps E w2) = (rc, w3)" by force
    note w3 = sig_env_keepsD(4)[OF E sig_env_keepsD(3)[OF E w2] c]
    show ?thesis
      using restored[OF w2] restored[OF w3] restored[OF sig_env_keepsD(3)[OF E w2]]
      by (simp add: l_run_with_unblocked_def m Ok r c split: result.splits option.splits)
  qed (simp add: l_run_with_unblocked_def m w1)
  qed
qed

lemma sig_keeps:
  assumes E: "sig_env_keeps P E"
  shows "keeps P (sig_subcommand E)"
proof -
  note k = keeps_on_shell_ok[OF sig_list_emit_keeps[OF E]] keeps_on_shell_ok[OF sig_modify_block_keeps[OF E]]
    keeps_on_shell_ok[OF run_with_unblocked_keeps[OF E]]
  have "keeps P (sig_list E)" by (rule keeps_command, rule sig_list_def, erule (1) k)
  moreover have "keeps P (sig_block E)" by (rule keeps_command, rule sig_block_def, erule (1) k)
  moreover have "keeps P (sig_unblock E)" by (rule keeps_command, rule sig_unblock_def, erule (1) k)
  moreover have "keeps P (sig_run E)"
  proof (rule keeps_command, rule sig_run_def)
    fix vs s r s'
    assume "P (world s)" and "(case split_sigs_and_cmd E (rest_words (arg vs 0)) {} False of
        Err e \<Rightarrow> done_with (Err e) s
      | Ok (st, cmd) \<Rightarrow> on_shell_ok (l_run_with_unblocked E cmd st) s) = Some (Val (r, s'))"
    then show "P (world s')"
      by (cases "split_sigs_and_cmd E (rest_words (arg vs 0)) {} False") (auto simp: done_with_def elim: k(3))
  qed
  ultimately show ?thesis
    using keeps_group[of "sig_subcommands E" P]
    by (simp add: sig_subcommand_def sig_table_def sig_subcommands_def)
qed

definition lua_env_keeps :: "('w \<Rightarrow> bool) \<Rightarrow> ('w, 'g, 'f) lua_env \<Rightarrow> bool" where
  "lua_env_keeps P E \<longleftrightarrow>
     (\<forall>v x. fn_keeps P (lu_bind E v x)) \<and> (\<forall>v. fn_keeps P (lu_unbind E v)) \<and>
     (\<forall>v. fn_keeps P (lu_to_array E v) \<and> fn_keeps P (lu_new_array E v) \<and> fn_keeps P (lu_new_assoc E v)) \<and>
     (\<forall>v w. P w \<longrightarrow> P (lu_arr_flush E v w) \<and> P (lu_assoc_flush E v w)) \<and>
     (\<forall>v i x w. P w \<longrightarrow> P (lu_arr_put E v i x w)) \<and> (\<forall>v k x w. P w \<longrightarrow> P (lu_assoc_put E v k x w)) \<and>
     (\<forall>c. fn_keeps P (lu_execute E c) \<and> fn_keeps P (lu_expand E c) \<and> fn_keeps P (lu_expand_words E c))"

text \<open>An interpreter changes the world by the calls of the script only.\<close>

definition interpreter_keeps :: "('w \<Rightarrow> bool) \<Rightarrow> ('w, 'f) lua_interpreter \<Rightarrow> bool" where
  "interpreter_keeps P interp \<longleftrightarrow>
     (\<forall>module a script w r w'. (\<forall>c. fn_keeps P (module c)) \<longrightarrow> P w \<longrightarrow> interp module a script w = Some (r, w') \<longrightarrow> P w')"

lemma fn_keepsD2: "fn_keeps P f \<Longrightarrow> P w \<Longrightarrow> f w = (x, w') \<Longrightarrow> P w'"
  using fn_keepsD by fastforce

lemma put_pairs_keeps: "lua_env_keeps P E \<Longrightarrow> P w \<Longrightarrow> P (snd (put_pairs E name base pairs w))"
  by (induction E name base pairs w rule: put_pairs.induct) (auto simp: lua_env_keeps_def split: result.splits)

lemma put_assoc_pairs_keeps: "lua_env_keeps P E \<Longrightarrow> P w \<Longrightarrow> P (snd (put_assoc_pairs E name pairs w))"
  by (induction E name pairs w rule: put_assoc_pairs.induct) (auto simp: lua_env_keeps_def split: result.splits)

lemma set_array_keeps:
  assumes E: "lua_env_keeps P E" and w: "P w"
  shows "P (snd (set_array_from_table E name table base w))"
proof -
  obtain ok w1 where o: "(case lu_find E name w of Some (Indexed _) \<Rightarrow> (True, w) | Some _ \<Rightarrow> lu_to_array E name w
      | None \<Rightarrow> lu_new_array E name w) = (ok, w1)" by force
  have "fn_keeps P (lu_to_array E name)" "fn_keeps P (lu_new_array E name)" using E by (auto simp: lua_env_keeps_def)
  then have w1: "P w1" using o w fn_keepsD2 by (fastforce split: option.splits bash_value.splits)
  then have "P (lu_arr_flush E name w1)" using E by (simp add: lua_env_keeps_def)
  then show ?thesis using w1 put_pairs_keeps[OF E] by (simp add: set_array_from_table_def o split: bool.splits)
qed

lemma set_assoc_keeps:
  assumes E: "lua_env_keeps P E" and w: "P w"
  shows "P (snd (set_assoc_from_table E name table w))"
proof -
  obtain ok w1 where o: "lu_new_assoc E name w = (ok, w1)" by force
  have "fn_keeps P (lu_new_assoc E name)" using E by (simp add: lua_env_keeps_def)
  then have "P w1" using o w fn_keepsD2 by fastforce
  moreover have "P w \<Longrightarrow> P (snd (put_assoc_pairs E name table (lu_assoc_flush E name w)))" for w
    using E put_assoc_pairs_keeps[OF E] by (simp add: lua_env_keeps_def)
  ultimately show ?thesis
    using w by (simp add: set_assoc_from_table_def o split: option.splits bash_value.splits bool.splits)
qed

lemma set_bash_keeps:
  assumes E: "lua_env_keeps P E" and w: "P w"
  shows "P (snd (set_bash_from_lua E name val base w))"
proof -
  have "P (snd (lu_bind E v x w))" for v x using E w by (simp add: lua_env_keeps_def fn_keepsD)
  then have b: "P (snd (case lu_bind E v x w of (b, w) \<Rightarrow> (Ok (Lua_bool b), w)))" for v x
    by (simp add: case_prod_beta)
  show ?thesis
    by (cases val; simp add: set_bash_from_lua_def Let_def w b set_array_keeps[OF E w] set_assoc_keeps[OF E w]
        split: result.splits)
qed

lemma bash_module_keeps:
  assumes E: "lua_env_keeps P E"
  shows "fn_keeps P (bash_module E c)"
proof (rule fn_keepsI)
  fix w assume w: "P w"
  have k: "fn_keeps P (lu_unbind E v)" "fn_keeps P (lu_execute E v)" "fn_keeps P (lu_expand E v)" "fn_keeps P (lu_expand_words E v)" for v
    using E by (simp_all add: lua_env_keeps_def)
  have "P (snd (l_check_unbind_variable E v w))" for v
    using w fn_keepsD[OF k(1) w] by (simp add: l_check_unbind_variable_def)
  then show "P (snd (bash_module E c w))"
    using w fn_keepsD[OF k(2) w] fn_keepsD[OF k(3) w] fn_keepsD[OF k(4) w]
    by (cases c) (simp_all add: set_bash_keeps[OF E w] get_bash_from_lua_def lua_unset_def lua_eval_def lua_expand_def
        lua_expand_list_def case_prod_beta Let_def split: result.splits)
qed

lemma lua_keeps:
  assumes E: "lua_env_keeps P E" and I: "interpreter_keeps P interp"
  shows "keeps P (l_lua_subcommand E interp)"
proof (rule keeps_command, rule l_lua_subcommand_def)
  fix vs s r s'
  assume s: "P (world (s :: 'a shell))" and
    e: "(case words_collect (rest_words (arg vs 0)) of
        [] \<Rightarrow> done_with (Err EX_USAGE) s
      | script # args \<Rightarrow>
          on_shell (\<lambda>w. map_option (\<lambda>(r, w). Val (case r of Ok _ \<Rightarrow> (Ok (), w) | Err _ \<Rightarrow> (Err EXECUTION_FAILURE, w)))
            (run_lua_script E interp script args w)) s) = Some (Val (r, s'))"
  show "P (world s')"
  proof (cases "words_collect (rest_words (arg vs 0))")
    case (Cons script args)
    then obtain res w where "run_lua_script E interp script args (world s) = Some (res, w)" "world s' = w"
      using e by (cases "run_lua_script E interp script args (world s)")
        (auto simp: on_shell_def bindR_eq_Val split: result.splits)
    then show ?thesis
      using I s bash_module_keeps[OF E] unfolding run_lua_script_def interpreter_keeps_def by blast
  qed (use e s in \<open>simp add: done_with_def\<close>)
qed

lemma run_keeps:
  assumes "\<And>cmd s. P (world s) \<Longrightarrow> P (world (snd (execute cmd s)))"
  shows "keeps P (l_run_subcommand ops d execute)"
proof (rule keeps_command, rule l_run_subcommand_def)
  fix vs s r s'
  assume s: "P (world (s :: 'a shell))" and
    e: "(case caller_args vs of (command, args) \<Rightarrow>
           let cmd = build_eval_command (command # words_collect args) in
           case execute (c_str cmd) s of (rc, s) \<Rightarrow> Some (Val (cint_to_cmd_result rc, s))) = Some (Val (r, s'))"
  obtain cmd args where c: "caller_args vs = (cmd, args)" by force
  have "s' = snd (execute (c_str (build_eval_command (cmd # words_collect args))) s)"
    using e by (simp add: c Let_def split: prod.splits)
  then show "P (world s')" using assms[OF s] by simp
qed

end
