(* ===== verification/Builtin.thy ===== *)
theory Builtin
  imports Entry_Point Process_State Epoll Sockets Var_Edit Utilities
begin

text \<open>
  The whole builtin: the table of \<open>l_builtin/src/entrypoint.rs\<close> with the handlers of
  all modules, over the state of a process, which is the static variables of the
  modules next to the kernel and the shell \<open>'k\<close>; and every way that bash enters the
  code: the builtin itself and the dynamic variables.
\<close>

section \<open>The state of the process\<close>

type_synonym 'k process = "'k shm_world proc"

definition with_world :: "'v \<Rightarrow> 'w shell \<Rightarrow> 'v shell" where
  "with_world v s = \<lparr>this_command = this_command s, short_doc = short_doc s, long_doc = long_doc s, world = v\<rparr>"

text \<open>A handler that sees a part of the state.\<close>

definition on_part :: "('w \<Rightarrow> 'v) \<Rightarrow> ('v \<Rightarrow> 'w \<Rightarrow> 'w) \<Rightarrow> 'v handler \<Rightarrow> 'w handler" where
  "on_part part put h list s =
     map_option (\<lambda>r. bindR r (\<lambda>(res, t). Val (res, with_world (put (world t) (world s)) t)))
       (h list (with_world (part (world s)) s))"

definition kernel_of :: "'k process \<Rightarrow> 'k" where
  "kernel_of p = shm_sys (sys p)"

definition put_kernel :: "'k \<Rightarrow> 'k process \<Rightarrow> 'k process" where
  "put_kernel k p = p\<lparr>sys := (sys p)\<lparr>shm_sys := k\<rparr>\<rparr>"

definition on_kernel :: "'k handler \<Rightarrow> 'k process handler" where
  "on_kernel = on_part kernel_of put_kernel"

definition on_shm :: "'k shm_world handler \<Rightarrow> 'k process handler" where
  "on_shm = on_part sys (\<lambda>m p. p\<lparr>sys := m\<rparr>)"

definition registries_of :: "'k process \<Rightarrow> 'k proc" where
  "registries_of p = \<lparr>barriers = barriers p, mutexes = mutexes p, semaphores = semaphores p, sys = kernel_of p\<rparr>"

definition put_registries :: "'k proc \<Rightarrow> 'k process \<Rightarrow> 'k process" where
  "put_registries q p = (put_kernel (sys q) p)\<lparr>barriers := barriers q, mutexes := mutexes q, semaphores := semaphores q\<rparr>"

definition on_registries :: "'k proc handler \<Rightarrow> 'k process handler" where
  "on_registries = on_part registries_of put_registries"

section \<open>The table\<close>

text \<open>\<open>be_poll\<close> and \<open>be_ext\<close> are the subcommands written in C. What evaluates commands or
  words of the shell sees the whole process, since they may contain the builtin.\<close>

record ('k, 'g, 'f, 'r, 's) builtin_env =
  be_getopt :: "'g getopt"
  be_vars :: "'k process bash_vars"
  be_capture :: "'k process capture_ops"
  be_codes :: "exit_code \<Rightarrow> int"
  be_docs :: "string \<times> string"
  be_sockets :: "('k, 'g) sk_env"
  be_fds :: "('k, 'g) fd_env"
  be_descriptors :: "('k, 'g) ds_env"
  be_newfds :: "('k, 'g) newfd_env"
  be_signalfd :: "('k, 'g) sig_env"
  be_fcntl :: "('k, 'g) fcntl_env"
  be_epoll :: "('k, 'f, 'g) epoll_env"
  be_poll :: "word_list \<Rightarrow> 'k process shell \<Rightarrow> int \<times> 'k process shell"
  be_sig :: "('k process, 'g) sig_env"
  be_barrier :: "('k, 'f, 'g) barrier_env"
  be_mutex :: "('k, 'f, 'g) mutex_env"
  be_semaphore :: "('k, 'f, 'g) semaphore_env"
  be_shm :: "('k, 'g) shm_env"
  be_edit :: "('k, 'g, 'r, 's) edit_env"
  be_util :: "('k, 'g) util_env"
  be_lua :: "('k process, 'g, 'f) lua_env"
  be_interpreter :: "('k process, 'f) lua_interpreter"
  be_ext :: "word_list \<Rightarrow> 'k process shell \<Rightarrow> int \<times> 'k process shell"
  be_run_desc :: cmd_desc
  be_execute :: "string \<Rightarrow> 'k process shell \<Rightarrow> int \<times> 'k process shell"

definition builtin_entries :: "('k, 'g, 'f, 'r, 's) builtin_env \<Rightarrow> (string \<times> 'k process handler) list" where
  "builtin_entries E =
     [(''listen'', on_kernel (listen_subcommand (be_sockets E))),
      (''accept'', on_kernel (accept_subcommand (be_sockets E))),
      (''connect'', on_kernel (connect_subcommand (be_sockets E))),
      (''send'', on_kernel (send_subcommand (be_fds E))),
      (''recv'', on_kernel (recv_subcommand (be_fds E))),
      (''shutdown'', on_kernel (shutdown_subcommand (be_descriptors E))),
      (''pipe'', on_kernel (pipe_subcommand (be_newfds E))),
      (''eventfd'', on_kernel (eventfd_subcommand (be_newfds E))),
      (''memfd'', on_kernel (memfd_subcommand (be_newfds E))),
      (''timerfd'', on_kernel (timerfd_subcommand (be_descriptors E))),
      (''signalfd'', on_kernel (signalfd_subcommand (be_signalfd E))),
      (''splice'', on_kernel (splice_subcommand (be_descriptors E))),
      (''lseek'', on_kernel (lseek_subcommand (be_descriptors E))),
      (''read'', on_kernel (read_subcommand (be_fds E))),
      (''write'', on_kernel (write_subcommand (be_fds E))),
      (''fcntl'', on_kernel (fcntl_subcommand (be_fcntl E))),
      (''flock'', on_kernel (flock_subcommand (be_descriptors E))),
      (''close'', on_kernel (close_subcommand (be_descriptors E))),
      (''epoll'', on_kernel (epoll_subcommand (be_epoll E))),
      (''poll'', c_wrap (be_poll E)),
      (''sig'', sig_subcommand (be_sig E)),
      (''barrier'', on_registries (barrier_subcommand (be_barrier E))),
      (''mutex'', on_registries (mutex_subcommand (be_mutex E))),
      (''semaphore'', on_registries (semaphore_subcommand (be_semaphore E))),
      (''shm'', on_shm (shm_subcommand (be_shm E))),
      (''replace'', on_kernel (replace_subcommand (be_edit E))),
      (''sedvar'', on_kernel (sedvar_subcommand (be_edit E))),
      (''sleep'', on_kernel (sleep_subcommand (be_descriptors E))),
      (''core'', on_kernel (l_core_subcommand (be_util E))),
      (''lua'', l_lua_subcommand (be_lua E) (be_interpreter E)),
      (''ext'', c_wrap (be_ext E)),
      (''run'', l_run_subcommand (be_getopt E) (be_run_desc E) (be_execute E)),
      (''version'', on_kernel (version_subcommand (be_util E)))]"

definition builtin_handler :: "('k, 'g, 'f, 'r, 's) builtin_env \<Rightarrow> string \<Rightarrow> 'k process handler" where
  "builtin_handler E n = the (map_of (builtin_entries E) n)"

definition builtin_entrypoint :: "('k, 'g, 'f, 'r, 's) builtin_env \<Rightarrow> 'k process handler" where
  "builtin_entrypoint E list s =
     (case subcommand_table (builtin_handler E) of
        Panic \<Rightarrow> Some Panic
      | Val t \<Rightarrow> entrypoint (be_getopt E) (be_vars E) (be_capture E) (fst (be_docs E)) (snd (be_docs E)) t list s)"

definition l_builtin ::
    "('k, 'g, 'f, 'r, 's) builtin_env \<Rightarrow> word_list \<Rightarrow> 'k process shell \<Rightarrow> (int \<times> 'k process shell) run option" where
  "l_builtin E = l_entrypoint (be_capture E) (be_codes E) (builtin_entrypoint E)"

definition process_new :: "'k \<Rightarrow> 'k process" where
  "process_new k = \<lparr>barriers = registry_new, mutexes = registry_new, semaphores = registry_new,
     sys = \<lparr>shm_registry = [], shm_dbs = [], shm_sys = k\<rparr>\<rparr>"

section \<open>The table holds the handlers of the modules\<close>

lemma builtin_subcommands: "subcommand_entries (builtin_handler E) = builtin_entries E"
  by (simp add: subcommand_entries_def subcommand_names_def builtin_handler_def builtin_entries_def)

section \<open>What every subcommand keeps\<close>

definition process_ok :: "'k process \<Rightarrow> bool" where
  "process_ok p \<longleftrightarrow> registries_ok p \<and> shm_ok (sys p)"

lemma process_new_ok: "process_ok (process_new k)"
  by (simp add: process_ok_def process_new_def registries_ok_def registry_ok_def registry_new_def shm_ok_def)

lemma process_ok_sys: "process_ok p \<Longrightarrow> shm_ok (sys p)" "process_ok p \<Longrightarrow> shm_ok m \<Longrightarrow> process_ok (p\<lparr>sys := m\<rparr>)"
  "process_ok (put_kernel k p) = process_ok p"
  by (simp_all add: process_ok_def registries_ok_def put_kernel_def shm_ok_def)

lemma keeps_on_part:
  assumes h: "keeps Q h" and i: "\<And>w. P w \<Longrightarrow> Q (part w)" and o: "\<And>w v. P w \<Longrightarrow> Q v \<Longrightarrow> P (put v w)"
  shows "keeps P (on_part part put h)"
proof (rule keepsI)
  fix list s r s' assume s: "P (world s)" and e: "on_part part put h list s = Some (Val (r, s'))"
  then obtain t where t: "h list (with_world (part (world s)) s) = Some (Val (r, t))" "world s' = put (world t) (world s)"
    by (auto simp: on_part_def bindR_eq_Val with_world_def)
  have "Q (world t)" using keepsD[OF h _ t(1)] i[OF s] by (simp add: with_world_def)
  then show "P (world s')" using o[OF s] t(2) by simp
qed

lemma kernel_keeps: "keeps process_ok (on_kernel h)"
  unfolding on_kernel_def
  by (rule keeps_on_part[where Q = "\<lambda>_. True"])
    (auto simp: keeps_def leads_def process_ok_def put_kernel_def registries_ok_def shm_ok_def)

lemma registries_keep: "keeps registries_ok h \<Longrightarrow> keeps process_ok (on_registries h)"
  unfolding on_registries_def
  by (erule keeps_on_part)
    (auto simp: process_ok_def put_kernel_def put_registries_def registries_of_def registries_ok_def shm_ok_def)

lemma shm_part_keeps: "keeps shm_ok h \<Longrightarrow> keeps process_ok (on_shm h)"
  unfolding on_shm_def by (erule keeps_on_part) (auto simp: process_ok_def registries_ok_def)

lemma c_wrap_keeps: "(\<And>list s. P (world s) \<Longrightarrow> P (world (snd (f list s)))) \<Longrightarrow> keeps P (c_wrap f)"
  by (rule keepsI) (auto simp: c_wrap_def split: prod.splits, metis snd_conv)

text \<open>The functions outside the sources that see the whole process keep \<open>P\<close>.\<close>

definition capture_env_keeps :: "('w \<Rightarrow> bool) \<Rightarrow> 'w capture_ops \<Rightarrow> 'w bash_vars \<Rightarrow> bool" where
  "capture_env_keeps P cap bv \<longleftrightarrow>
     (\<forall>n. fn_keeps P (memfd_create (cp_os cap) n)) \<and> (\<forall>fd c lo. fn_keeps P (dupfd (cp_os cap) fd c lo)) \<and>
     (\<forall>fd w. P w \<longrightarrow> P (close_file (cp_os cap) fd w)) \<and> (\<forall>w. P w \<longrightarrow> P (flush_rust cap w) \<and> P (fflush_all cap w)) \<and>
     (\<forall>a b. fn_keeps P (dup2 cap a b)) \<and> (\<forall>fd bs. fn_keeps P (write_file cap fd bs)) \<and>
     (\<forall>v x. fn_keeps P (bind_variable bv v x))"

definition evaluators_keep :: "('k process \<Rightarrow> bool) \<Rightarrow> ('k, 'g, 'f, 'r, 's) builtin_env \<Rightarrow> bool" where
  "evaluators_keep P E \<longleftrightarrow>
     capture_env_keeps P (be_capture E) (be_vars E) \<and> sig_env_keeps P (be_sig E) \<and>
     lua_env_keeps P (be_lua E) \<and> interpreter_keeps P (be_interpreter E) \<and>
     (\<forall>list s. P (world s) \<longrightarrow> P (world (snd (be_poll E list s))) \<and> P (world (snd (be_ext E list s)))) \<and>
     (\<forall>cmd s. P (world s) \<longrightarrow> P (world (snd (be_execute E cmd s))))"

lemma entries_keep:
  assumes "evaluators_keep process_ok E" "e \<in> set (builtin_entries E)"
  shows "keeps process_ok (snd e)"
  using assms(2)
  unfolding builtin_entries_def
  by (auto intro!: kernel_keeps registries_keep shm_part_keeps barrier_keeps mutex_keeps semaphore_keeps shm_keeps
      c_wrap_keeps sig_keeps lua_keeps run_keeps simp: assms(1)[unfolded evaluators_keep_def])

lemma capture_env_keepsD:
  assumes "capture_env_keeps P cap bv"
  shows "fn_keeps P (memfd_create (cp_os cap) n)" "fn_keeps P (dupfd (cp_os cap) fd cl lo)" "fn_keeps P (dup2 cap a b)"
    "fn_keeps P (write_file cap fd bs)" "fn_keeps P (bind_variable bv v x)"
    "P w \<Longrightarrow> P (close_file (cp_os cap) fd w)" "P w \<Longrightarrow> P (flush_stdout_buffers cap w)"
  using assms by (simp_all add: capture_env_keeps_def flush_stdout_buffers_def)

lemma memfd_new_keeps:
  assumes C: "capture_env_keeps P cap bv" and w: "P w" and e: "memfd_new cap w = Some (x, w')"
  shows "P w'"
proof -
  note k = capture_env_keepsD[OF C]
  obtain fd w1 where a: "memfd_create (cp_os cap) ''L_capture'' w = (fd, w1)" by force
  note w1 = fn_keepsD2[OF k(1) w a]
  obtain n w2 where b: "dupfd (cp_os cap) fd True L_FD_MIN w1 = (n, w2)" by force
  show ?thesis
    using e w1 k(6)[OF fn_keepsD2[OF k(2) w1 b]]
    by (auto simp: memfd_new_def high_fd_def ensure_high_fd_def a b split: if_splits)
qed

lemma redirect_new_keeps:
  assumes C: "capture_env_keeps P cap bv" and w: "P w" and e: "redirect_new cap t w = (x, w')"
  shows "P w'"
proof -
  note k = capture_env_keepsD[OF C]
  obtain sv w1 where a: "dupfd (cp_os cap) 1 True 256 (flush_stdout_buffers cap w) = (sv, w1)" by force
  note w1 = fn_keepsD2[OF k(2) k(7)[OF w] a]
  obtain n w2 where b: "dup2 cap t 1 w1 = (n, w2)" by force
  show ?thesis
    using e w1 fn_keepsD2[OF k(3) w1 b] k(6)[OF fn_keepsD2[OF k(3) w1 b]]
    by (auto simp: redirect_new_def a b split: if_splits)
qed

lemma bind_captured_keeps:
  assumes C: "capture_env_keeps P cap bv" and w: "P w" and e: "bind_captured cap bv var trimnl fd res w = (x, w')"
  shows "P w'"
proof -
  note k = capture_env_keepsD[OF C]
  have v: "P w \<Longrightarrow> bash_var_set bv y z w = (x, w') \<Longrightarrow> P w'" for w y z x w'
    by (auto simp: bash_var_set_def l_bind_variable_check_def split: prod.splits bool.splits if_splits dest: fn_keepsD2[OF k(5)])
  obtain ok w1 where o: "write_file cap fd [CHR 0x00] w = (ok, w1)" by force
  note w1 = fn_keepsD2[OF k(4) w o]
  show ?thesis
  proof (cases "ok \<and> map_file cap fd w1 \<noteq> None")
    case True
    then have "\<exists>y u. bash_var_set bv var y w1 = (u, w')"
      using e by (auto simp: bind_captured_def o Let_def split: prod.splits result.splits) blast+
    then show ?thesis using v[OF w1] by blast
  next
    case False
    then have "w' = w1" using e by (auto simp: bind_captured_def o split: bool.splits option.splits)
    then show ?thesis using w1 by simp
  qed
qed

lemma capture_keeps:
  assumes C: "capture_env_keeps P cap bv" and f: "\<And>s r s'. P (world s) \<Longrightarrow> f s = Some (Val (r, s')) \<Longrightarrow> P (world s')"
    and s: "P (world s)" and c: "capture_into_variable cap bv var trimnl f s = Some (Val (r, s'))"
  shows "P (world s')"
proof -
  note k = capture_env_keepsD[OF C]
  have d: "P w \<Longrightarrow> P (redirect_drop cap sv w)" for sv w
    unfolding redirect_drop_def by (intro k(6,7) fn_keepsD[OF k(3)])
  from c show ?thesis
  proof (cases rule: capture_cases)
    case (no_file e w)
    then show ?thesis using memfd_new_keeps[OF C s] by (simp add: set_world_def)
  next
    case (no_redirect fd w1 e w2)
    then show ?thesis using redirect_new_keeps[OF C memfd_new_keeps[OF C s]] k(6) by (simp add: set_world_def)
  next
    case (ran fd w1 sv w2 res s1 w3)
    have "P (world s1)"
      using f[OF _ ran(3)] redirect_new_keeps[OF C memfd_new_keeps[OF C s ran(1)] ran(2)] by (simp add: set_world_def)
    then show ?thesis using bind_captured_keeps[OF C d ran(4)] k(6) ran(5) by (simp add: set_world_def)
  qed
qed

lemma table_keeps:
  assumes h: "\<And>n. n \<in> set subcommand_names \<Longrightarrow> keeps P (handlers n)"
    and t: "subcommand_table handlers = Val table" and l: "lookup table q = Val (Some sub)"
  shows "keeps P sub"
proof -
  obtain es where es: "holds table es" "mset es = mset (subcommand_entries handlers)"
    using subcommand_table_builds[of handlers] t by auto
  then have "set (lvals table) = snd ` set (subcommand_entries handlers)"
    by (auto simp: holds_def dest: mset_eq_setD)
  then show ?thesis using lookup_in_values[OF l] h by (auto simp: subcommand_entries_def)
qed

lemma captured_or_not_keeps:
  assumes C: "capture_env_keeps P cap bv" and k: "keeps P sub" and s: "P (world s)"
    and e: "(case ov of Some var \<Rightarrow> capture_into_variable cap bv var trimnl (sub rest) s | None \<Rightarrow> sub rest s) = Some (Val (r, s'))"
  shows "P (world s')"
proof (cases ov)
  case None
  then show ?thesis using e keepsD[OF k s] by simp
next
  case (Some var)
  then have c: "capture_into_variable cap bv var trimnl (sub rest) s = Some (Val (r, s'))" using e by simp
  show ?thesis by (rule capture_keeps[OF C keepsD[OF k] s c])
qed

lemma entrypoint_keeps:
  assumes C: "capture_env_keeps P cap bv" and h: "\<And>n. n \<in> set subcommand_names \<Longrightarrow> keeps P (handlers n)"
    and t: "subcommand_table handlers = Val table"
  shows "keeps P (entrypoint ops bv cap sdoc ldoc table)"
proof (rule keepsI)
  fix list s r s'
  assume s: "P (world s)" and e: "entrypoint ops bv cap sdoc ldoc table list s = Some (Val (r, s'))"
  let ?s = "l_enter_subcommand None sdoc ldoc s"
  have w: "P (world ?s)" using s by (simp add: l_enter_subcommand_def)
  from e[unfolded entrypoint_def Let_def] show "P (world s')"
  proof (cases rule: with_args_cases)
    case (parsed vs)
    obtain ow rest where n: "words_next (snd (entrypoint_args vs)) = (ow, rest)" by force
    show ?thesis
    proof (cases "\<exists>first sub. ow = Some first \<and> lookup table first = Val (Some sub)")
      case True
      then obtain first sub where f: "ow = Some first" "lookup table first = Val (Some sub)" by blast
      obtain s1 where s1: "(case fst (entrypoint_args vs) of Some var \<Rightarrow> capture_into_variable cap bv var True (sub rest) ?s
          | None \<Rightarrow> sub rest ?s) = Some (Val (r, s1))" "s' = guard_drop (guard_new ?s) s1"
        using parsed by (auto simp: n f bindR_eq_Val)
      then show ?thesis
        using captured_or_not_keeps[OF C table_keeps[OF h t f(2)] w s1(1)] by (simp add: guard_drop_def)
    next
      case False
      then have "s' = ?s" using parsed by (auto simp: n split: option.splits run.splits)
      then show ?thesis using w by simp
    qed
  qed (use w in simp)
qed

section \<open>Every way into the code\<close>

text \<open>Bash calls the builtin, expands or assigns a dynamic variable, and the kernel and
  the shell change on their own.\<close>

inductive reachable :: "('k, 'g, 'f, 'r, 's) builtin_env \<Rightarrow> 'k process \<Rightarrow> bool" for E where
  loaded: "reachable E (process_new k)"
| called: "reachable E (world s) \<Longrightarrow> l_builtin E list s = Some (Val (rc, s')) \<Longrightarrow> reachable E (world s')"
| expanded_array: "reachable E p \<Longrightarrow> shm_array_getter (be_shm E) v (sys p) = Some m \<Longrightarrow> reachable E (p\<lparr>sys := m\<rparr>)"
| expanded_assoc: "reachable E p \<Longrightarrow> shm_assoc_getter (be_shm E) v (sys p) = Some m \<Longrightarrow> reachable E (p\<lparr>sys := m\<rparr>)"
| assigned_array: "reachable E p \<Longrightarrow> shm_array_setter (be_shm E) v x i (sys p) = Some m \<Longrightarrow> reachable E (p\<lparr>sys := m\<rparr>)"
| assigned_assoc: "reachable E p \<Longrightarrow> shm_assoc_setter (be_shm E) v x k (sys p) = Some m \<Longrightarrow> reachable E (p\<lparr>sys := m\<rparr>)"
| elsewhere: "reachable E p \<Longrightarrow> reachable E (put_kernel k p)"

lemma builtin_names: "n \<in> set subcommand_names \<Longrightarrow> (n, builtin_handler E n) \<in> set (builtin_entries E)"
  unfolding builtin_subcommands[symmetric] subcommand_entries_def by auto

lemma builtin_keeps:
  assumes E: "evaluators_keep process_ok E"
  shows "keeps process_ok (builtin_entrypoint E)"
proof (rule keepsI)
  fix list s r s' assume s: "process_ok (world s)" and e: "builtin_entrypoint E list s = Some (Val (r, s'))"
  obtain t where t: "subcommand_table (builtin_handler E) = Val t" using subcommand_table_builds by blast
  have "keeps process_ok (builtin_handler E n)" if "n \<in> set subcommand_names" for n
    using entries_keep[OF E builtin_names[OF that]] by simp
  moreover have "capture_env_keeps process_ok (be_capture E) (be_vars E)" using E by (simp add: evaluators_keep_def)
  ultimately have "keeps process_ok (entrypoint (be_getopt E) (be_vars E) (be_capture E) (fst (be_docs E)) (snd (be_docs E)) t)"
    using entrypoint_keeps t by blast
  then show "process_ok (world s')" using e keepsD s by (fastforce simp: builtin_entrypoint_def t)
qed

lemma l_builtin_keeps:
  assumes E: "evaluators_keep process_ok E" and s: "process_ok (world s)" and e: "l_builtin E list s = Some (Val (rc, s'))"
  shows "process_ok (world s')"
proof -
  let ?fl = "flush_stdout_buffers (be_capture E)"
  have q: "process_ok w \<Longrightarrow> process_ok (?fl w)" for w
    using E by (simp add: evaluators_keep_def capture_env_keeps_def flush_stdout_buffers_def)
  obtain r s1 where s1: "builtin_entrypoint E list (set_world (?fl (world s)) s) = Some (Val (r, s1))" "s' = set_world (?fl (world s1)) s1"
    using e by (auto simp: l_builtin_def l_entrypoint_def bindR_eq_Val)
  have "process_ok (world s1)" using keepsD[OF builtin_keeps[OF E] _ s1(1)] q[OF s] by simp
  then show ?thesis using q s1(2) by simp
qed

lemma reachable_process_ok:
  assumes "reachable E p" "evaluators_keep process_ok E"
  shows "process_ok p"
  using assms
proof (induction rule: reachable.induct)
  case (loaded k)
  show ?case by (rule process_new_ok)
next
  case (called s list rc s')
  then show ?case by (blast intro: l_builtin_keeps)
qed (auto simp: process_ok_sys dest: process_ok_sys(1) intro!: process_ok_sys(2) dest: dynamic_variables_keep)

end
