(* ===== verification/Builtin_Runs.thy ===== *)
theory Builtin_Runs
  imports Builtin
begin

text \<open>
  Calls of the builtin from the words on: which handler runs on which part of the state
  of the process, and what two calls in a row do.
\<close>

section \<open>From the words to the mutex\<close>

text \<open>Bash's scanner ends the options at a word that does not start with a dash.\<close>

definition operand :: "string \<Rightarrow> bool" where
  "operand w \<longleftrightarrow> take 1 w \<noteq> ''-''"

definition scans_operands :: "'g getopt \<Rightarrow> bool" where
  "scans_operands ops \<longleftrightarrow>
     (\<forall>w ws os. operand w \<longrightarrow> getopt_yields ops (Some w # ws) os (getopt_reset ops) [] (Some w # ws))"

lemma scans_operandsD: "scans_operands ops \<Longrightarrow> operand w \<Longrightarrow> getopt_yields ops (Some w # ws) os (getopt_reset ops) [] (Some w # ws)"
  by (simp add: scans_operands_def)

text \<open>Flushing changes the kernel only.\<close>

definition flushes :: "'k process capture_ops \<Rightarrow> ('k \<Rightarrow> 'k) \<Rightarrow> bool" where
  "flushes cap fl \<longleftrightarrow> (\<forall>p. flush_stdout_buffers cap p = put_kernel (fl (kernel_of p)) p)"

lemma kernel_put [simp]: "kernel_of (put_kernel k p) = k" "mutexes (put_kernel k p) = mutexes p"
  by (simp_all add: kernel_of_def put_kernel_def)

lemma builtin_mutex_entry: "prefix_lookup (builtin_entries E) ''mutex'' = Some (on_registries (mutex_subcommand (be_mutex E)))"
  by (simp add: prefix_lookup_def builtin_entries_def)

text \<open>The state in which a subcommand starts, and what becomes of the state it leaves.\<close>

definition entered :: "('k, 'g, 'f, 'r, 's) builtin_env \<Rightarrow> 'k process shell \<Rightarrow> 'k process shell" where
  "entered E s = l_enter_subcommand None (fst (be_docs E)) (snd (be_docs E))
     (set_world (flush_stdout_buffers (be_capture E) (world s)) s)"

definition left :: "('k, 'g, 'f, 'r, 's) builtin_env \<Rightarrow> 'k process shell \<Rightarrow> 'k process shell" where
  "left E t = set_world (flush_stdout_buffers (be_capture E) (world t))
     (t\<lparr>short_doc := fst (be_docs E), long_doc := snd (be_docs E)\<rparr>)"

lemma world_entered: "world (entered E s) = flush_stdout_buffers (be_capture E) (world s)"
  "world (left E s) = flush_stdout_buffers (be_capture E) (world s)"
  by (simp_all add: entered_def left_def l_enter_subcommand_def)

lemma l_builtin_runs:
  assumes G: "scans_operands (be_getopt E)" and q: "operand q" "q \<noteq> []" "nul_free q"
    and h: "prefix_lookup (builtin_entries E) q = Some h"
  shows "l_builtin E (Some q # args) s =
    map_option (\<lambda>r. bindR r (\<lambda>(res, t). Val (cmd_result_to_cint (be_codes E) res, left E t))) (h args (entered E s))"
proof -
  let ?s = "set_world (flush_stdout_buffers (be_capture E) (world s)) s"
  obtain t where t: "subcommand_table (builtin_handler E) = Val t" using subcommand_table_builds by blast
  have "builtin_entrypoint E (Some q # args) ?s = map_option (\<lambda>r. bindR r (\<lambda>(res, s').
      Val (res, s'\<lparr>short_doc := fst (be_docs E), long_doc := snd (be_docs E)\<rparr>))) (h args (entered E s))"
    unfolding builtin_entrypoint_def t run.case entered_def
    by (subst entrypoint_runs[OF t q(2,3) scans_operandsD[OF G q(1)]]) (simp add: builtin_subcommands h Let_def)
  note e = this
  show ?thesis
  proof (cases "h args (entered E s)")
    case (Some r)
    then show ?thesis
    proof (cases r)
      case (Val p)
      then show ?thesis using Some e by (cases p) (simp add: l_builtin_def l_entrypoint_def left_def set_world_def)
    qed (use e in \<open>simp add: l_builtin_def l_entrypoint_def\<close>)
  qed (use e in \<open>simp add: l_builtin_def l_entrypoint_def\<close>)
qed

lemma mutex_group_runs:
  assumes "scans_operands (m_getopt M)" "operand q" "q \<noteq> []" "nul_free q"
  shows "mutex_subcommand M (Some q # args) s =
    (case prefix_lookup (mutex_subcommands M) q of
       None \<Rightarrow> Some (Val (Err EX_USAGE, cmd_enter (described (m_texts M) ''mutex'') s))
     | Some h \<Rightarrow> h args (cmd_enter (described (m_texts M) ''mutex'') s))"
  unfolding mutex_subcommand_def mutex_table_def
  by (rule group_runs[OF group_tables(3,4) assms(3,4) scans_operandsD[OF assms(1,2)]])

lemma mutex_subcommand_names:
  "prefix_lookup (mutex_subcommands M) ''create'' = Some (mutex_create_subcommand M)"
  "prefix_lookup (mutex_subcommands M) ''lock'' = Some (mutex_lock_subcommand M)"
  by (simp_all add: prefix_lookup_def mutex_subcommands_def)

lemma mutex_words_parse:
  fixes M :: "('m, 'f, 'g) mutex_env"
  assumes G: "scans_operands (m_getopt M)"
  shows "operand v \<Longrightarrow> legal_identifier (m_vars M) v \<Longrightarrow> \<not> var_readonly (m_vars M) m v \<Longrightarrow>
      parse (m_getopt M) (mutex_create_fields (m_vars M) m :: 'f arg field list) [Some v] = Some (Ok [Boolean False, Absent, Value (Str_arg v)])"
    "operand (dec (unat i)) \<Longrightarrow>
      parse (m_getopt M) (mutex_lock_fields (m_pt M)) [Some (dec (unat (i :: 64 word)))] = Some (Ok [Boolean False, Absent, Value (Nat_arg (unat i))])"
  by (simp_all add: parse_yields[OF scans_operandsD[OF G]] mutex_create_fields_def name_option_def var_field_def
      mutex_lock_fields_def wait_options_def id_field_def new_default_def words_next_def handle_text_parses
      iter_current_def iter_advance_def has_rest_def var_conv_def bash_var_validate_def)

lemma mutex_create_inv:
  fixes M :: "('m, 'f, 'g) mutex_env"
  assumes p: "parse (m_getopt M) (mutex_create_fields (m_vars M) (sys (world s)) :: 'f arg field list) list =
      Some (Ok [Boolean robust, name, Value (Str_arg v)])"
    and e: "mutex_create_subcommand M list s = Some (Val (r, s'))" and r: "r \<noteq> Err EXECUTION_FAILURE"
  shows "\<exists>ptr m1 m2. map_for_create (m_map M) (str_opt name) (mutex_bytes M) (sys (world s)) = (Some ptr, m1)
    \<and> bash_var_set (m_vars M) v (dec (unat (reg_next (mutexes (world s))))) m2 = (r, sys (world s'))
    \<and> mutexes (world s') = snd (registry_store ptr (str_opt name) (mutexes (world s)))"
proof -
  let ?s1 = "cmd_enter (described (m_texts M) ''create'') s"
  obtain x m1 where m1: "map_for_create (m_map M) (str_opt name) (mutex_bytes M) (sys (world s)) = (x, m1)" by force
  have 1: "on_sys (map_for_create (m_map M) (str_opt name) (mutex_bytes M)) ?s1 = (x, set_sys m1 ?s1)"
    by (rule on_sys_eq) (simp add: m1)
  have x: "x \<noteq> None"
    using e r by (cases x) (auto simp: mutex_create_subcommand_def with_args_def p Let_def 1 done_with_def)
  then obtain ptr where ptr: "x = Some ptr" by blast
  obtain y m2 where m2: "mutex_init (m_pt M) ptr robust m1 = (y, m2)" by force
  have 2: "on_sys (mutex_init (m_pt M) ptr robust) (set_sys m1 ?s1) = (y, set_sys m2 (set_sys m1 ?s1))"
    by (rule on_sys_eq) (simp add: m2)
  have y: "y = Ok ()"
    using e r by (cases y) (auto simp: mutex_create_subcommand_def with_args_def p Let_def 1 2 ptr done_with_def)
  obtain s3 where s3: "store_mutex ptr (str_opt name) (set_sys m2 (set_sys m1 ?s1)) = (reg_next (mutexes (world s)), s3)"
      "sys (world s3) = m2" "mutexes (world s3) = snd (registry_store ptr (str_opt name) (mutexes (world s)))"
    by (auto simp: store_mutex_def registry_store_def Let_def)
  show ?thesis
    using e m1 ptr s3
    by (auto simp: mutex_create_subcommand_def with_args_def p Let_def 1 2 y set_handle_var_text split: prod.splits)
qed

lemma put_registries_simps [simp]:
  "kernel_of (put_registries q p) = sys q" "mutexes (put_registries q p) = mutexes q"
  "sys (registries_of p) = kernel_of p" "mutexes (registries_of p) = mutexes p"
  by (simp_all add: kernel_of_def put_kernel_def put_registries_def registries_of_def)

lemma with_world_world [simp]: "world (with_world v s) = v"
  by (simp add: with_world_def)

definition mutex_entered :: "('k, 'g, 'f, 'r, 's) builtin_env \<Rightarrow> 'k process shell \<Rightarrow> 'k proc shell" where
  "mutex_entered E s = cmd_enter (described (m_texts (be_mutex E)) ''mutex'')
     (with_world (registries_of (world (entered E s))) (entered E s))"

definition mutex_left :: "('k, 'g, 'f, 'r, 's) builtin_env \<Rightarrow> 'k process shell \<Rightarrow> 'k proc shell \<Rightarrow> 'k process shell" where
  "mutex_left E s t = left E (with_world (put_registries (world t) (world (entered E s))) t)"

lemma mutex_runs:
  assumes "scans_operands (be_getopt E)" "scans_operands (m_getopt (be_mutex E))"
    and "operand q" "q \<noteq> []" "nul_free q" "prefix_lookup (mutex_subcommands (be_mutex E)) q = Some h"
  shows "l_builtin E (Some ''mutex'' # Some q # args) s =
    map_option (\<lambda>r. bindR r (\<lambda>(res, t). Val (cmd_result_to_cint (be_codes E) res, mutex_left E s t)))
      (h args (mutex_entered E s))"
proof -
  have "operand ''mutex''" "nul_free ''mutex''" by (simp_all add: operand_def nul_free_def)
  note run = l_builtin_runs[OF assms(1) this(1) _ this(2) builtin_mutex_entry, simplified]
  show ?thesis
    unfolding run on_registries_def on_part_def mutex_group_runs[OF assms(2-5)] assms(6)
    by (simp add: mutex_entered_def mutex_left_def option.map_comp o_def bindR_assoc case_prod_unfold)
qed

lemma mutex_entered_world:
  assumes "flushes (be_capture E) fl"
  shows "sys (world (mutex_entered E s)) = fl (kernel_of (world s))" "mutexes (world (mutex_entered E s)) = mutexes (world s)"
    "kernel_of (world (mutex_left E s t)) = fl (sys (world t))" "mutexes (world (mutex_left E s t)) = mutexes (world t)"
  using assms by (simp_all add: mutex_entered_def mutex_left_def world_entered flushes_def)

lemma operand_dec: "operand (dec n)"
  using digs_ne_sign[of n] by (cases "digs n") (auto simp: operand_def dec_def)

lemma mutex_lock_runs:
  fixes M :: "('m, 'f, 'g) mutex_env"
  assumes "scans_operands (m_getopt M)" "registry_lookup (mutexes (world s)) i = Some ptr"
    "mutex_lock (m_pt M) ptr None False (sys (world s)) = (r, m)"
  shows "\<exists>s'. mutex_lock_subcommand M [Some (dec (unat i))] s = Some (Val (r, s')) \<and> sys (world s') = m \<and>
    mutexes (world s') = mutexes (world s)"
proof -
  let ?s = "cmd_enter (described (m_texts M) ''lock'') s"
  have "on_sys (mutex_lock (m_pt M) ptr None False) ?s = (r, set_sys m ?s)"
    by (rule on_sys_eq) (simp add: assms(3))
  then show ?thesis
    by (simp add: mutex_lock_subcommand_def with_args_def mutex_words_parse(2)[OF assms(1) operand_dec] lookup_mutex_def assms(2)
        Let_def done_with_def)
qed


text \<open>
  C2: when \<open>L_builtin mutex create v\<close> does not fail, the text it left in the variable,
  given to \<open>L_builtin mutex lock\<close>, locks the very memory that the creation mapped: the
  words reach the handlers through both dispatch tables, the variable holds the decimal
  handle, and the handle resolves in the registry of the process.
\<close>

theorem created_mutex_is_locked:
  fixes E :: "('k, 'g, 'f, 'r, 's) builtin_env"
  assumes "scans_operands (be_getopt E)" "scans_operands (m_getopt (be_mutex E))" "flushes (be_capture E) fl"
    and "operand v" "legal_identifier (m_vars (be_mutex E)) v"
    and "\<not> var_readonly (m_vars (be_mutex E)) (fl (kernel_of (world s))) v"
    and "registry_inv (mutexes (world s))" "registry_room (mutexes (world s))"
    and "l_builtin E [Some ''mutex'', Some ''create'', Some v] s = Some (Val (rc, s'))" "rc \<noteq> be_codes E EXECUTION_FAILURE"
    and "\<forall>x m m'. bind_variable (m_vars (be_mutex E)) v x m = (True, m') \<longrightarrow> shown m' = x" "\<forall>m. shown (fl m) = shown m"
  shows "rc = 0 \<and> (\<exists>ptr m s''.
    map_for_create (m_map (be_mutex E)) None (mutex_bytes (be_mutex E)) (fl (kernel_of (world s))) = (Some ptr, m) \<and>
    (case mutex_lock (m_pt (be_mutex E)) ptr None False (fl (kernel_of (world s'))) of (r, m') \<Rightarrow>
       l_builtin E [Some ''mutex'', Some ''lock'', Some (shown (kernel_of (world s')))] s' =
         Some (Val (cmd_result_to_cint (be_codes E) r, s'')) \<and> kernel_of (world s'') = fl m'))"
proof -
  let ?M = "be_mutex E" and ?i = "reg_next (mutexes (world s))"
  note W = mutex_entered_world[OF assms(3)]
  have q: "operand ''create''" "operand ''lock''" "nul_free ''create''" "nul_free ''lock''"
    by (simp_all add: operand_def nul_free_def)
  note C = mutex_runs[OF assms(1,2) q(1) _ q(3) mutex_subcommand_names(1), simplified]
  note L = mutex_runs[OF assms(1,2) q(2) _ q(4) mutex_subcommand_names(2), simplified]
  obtain r t where t: "mutex_create_subcommand ?M [Some v] (mutex_entered E s) = Some (Val (r, t))"
      "rc = cmd_result_to_cint (be_codes E) r" "s' = mutex_left E s t"
    using assms(9) by (auto simp: C bindR_eq_Val)
  have p: "parse (m_getopt ?M) (mutex_create_fields (m_vars ?M) (sys (world (mutex_entered E s))) :: 'f arg field list) [Some v] =
      Some (Ok [Boolean False, Absent, Value (Str_arg v)])"
    using mutex_words_parse(1)[OF assms(2,4,5)] assms(6) by (simp add: W)
  have r: "r \<noteq> Err EXECUTION_FAILURE" using assms(10) t(2) by (auto simp: cmd_result_to_cint_def code_to_cint_def)
  obtain ptr m1 m2 where c: "map_for_create (m_map ?M) None (mutex_bytes ?M) (fl (kernel_of (world s))) = (Some ptr, m1)"
      "bash_var_set (m_vars ?M) v (dec (unat ?i)) m2 = (r, sys (world t))"
      "mutexes (world t) = snd (registry_store ptr None (mutexes (world s)))"
    using mutex_create_inv[OF p t(1) r] by (auto simp: W)
  have b: "r = Ok ()" "shown (sys (world t)) = dec (unat ?i)"
    using c(2) r assms(11) by (auto simp: bash_var_set_def l_bind_variable_check_def split: if_splits prod.splits bool.splits)
  then have h: "shown (kernel_of (world s')) = dec (unat ?i)" by (simp add: t(3) W assms(12))
  have "fst (registry_store ptr None (mutexes (world s))) = ?i" by (simp add: registry_store_def Let_def)
  then have "registry_lookup (mutexes (world (mutex_entered E s'))) ?i = Some ptr"
    using reg.store_find[OF assms(7,8)] by (simp add: W t(3) c(3))
  note lock = mutex_lock_runs[OF assms(2) this]
  obtain r' m' where l: "mutex_lock (m_pt ?M) ptr None False (fl (kernel_of (world s'))) = (r', m')" by force
  then obtain s1 where s1: "mutex_lock_subcommand ?M [Some (dec (unat ?i))] (mutex_entered E s') = Some (Val (r', s1))" "sys (world s1) = m'"
    using lock by (auto simp: W)
  show ?thesis
    using c(1) b(1) t(2) by (auto simp: h L s1 W l cmd_result_to_cint_def)
qed

section \<open>A quiet shell with one mutex\<close>

text \<open>The kernel is the variables of the shell; the scanner finds no options; what
  is outside the sources does nothing else than binding variables.\<close>

type_synonym variables = "string \<Rightarrow> string"

definition operands_only :: "unit getopt" where
  "operands_only = \<lparr>getopt_reset = (), getopt_call = \<lambda>g list os. (Getopt_end list, ())\<rparr>"

definition quiet_vars :: "'w bash_vars" where
  "quiet_vars = \<lparr>legal_identifier = \<lambda>_. True, var_readonly = \<lambda>_ _. False, bind_variable = \<lambda>_ _. Pair True\<rparr>"

definition quiet_capture :: "'w capture_ops \<Rightarrow> 'w capture_ops" where
  "quiet_capture cap = cap\<lparr>cp_os := (cp_os cap)\<lparr>memfd_create := \<lambda>_. Pair (-1), dupfd := \<lambda>_ _ _. Pair (-1), close_file := \<lambda>_ w. w\<rparr>,
     flush_rust := \<lambda>w. w, fflush_all := \<lambda>w. w, dup2 := \<lambda>_ _. Pair (-1), write_file := \<lambda>_ _. Pair False\<rparr>"

definition quiet_sig :: "('w, 'g) sig_env \<Rightarrow> ('w, 'g) sig_env" where
  "quiet_sig S = S\<lparr>sigprocmask := \<lambda>_ _ w. (fst (sigprocmask S Sig_block {} w), w), current_mask := \<lambda>w. (fst (current_mask S w), w),
     run_traps := \<lambda>w. w, run_command := \<lambda>_. Pair 0, sg_print := \<lambda>_ w. w, sg_prepare := \<lambda>_. Pair False, sg_put := \<lambda>_ _ _ w. w\<rparr>"

definition quiet_lua :: "('w, 'g, 'f) lua_env \<Rightarrow> ('w, 'g, 'f) lua_env" where
  "quiet_lua L = L\<lparr>lu_bind := \<lambda>_ _. Pair False, lu_unbind := \<lambda>_. Pair 1, lu_to_array := \<lambda>_. Pair False, lu_new_array := \<lambda>_. Pair False,
     lu_new_assoc := \<lambda>_. Pair False, lu_arr_flush := \<lambda>_ w. w, lu_arr_put := \<lambda>_ _ _ w. w, lu_assoc_flush := \<lambda>_ w. w,
     lu_assoc_put := \<lambda>_ _ _ w. w, lu_execute := \<lambda>_. Pair 0, lu_expand := \<lambda>_. Pair [], lu_expand_words := \<lambda>_. Pair []\<rparr>"

definition variable_mutexes :: "(variables, unit, unit) mutex_env" where
  "variable_mutexes = \<lparr>m_getopt = operands_only,
     m_vars = quiet_vars\<lparr>bind_variable := \<lambda>v x m. (True, m(v := x))\<rparr>, m_map = solo_map, m_pt = alone, mutex_bytes = 40, m_texts = \<lambda>_. ([], [])\<rparr>"

definition quiet :: "(variables, unit, unit, 'r, 's) builtin_env \<Rightarrow> (variables, unit, unit, 'r, 's) builtin_env" where
  "quiet E = E\<lparr>be_getopt := operands_only, be_vars := quiet_vars, be_capture := quiet_capture (be_capture E), be_codes := \<lambda>_. 1,
     be_poll := \<lambda>_. Pair 0, be_sig := quiet_sig (be_sig E), be_mutex := variable_mutexes, be_lua := quiet_lua (be_lua E),
     be_interpreter := \<lambda>_ _ _ _. None, be_ext := \<lambda>_. Pair 0, be_execute := \<lambda>_. Pair 0\<rparr>"

definition quiet_shell :: "variables process shell" where
  "quiet_shell = \<lparr>this_command = [], short_doc = [], long_doc = [], world = process_new (\<lambda>_. [])\<rparr>"

lemma operands_only_scans: "scans_operands operands_only"
  by (auto simp: scans_operands_def operands_only_def intro!: yields_end)

lemma quiet_simps:
  "be_getopt (quiet E) = operands_only" "be_mutex (quiet E) = variable_mutexes" "be_codes (quiet E) = (\<lambda>_. 1)"
  "m_getopt variable_mutexes = operands_only" "m_pt variable_mutexes = alone" "m_map variable_mutexes = solo_map"
  "legal_identifier (m_vars variable_mutexes) v" "\<not> var_readonly (m_vars variable_mutexes) m v"
  "bind_variable (m_vars variable_mutexes) v x m = (True, m(v := x))"
  by (simp_all add: quiet_def variable_mutexes_def quiet_vars_def)

lemma quiet_flushes: "flushes (be_capture (quiet E)) (\<lambda>k. k)"
  by (simp add: flushes_def quiet_def quiet_capture_def flush_stdout_buffers_def put_kernel_def kernel_of_def)

lemma quiet_keeps: "evaluators_keep P (quiet E)"
  by (simp add: evaluators_keep_def quiet_def capture_env_keeps_def quiet_capture_def quiet_vars_def sig_env_keeps_def
      quiet_sig_def lua_env_keeps_def quiet_lua_def interpreter_keeps_def fn_keeps_def)

lemma quiet_create:
  "\<exists>s'. l_builtin (quiet E) [Some ''mutex'', Some ''create'', Some ''m''] quiet_shell = Some (Val (0, s')) \<and>
     kernel_of (world s') ''m'' = ''1'' \<and> length (reg_map (mutexes (world s'))) = 1"
proof -
  have G: "scans_operands (be_getopt (quiet E))" "scans_operands (m_getopt (be_mutex (quiet E)))"
    "scans_operands (m_getopt variable_mutexes)"
    by (simp_all add: quiet_simps operands_only_scans)
  have q: "operand ''create''" "nul_free ''create''" "operand ''m''" by (simp_all add: operand_def nul_free_def)
  let ?s = "mutex_entered (quiet E) quiet_shell"
  have s: "mutexes (world ?s) = registry_new" "sys (world ?s) = (\<lambda>_. [])"
    using mutex_entered_world[OF quiet_flushes, of E quiet_shell] by (simp_all add: quiet_shell_def process_new_def kernel_of_def)
  note C = mutex_runs[OF G(1,2) q(1) _ q(2) mutex_subcommand_names(1), simplified]
  note p = mutex_words_parse(1)[OF G(3) q(3) quiet_simps(7,8)]
  have 1: "map_for_create (m_map variable_mutexes) (str_opt Absent) (mutex_bytes variable_mutexes) (sys (world ?s)) = (Some 4096, \<lambda>_. [])"
    by (simp add: map_for_create_def map_anonymous_def quiet_simps solo_map_def s)
  have 2: "mutex_init (m_pt variable_mutexes) 4096 False (\<lambda>_. []) = (Ok (), \<lambda>_. [])"
    by (simp add: mutex_init_def quiet_simps alone_def)
  have 3: "bash_var_set (m_vars variable_mutexes) ''m'' ''1'' (\<lambda>_. []) = (Ok (), (\<lambda>_. [])(''m'' := ''1''))"
    by (simp add: bash_var_set_def l_bind_variable_check_def quiet_simps)
  have 4: "''1'' = dec (unat (reg_next (mutexes (world ?s))))" by (simp add: s registry_new_def dec_eval)
  have i: "registry_inv (mutexes (world ?s))" "registry_room (mutexes (world ?s))"
    using registry_new_inv by (simp_all add: s registry_room_def registry_new_def)
  obtain s' where s': "mutex_create_subcommand variable_mutexes [Some ''m''] ?s = Some (Val (Ok (), s'))"
      "sys (world s') = (\<lambda>_. [])(''m'' := ''1'')"
    using mutex_create_handle_roundtrip[OF p 1 2 3 4 i] by blast
  have "mutexes (world s') = snd (registry_store 4096 None registry_new)"
    using mutex_create_inv[OF p s'(1)] 1 by (auto simp: s)
  then show ?thesis
    using mutex_entered_world[OF quiet_flushes, of E]
    by (simp add: C quiet_simps s' cmd_result_to_cint_def registry_store_def registry_new_def Let_def)
qed

theorem created_mutex_is_locked_witness:
  "\<forall>E :: (variables, unit, unit, 'r, 's) builtin_env. \<exists>s' s''.
     l_builtin (quiet E) [Some ''mutex'', Some ''create'', Some ''m''] quiet_shell = Some (Val (0, s')) \<and>
     l_builtin (quiet E) [Some ''mutex'', Some ''lock'', Some ''1''] s' = Some (Val (0, s''))"
proof
  fix E :: "(variables, unit, unit, 'r, 's) builtin_env"
  let ?E = "quiet E" and ?v = "\<lambda>m :: variables. m ''m''"
  obtain s' where c: "l_builtin ?E [Some ''mutex'', Some ''create'', Some ''m''] quiet_shell = Some (Val (0, s'))"
      "kernel_of (world s') ''m'' = ''1''" using quiet_create by blast
  have G: "scans_operands (be_getopt ?E)" "scans_operands (m_getopt (be_mutex ?E))"
    by (simp_all add: quiet_simps operands_only_scans)
  have i: "registry_inv (mutexes (world quiet_shell))" "registry_room (mutexes (world quiet_shell))"
    using registry_new_inv by (simp_all add: quiet_shell_def process_new_def registry_room_def registry_new_def)
  have m: "operand ''m''" "legal_identifier (m_vars (be_mutex ?E)) ''m''"
    "\<not> var_readonly (m_vars (be_mutex ?E)) (kernel_of (world quiet_shell)) ''m''"
    by (simp_all add: quiet_simps operand_def)
  have b: "\<forall>x y y'. bind_variable (m_vars (be_mutex ?E)) ''m'' x y = (True, y') \<longrightarrow> ?v y' = x" "\<forall>m. ?v ((\<lambda>k. k) m) = ?v m"
    by (auto simp: quiet_simps)
  have rc: "0 \<noteq> be_codes ?E EXECUTION_FAILURE" by (simp add: quiet_simps)
  have l: "mutex_lock alone p None False k = (Ok (), k)" for p and k :: variables
    by (simp add: mutex_lock_def alone_def)
  have "\<exists>s''. l_builtin ?E [Some ''mutex'', Some ''lock'', Some (?v (kernel_of (world s')))] s' =
      Some (Val (cmd_result_to_cint (be_codes ?E) (Ok ()), s''))"
    using created_mutex_is_locked[where shown = ?v, OF G quiet_flushes m i c(1) rc b] by (auto simp: quiet_simps l)
  then show "\<exists>s' s''. l_builtin ?E [Some ''mutex'', Some ''create'', Some ''m''] quiet_shell = Some (Val (0, s')) \<and>
      l_builtin ?E [Some ''mutex'', Some ''lock'', Some ''1''] s' = Some (Val (0, s''))"
    using c by (auto simp: cmd_result_to_cint_def)
qed

text \<open>
  The representation stays well-formed: whatever words the builtin is called with, whichever dynamic variables are expanded
  or assigned, and whatever happens to the kernel in between, no registry of the process
  has two entries for one key, and every bound variable refers to an opened database.
\<close>

lemma reachable_state_valid:
  assumes "reachable E p" "evaluators_keep process_ok E"
  shows "distinct (map fst (reg_map (barriers p))) \<and> distinct (map fst (reg_map (mutexes p))) \<and>
    distinct (map fst (reg_map (semaphores p))) \<and> distinct (map fst (shm_registry (sys p))) \<and>
    (\<forall>v i. bound_db (sys p) v = Some i \<longrightarrow> i < length (shm_dbs (sys p)))"
  using reachable_process_ok[OF assms]
  by (auto simp: process_ok_def registries_ok_def registry_ok_def shm_ok_def bound_db_def dest!: map_of_SomeD)

end
