(* ===== verification/Bash_Api.thy ===== *)
theory Bash_Api
  imports Cmd_Args Display
begin

text \<open>
  The iterators of \<open>l_builtin/src/bash_api.rs\<close> over the structures of bash, which follow
  pointers, and its messages. A memory maps addresses to nodes. \<open>None\<close> is a read
  outside the memory or a loop that does not end; a null pointer is \<open>0\<close>. The words of
  \<open>Cmd_Args\<close>, and the items of arrays that other theories take as parameters, are shown
  to be what these iterators yield.
\<close>

section \<open>Memory\<close>

type_synonym ptr = "64 word"

record word_node =
  wl_next :: ptr
  wl_word :: ptr

record array_element =
  el_index :: int
  el_value :: ptr
  el_forw :: ptr

text \<open>\<open>word_descs\<close> is the text pointer of a word descriptor, \<open>array_heads\<close> the head of an array.\<close>

record bash_memory =
  word_nodes :: "ptr \<Rightarrow> word_node option"
  word_descs :: "ptr \<Rightarrow> ptr option"
  elements :: "ptr \<Rightarrow> array_element option"
  array_heads :: "ptr \<Rightarrow> ptr option"
  c_strings :: "ptr \<Rightarrow> string option"

text \<open>The functions of bash on associative arrays and word lists.\<close>

record assoc_ops =
  assoc_keys_to_word_list :: "ptr \<Rightarrow> bash_memory \<Rightarrow> ptr \<times> bash_memory"
  assoc_reference :: "ptr \<Rightarrow> string \<Rightarrow> bash_memory \<Rightarrow> ptr"
  dispose_words :: "ptr \<Rightarrow> bash_memory \<Rightarrow> bash_memory"

section \<open>Word lists\<close>

definition wl_current :: "bash_memory \<Rightarrow> ptr \<Rightarrow> string option option" where
  "wl_current m p =
     (if p \<noteq> 0 then
        (case word_nodes m p of
           None \<Rightarrow> None
         | Some n \<Rightarrow>
             if wl_word n \<noteq> 0 then
               (case word_descs m (wl_word n) of
                  None \<Rightarrow> None
                | Some pnt \<Rightarrow> if pnt \<noteq> 0 then map_option Some (c_strings m pnt) else Some None)
             else Some None)
      else Some None)"

definition wl_advance :: "bash_memory \<Rightarrow> ptr \<Rightarrow> ptr option" where
  "wl_advance m p = (if p \<noteq> 0 then map_option wl_next (word_nodes m p) else Some p)"

definition wl_next_item :: "bash_memory \<Rightarrow> ptr \<Rightarrow> (string option \<times> ptr) option" where
  "wl_next_item m p =
     (case wl_current m p of None \<Rightarrow> None | Some item \<Rightarrow> map_option (Pair item) (wl_advance m p))"

text \<open>A \<open>for\<close> loop over the words.\<close>

partial_function (option) wl_collect :: "bash_memory \<Rightarrow> ptr \<Rightarrow> string list option" where
  "wl_collect m p =
     (case wl_next_item m p of
        None \<Rightarrow> None
      | Some (None, _) \<Rightarrow> Some []
      | Some (Some w, p') \<Rightarrow> Option.bind (wl_collect m p') (\<lambda>ws. Some (w # ws)))"

definition word_list_owned_drop :: "assoc_ops \<Rightarrow> ptr \<Rightarrow> bash_memory \<Rightarrow> bash_memory" where
  "word_list_owned_drop ops p m = (if p \<noteq> 0 then dispose_words ops p m else m)"

section \<open>Indexed arrays\<close>

record array_iter =
  ar_head :: ptr
  ar_current :: ptr

definition array_iter_new :: "bash_memory \<Rightarrow> ptr \<Rightarrow> array_iter option" where
  "array_iter_new m arr =
     (case array_heads m arr of
        None \<Rightarrow> None
      | Some h \<Rightarrow>
          if h = 0 then Some \<lparr>ar_head = h, ar_current = 0\<rparr>
          else map_option (\<lambda>e. \<lparr>ar_head = h, ar_current = el_forw e\<rparr>) (elements m h))"

definition text_or_empty :: "bash_memory \<Rightarrow> ptr \<Rightarrow> string option" where
  "text_or_empty m val = (if val = 0 then Some [] else c_strings m val)"

definition array_iter_next :: "bash_memory \<Rightarrow> array_iter \<Rightarrow> ((int \<times> string) option \<times> array_iter) option" where
  "array_iter_next m it =
     (if ar_current it = ar_head it then Some (None, it)
      else case elements m (ar_current it) of
        None \<Rightarrow> None
      | Some e \<Rightarrow>
          map_option (\<lambda>val. (Some (el_index e, val), it\<lparr>ar_current := el_forw e\<rparr>)) (text_or_empty m (el_value e)))"

partial_function (option) array_iter_collect :: "bash_memory \<Rightarrow> array_iter \<Rightarrow> (int \<times> string) list option" where
  "array_iter_collect m it =
     (case array_iter_next m it of
        None \<Rightarrow> None
      | Some (None, _) \<Rightarrow> Some []
      | Some (Some x, it') \<Rightarrow> Option.bind (array_iter_collect m it') (\<lambda>xs. Some (x # xs)))"

definition array_items :: "bash_memory \<Rightarrow> ptr \<Rightarrow> (int \<times> string) list option" where
  "array_items m arr = (case array_iter_new m arr of None \<Rightarrow> None | Some it \<Rightarrow> array_iter_collect m it)"

section \<open>Associative arrays\<close>

record assoc_iter =
  as_keys_list :: ptr
  as_current :: ptr
  as_hash :: ptr

definition assoc_iter_new :: "assoc_ops \<Rightarrow> ptr \<Rightarrow> bash_memory \<Rightarrow> assoc_iter \<times> bash_memory" where
  "assoc_iter_new ops hash m =
     (case assoc_keys_to_word_list ops hash m of
        (ks, m) \<Rightarrow> (\<lparr>as_keys_list = ks, as_current = ks, as_hash = hash\<rparr>, m))"

text \<open>Nodes without a word or without a text are skipped.\<close>

partial_function (option) assoc_iter_next ::
    "assoc_ops \<Rightarrow> bash_memory \<Rightarrow> assoc_iter \<Rightarrow> ((string \<times> string) option \<times> assoc_iter) option" where
  "assoc_iter_next ops m it =
     (if as_current it = 0 then Some (None, it)
      else case word_nodes m (as_current it) of
        None \<Rightarrow> None
      | Some wl \<Rightarrow>
     (let it = it\<lparr>as_current := wl_next wl\<rparr> in
      if wl_word wl = 0 then assoc_iter_next ops m it
      else case word_descs m (wl_word wl) of
        None \<Rightarrow> None
      | Some key_ptr \<Rightarrow>
      if key_ptr = 0 then assoc_iter_next ops m it
      else case c_strings m key_ptr of
        None \<Rightarrow> None
      | Some key \<Rightarrow>
          map_option (\<lambda>val. (Some (key, val), it)) (text_or_empty m (assoc_reference ops (as_hash it) key m))))"

partial_function (option) assoc_iter_collect ::
    "assoc_ops \<Rightarrow> bash_memory \<Rightarrow> assoc_iter \<Rightarrow> (string \<times> string) list option" where
  "assoc_iter_collect ops m it =
     (case assoc_iter_next ops m it of
        None \<Rightarrow> None
      | Some (None, _) \<Rightarrow> Some []
      | Some (Some x, it') \<Rightarrow> Option.bind (assoc_iter_collect ops m it') (\<lambda>xs. Some (x # xs)))"

definition assoc_iter_drop :: "assoc_ops \<Rightarrow> assoc_iter \<Rightarrow> bash_memory \<Rightarrow> bash_memory" where
  "assoc_iter_drop ops it m = word_list_owned_drop ops (as_keys_list it) m"

text \<open>\<open>for (k, v) in AssocIterator::new(hash)\<close>, which drops the iterator at its end.\<close>

definition assoc_items :: "assoc_ops \<Rightarrow> ptr \<Rightarrow> bash_memory \<Rightarrow> ((string \<times> string) list \<times> bash_memory) option" where
  "assoc_items ops hash m =
     (case assoc_iter_new ops hash m of (it, m) \<Rightarrow>
        map_option (\<lambda>xs. (xs, assoc_iter_drop ops it m)) (assoc_iter_collect ops m it))"

section \<open>Messages\<close>

definition this_cmd_name :: "string option \<Rightarrow> string" where
  "this_cmd_name p = (case p of None \<Rightarrow> [] | Some s \<Rightarrow> c_str s)"

definition l_builtin_error :: "(string \<Rightarrow> 'w \<Rightarrow> 'w) \<Rightarrow> string option \<Rightarrow> displayed list \<Rightarrow> 'w \<Rightarrow> exit_code \<times> 'w" where
  "l_builtin_error err name args w =
     (EXECUTION_FAILURE, bwriteln err (Bytes (this_cmd_name name) # Bytes '': error: '' # args) w)"

definition l_builtin_warning :: "(string \<Rightarrow> 'w \<Rightarrow> 'w) \<Rightarrow> string option \<Rightarrow> displayed list \<Rightarrow> 'w \<Rightarrow> 'w" where
  "l_builtin_warning err name args w = bwriteln err (Bytes (this_cmd_name name) # Bytes '': warning: '' # args) w"

text \<open>\<open>None\<close>: there is no current builtin, or it has no short documentation.\<close>

definition l_builtin_usage :: "(string \<Rightarrow> 'w \<Rightarrow> 'w) \<Rightarrow> string option \<Rightarrow> string option \<Rightarrow> 'w \<Rightarrow> 'w" where
  "l_builtin_usage err name sdoc w =
     bwriteln err [Bytes (this_cmd_name name), Bytes '': usage: '', C_pointer (Some (case sdoc of None \<Rightarrow> [] | Some d \<Rightarrow> d))] w"

definition l_builtin_usage_error ::
    "(string \<Rightarrow> 'w \<Rightarrow> 'w) \<Rightarrow> string option \<Rightarrow> string option \<Rightarrow> displayed list \<Rightarrow> 'w \<Rightarrow> exit_code \<times> 'w" where
  "l_builtin_usage_error err name sdoc args w =
     (case l_builtin_error err name args w of (_, w) \<Rightarrow> (EX_USAGE, l_builtin_usage err name sdoc w))"

section \<open>What a memory holds\<close>

definition word_at :: "bash_memory \<Rightarrow> ptr \<Rightarrow> string option \<Rightarrow> bool" where
  "word_at m p w \<longleftrightarrow>
     (if p = 0 then w = None
      else \<exists>t. word_descs m p = Some t \<and> (if t = 0 then w = None else c_strings m t \<noteq> None \<and> w = c_strings m t))"

fun words_at :: "bash_memory \<Rightarrow> ptr \<Rightarrow> word_list \<Rightarrow> bool" where
  "words_at m p [] = (p = 0)"
| "words_at m p (w # ws) = (p \<noteq> 0 \<and> (\<exists>n. word_nodes m p = Some n \<and> word_at m (wl_word n) w \<and> words_at m (wl_next n) ws))"

fun elements_at :: "bash_memory \<Rightarrow> ptr \<Rightarrow> (int \<times> string) list \<Rightarrow> ptr \<Rightarrow> bool" where
  "elements_at m p [] q = (p = q)"
| "elements_at m p ((i, v) # xs) q =
     (p \<noteq> q \<and> (\<exists>e. elements m p = Some e \<and> el_index e = i \<and> text_or_empty m (el_value e) = Some v \<and> elements_at m (el_forw e) xs q))"

text \<open>An array without a head is empty; otherwise its elements form a ring through the head.\<close>

definition array_at :: "bash_memory \<Rightarrow> ptr \<Rightarrow> (int \<times> string) list \<Rightarrow> bool" where
  "array_at m arr xs \<longleftrightarrow>
     (\<exists>h. array_heads m arr = Some h \<and>
        (if h = 0 then xs = [] else \<exists>e. elements m h = Some e \<and> elements_at m (el_forw e) xs h))"

section \<open>Word lists refine lists of words\<close>

lemma wl_current_at: "words_at m p ws \<Longrightarrow> wl_current m p = Some (iter_current ws)"
  by (cases ws) (auto simp: wl_current_def word_at_def iter_current_def split: if_splits option.splits)

lemma wl_advance_at: "words_at m p ws \<Longrightarrow> \<exists>p'. wl_advance m p = Some p' \<and> words_at m p' (iter_advance ws)"
  by (cases ws) (auto simp: wl_advance_def iter_advance_def)

lemma wl_next_at:
  assumes "words_at m p ws" "words_next ws = (w, ws')"
  shows "\<exists>p'. wl_next_item m p = Some (w, p') \<and> words_at m p' ws'"
  using wl_advance_at[OF assms(1)] wl_current_at[OF assms(1)] assms(2)
  by (auto simp: wl_next_item_def words_next_def)

lemma wl_collect_at: "words_at m p ws \<Longrightarrow> wl_collect m p = Some (words_collect ws)"
proof (induction ws arbitrary: p)
  case Nil
  then show ?case by (subst wl_collect.simps) (simp add: wl_next_item_def wl_current_def wl_advance_def)
next
  case (Cons w ws)
  obtain p' where "wl_next_item m p = Some (w, p')" "words_at m p' ws"
    using wl_next_at[OF Cons.prems, of w ws] by (auto simp: words_next_def iter_current_def iter_advance_def)
  then show ?case using Cons.IH by (subst wl_collect.simps) (cases w; simp)
qed

section \<open>Arrays\<close>

lemma array_iter_collect_at:
  "elements_at m p xs h \<Longrightarrow> array_iter_collect m \<lparr>ar_head = h, ar_current = p\<rparr> = Some xs"
proof (induction xs arbitrary: p)
  case Nil
  then show ?case by (subst array_iter_collect.simps) (simp add: array_iter_next_def)
next
  case (Cons x xs)
  obtain i v where x: "x = (i, v)" by force
  obtain e where e: "p \<noteq> h" "elements m p = Some e" "el_index e = i" "text_or_empty m (el_value e) = Some v"
      "elements_at m (el_forw e) xs h"
    using Cons.prems by (auto simp: x)
  then have "array_iter_next m \<lparr>ar_head = h, ar_current = p\<rparr> = Some (Some x, \<lparr>ar_head = h, ar_current = el_forw e\<rparr>)"
    by (simp add: array_iter_next_def x)
  then show ?case using Cons.IH[OF e(5)] by (subst array_iter_collect.simps) simp
qed

lemma assoc_iter_collect_at:
  assumes "words_at m p ws" "\<forall>k. Some k \<in> set ws \<longrightarrow> text_or_empty m (assoc_reference ops hash k m) = Some (f k)"
  shows "assoc_iter_collect ops m \<lparr>as_keys_list = ks, as_current = p, as_hash = hash\<rparr> =
    Some (map (\<lambda>k. (k, f k)) (List.map_filter (\<lambda>w. w) ws))"
  using assms
proof (induction ws arbitrary: p)
  case Nil
  then show ?case by (subst assoc_iter_collect.simps, subst assoc_iter_next.simps) simp
next
  case (Cons w ws)
  let ?it = "\<lambda>p. \<lparr>as_keys_list = ks, as_current = p, as_hash = hash\<rparr>"
  obtain n where n: "p \<noteq> 0" "word_nodes m p = Some n" "word_at m (wl_word n) w" "words_at m (wl_next n) ws"
    using Cons.prems by auto
  note IH = Cons.IH[OF n(4)]
  show ?case
  proof (cases w)
    case None
    then have "assoc_iter_next ops m (?it p) = assoc_iter_next ops m (?it (wl_next n))"
      using n by (subst assoc_iter_next.simps) (auto simp: word_at_def split: if_splits)
    then have "assoc_iter_collect ops m (?it p) = assoc_iter_collect ops m (?it (wl_next n))"
      by (simp add: assoc_iter_collect.simps)
    then show ?thesis using IH Cons.prems(2) None by simp
  next
    case (Some k)
    then have "assoc_iter_next ops m (?it p) = Some (Some (k, f k), ?it (wl_next n))"
      using n Cons.prems(2) by (subst assoc_iter_next.simps) (auto simp: word_at_def split: if_splits)
    then show ?thesis using IH Cons.prems(2) Some by (subst assoc_iter_collect.simps) simp
  qed
qed


lemma assoc_items_at:
  assumes "assoc_keys_to_word_list ops hash m = (ks, m1)" "words_at m1 ks keys"
    and "\<forall>k. Some k \<in> set keys \<longrightarrow> text_or_empty m1 (assoc_reference ops hash k m1) = Some (f k)"
  shows "assoc_items ops hash m = Some (map (\<lambda>k. (k, f k)) (List.map_filter (\<lambda>w. w) keys), word_list_owned_drop ops ks m1)"
  using assoc_iter_collect_at[OF assms(2,3)]
  by (simp add: assoc_items_def assoc_iter_new_def assms(1) assoc_iter_drop_def)

lemma array_items_at: "array_at m arr xs \<Longrightarrow> array_items m arr = Some xs"
  using array_iter_collect_at[of m _ xs]
  by (fastforce simp: array_at_def array_items_def array_iter_new_def array_iter_collect.simps[of m "\<lparr>ar_head = 0, ar_current = 0\<rparr>"]
      array_iter_next_def split: if_splits)

text \<open>
  C17: on well-formed structures of bash the iterators read nothing outside the memory, end,
  and yield what the structures hold: the words up to the first without a text, the
  indices and values of a ring of elements in order, and each key with its value, with
  the list of keys disposed of afterwards; a missing value is the empty text.
\<close>

theorem iterators_yield:
  assumes "words_at m p ws" "array_at m arr xs"
    and "assoc_keys_to_word_list ops hash m = (ks, m1)" "words_at m1 ks keys"
    and "\<forall>k. Some k \<in> set keys \<longrightarrow> text_or_empty m1 (assoc_reference ops hash k m1) = Some (f k)"
  shows "wl_collect m p = Some (words_collect ws) \<and> array_items m arr = Some xs \<and>
    assoc_items ops hash m = Some (map (\<lambda>k. (k, f k)) (List.map_filter (\<lambda>w. w) keys), word_list_owned_drop ops ks m1)"
  using wl_collect_at[OF assms(1)] array_items_at[OF assms(2)] assoc_items_at[OF assms(3-5)] by simp

text \<open>Words \<open>ab\<close> and one without a text, an array with a null value at index 7, and one key.\<close>

definition demo_memory :: bash_memory where
  "demo_memory = \<lparr>word_nodes = [16 \<mapsto> \<lparr>wl_next = 32, wl_word = 48\<rparr>, 32 \<mapsto> \<lparr>wl_next = 0, wl_word = 0\<rparr>],
     word_descs = [48 \<mapsto> 64],
     elements = [80 \<mapsto> \<lparr>el_index = -1, el_value = 0, el_forw = 96\<rparr>, 96 \<mapsto> \<lparr>el_index = 2, el_value = 64, el_forw = 112\<rparr>,
                 112 \<mapsto> \<lparr>el_index = 7, el_value = 0, el_forw = 80\<rparr>],
     array_heads = [8 \<mapsto> 80], c_strings = [64 \<mapsto> ''ab'']\<rparr>"

definition demo_assoc :: assoc_ops where
  "demo_assoc = \<lparr>assoc_keys_to_word_list = \<lambda>h. Pair 16, assoc_reference = \<lambda>h k m. 64,
     dispose_words = \<lambda>p m. m\<lparr>word_nodes := (word_nodes m)(p := None)\<rparr>\<rparr>"

theorem iterators_yield_witness:
  "wl_collect demo_memory 16 = Some [''ab''] \<and> array_items demo_memory 8 = Some [(2, ''ab''), (7, [])] \<and>
   (\<exists>m. assoc_items demo_assoc 24 demo_memory = Some ([(''ab'', ''ab'')], m) \<and> word_nodes m 16 = None)"
proof -
  have w: "words_at demo_memory 16 [Some ''ab'', None]" by (simp add: demo_memory_def word_at_def)
  have a: "array_at demo_memory 8 [(2, ''ab''), (7, [])]" by (simp add: array_at_def demo_memory_def text_or_empty_def)
  have k: "assoc_keys_to_word_list demo_assoc 24 demo_memory = (16, demo_memory)" by (simp add: demo_assoc_def)
  have r: "\<forall>k. Some k \<in> set [Some ''ab'', None] \<longrightarrow>
      text_or_empty demo_memory (assoc_reference demo_assoc 24 k demo_memory) = Some ((\<lambda>k. k) k)"
    by (simp add: demo_assoc_def demo_memory_def text_or_empty_def)
  show ?thesis
    using iterators_yield[OF w a k w r] by (simp add: word_list_owned_drop_def demo_assoc_def List.map_filter_simps)
qed

end
