(* ===== verification/Dispatcher.thy ===== *)
theory Dispatcher
  imports Cmd_Args
begin

text \<open>
  The loader \<open>dispatcher/src/lib.rs\<close>, which holds one build of the builtin for each
  version of bash and on the first call loads the one that fits, and the part of
  \<open>dispatcher/build.rs\<close> that names the modules in its archive. The archive and compression
  libraries, the dynamic linker and the kernel are parameters; \<open>'h\<close> is a handle of the
  linker, \<open>'f\<close> a function of a loaded module.
\<close>

section \<open>The archive\<close>

definition ascii_digit :: "char \<Rightarrow> bool" where
  "ascii_digit c \<longleftrightarrow> in_range 48 57 c"

text \<open>The group of the pattern \<open>.*([0-9]+[._][0-9]+)[.]so$\<close>: its first part is one digit,
  since \<open>.*\<close> takes as much as it can.\<close>

definition module_version :: "string \<Rightarrow> string option" where
  "module_version path =
     (if take 3 (rev path) = rev ''.so'' then
        (let stem = drop 3 (rev path); minor = takeWhile ascii_digit stem in
         case drop (length minor) stem of
           sep # major # _ \<Rightarrow>
             if minor \<noteq> [] \<and> (sep = CHR ''.'' \<or> sep = CHR ''_'') \<and> ascii_digit major
             then Some (map (\<lambda>c. if c = CHR ''_'' then CHR ''.'' else c) (major # sep # rev minor)) else None
         | _ \<Rightarrow> None)
      else None)"

text \<open>The entries that \<open>create_tar_zstd_from_so\<close> appends; \<open>read\<close> gives the contents of a file.\<close>

fun create_archive :: "(string \<Rightarrow> string option) \<Rightarrow> string list \<Rightarrow> (string \<times> string) list run" where
  "create_archive read [] = Val []"
| "create_archive read (path # paths) =
     (case module_version path of
        None \<Rightarrow> Panic
      | Some version \<Rightarrow>
     (case read path of
        None \<Rightarrow> Panic
      | Some data \<Rightarrow> bindR (create_archive read paths) (\<lambda>es. Val ((version, data) # es))))"

text \<open>\<open>mtime\<close> is \<open>None\<close> when the metadata or the time cannot be read.\<close>

definition rebuild_needed :: "(string \<Rightarrow> nat option) \<Rightarrow> string list \<Rightarrow> string list \<Rightarrow> bool" where
  "rebuild_needed mtime outputs inputs =
     (let newest_input = foldr max (List.map_filter mtime inputs) 0
      in list_ex (\<lambda>output. case mtime output of Some t \<Rightarrow> t < newest_input | None \<Rightarrow> True) outputs)"

section \<open>Loading\<close>

definition version_from_string :: "string \<Rightarrow> string option" where
  "version_from_string s =
     (case from_utf8 s of
        None \<Rightarrow> None
      | Some str \<Rightarrow>
          (let major_dot = length (takeWhile (\<lambda>c. c \<noteq> CHR ''.'') str) in
           if major_dot = length str then None
           else
             (let rest = drop (major_dot + 1) str; minor_end = length (takeWhile ascii_digit rest)
              in Some (take (major_dot + 1 + minor_end) str))))"

text \<open>An entry as the archive library gives it: an error, or the last component of its path
  where it has one that is text, and its contents where they can be read.\<close>

datatype archive_entry = Broken_entry | Archive_entry "string option" "string option"

fun find_module :: "string \<Rightarrow> archive_entry list \<Rightarrow> string option" where
  "find_module version [] = None"
| "find_module version (Broken_entry # es) = None"
| "find_module version (Archive_entry None d # es) = None"
| "find_module version (Archive_entry (Some n) d # es) = (if n = version then d else find_module version es)"

record ('w, 'h, 'f) loader =
  embedded :: "archive_entry list option"
  ld_dist_version :: string
  ld_memfd_create :: "'w \<Rightarrow> int \<times> 'w"
  ld_write :: "int \<Rightarrow> string \<Rightarrow> 'w \<Rightarrow> int \<times> 'w"
  dlopen_fd :: "int \<Rightarrow> 'w \<Rightarrow> 'h option \<times> 'w"
  dlsym_impl :: "'h \<Rightarrow> 'w \<Rightarrow> (string \<times> string \<times> 'f) option"
  call_function :: "'f \<Rightarrow> word_list \<Rightarrow> 'w \<Rightarrow> (int \<times> 'w) option"

text \<open>\<open>None\<close>: the loop does not end; otherwise whether all was written.\<close>

partial_function (option) write_all_fd :: "('w, 'h, 'f) loader \<Rightarrow> int \<Rightarrow> string \<Rightarrow> nat \<Rightarrow> 'w \<Rightarrow> (bool \<times> 'w) option" where
  "write_all_fd L fd data pos w =
     (if pos < length data then
        (case ld_write L fd (drop pos data) w of
           (n, w) \<Rightarrow> if n < 0 then Some (False, w) else write_all_fd L fd data (pos + nat n) w)
      else Some (True, w))"

definition load_and_decompress_embedded_so :: "('w, 'h, 'f) loader \<Rightarrow> string \<Rightarrow> 'w \<Rightarrow> ('h option \<times> 'w) option" where
  "load_and_decompress_embedded_so L version w =
     (case Option.bind (embedded L) (find_module version) of
        None \<Rightarrow> Some (None, w)
      | Some so_data \<Rightarrow>
     (case ld_memfd_create L w of (fd, w) \<Rightarrow>
      if fd < 0 then Some (None, w)
      else case write_all_fd L fd so_data 0 w of
        None \<Rightarrow> None
      | Some (False, w) \<Rightarrow> Some (None, w)
      | Some (True, w) \<Rightarrow> Some (dlopen_fd L fd w)))"

text \<open>\<open>FUNC\<close> and the fields of \<open>L_builtin_struct\<close> that change.\<close>

record ('w, 'f) dispatcher =
  FUNC :: "'f option"
  d_short_doc :: string
  d_long_doc :: string
  d_function :: "'f option"
  d_world :: 'w

text \<open>\<open>NoLock::get_or_try_init\<close> on a slot.\<close>

definition get_or_try_init :: "('s \<Rightarrow> 'f option) \<Rightarrow> ('f \<Rightarrow> 's \<Rightarrow> 's) \<Rightarrow> ('s \<Rightarrow> ('f option \<times> 's) option) \<Rightarrow> 's \<Rightarrow> ('f option \<times> 's) option" where
  "get_or_try_init slot put f s =
     (case slot s of
        Some x \<Rightarrow> Some (Some x, s)
      | None \<Rightarrow>
     (case f s of
        None \<Rightarrow> None
      | Some (None, s) \<Rightarrow> Some (None, s)
      | Some (Some x, s) \<Rightarrow> Some (Some x, put x s)))"

definition load_function :: "('w, 'h, 'f) loader \<Rightarrow> ('w, 'f) dispatcher \<Rightarrow> ('f option \<times> ('w, 'f) dispatcher) option" where
  "load_function L st =
     (case version_from_string (ld_dist_version L) of
        None \<Rightarrow> Some (None, st)
      | Some version \<Rightarrow>
     (case load_and_decompress_embedded_so L version (d_world st) of
        None \<Rightarrow> None
      | Some (None, w) \<Rightarrow> Some (None, st\<lparr>d_world := w\<rparr>)
      | Some (Some h, w) \<Rightarrow>
     (case dlsym_impl L h w of
        None \<Rightarrow> Some (None, st\<lparr>d_world := w\<rparr>)
      | Some (sdoc, ldoc, f) \<Rightarrow>
          Some (Some f, st\<lparr>d_short_doc := sdoc, d_long_doc := ldoc, d_function := Some f, d_world := w\<rparr>))))"

definition l_entrypoint_in :: "('w, 'h, 'f) loader \<Rightarrow> word_list \<Rightarrow> ('w, 'f) dispatcher \<Rightarrow> (int option \<times> ('w, 'f) dispatcher) option" where
  "l_entrypoint_in L list st =
     (case get_or_try_init FUNC (\<lambda>f st. st\<lparr>FUNC := Some f\<rparr>) (load_function L) st of
        None \<Rightarrow> None
      | Some (None, st) \<Rightarrow> Some (None, st)
      | Some (Some f, st) \<Rightarrow>
          map_option (\<lambda>(rc, w). (Some rc, st\<lparr>d_world := w\<rparr>)) (call_function L f list (d_world st)))"

definition dispatcher_entrypoint :: "('w, 'h, 'f) loader \<Rightarrow> word_list \<Rightarrow> ('w, 'f) dispatcher \<Rightarrow> (int \<times> ('w, 'f) dispatcher) option" where
  "dispatcher_entrypoint L list st =
     map_option (\<lambda>(r, st). (case r of Some rc \<Rightarrow> rc | None \<Rightarrow> 1, st)) (l_entrypoint_in L list st)"

definition dispatcher_new :: "string \<Rightarrow> string \<Rightarrow> 'w \<Rightarrow> ('w, 'f) dispatcher" where
  "dispatcher_new sdoc ldoc w = \<lparr>FUNC = None, d_short_doc = sdoc, d_long_doc = ldoc, d_function = None, d_world = w\<rparr>"

section \<open>Versions\<close>

lemma takeWhile_end: "list_all P xs \<Longrightarrow> (ys = [] \<or> \<not> P (List.hd ys)) \<Longrightarrow> takeWhile P (xs @ ys) = xs"
  by (induction xs) (cases ys; auto)+

lemma version_from_string_prefix:
  assumes "CHR ''.'' \<notin> set M" "list_all ascii_digit m" "rest = [] \<or> \<not> ascii_digit (List.hd rest)" "utf8_valid (M @ ''.'' @ m @ rest)"
  shows "version_from_string (M @ ''.'' @ m @ rest) = Some (M @ ''.'' @ m)"
proof -
  have "takeWhile (\<lambda>c. c \<noteq> CHR ''.'') (M @ ''.'' @ m @ rest) = M"
    using assms(1) by (intro takeWhile_end) (auto simp: list_all_iff)
  moreover have "takeWhile ascii_digit (m @ rest) = m" by (rule takeWhile_end[OF assms(2,3)])
  ultimately show ?thesis using assms(4) by (simp add: version_from_string_def from_utf8_def Let_def del: utf8_valid.simps)
qed

lemma ascii_digit_sep: "ascii_digit c \<Longrightarrow> c \<noteq> CHR ''.'' \<and> c \<noteq> CHR ''_''"
  by (auto simp: ascii_digit_def in_range_def)

lemma module_version_path:
  assumes "ascii_digit d" "list_all ascii_digit m" "m \<noteq> []" "sep = CHR ''.'' \<or> sep = CHR ''_''"
  shows "module_version (base @ [d, sep] @ m @ ''.so'') = Some (d # CHR ''.'' # m)"
proof -
  have "\<not> ascii_digit sep" using assms(4) ascii_digit_sep by blast
  then have t: "takeWhile ascii_digit (rev m @ sep # d # rev base) = rev m"
    using assms(2) by (intro takeWhile_end) (auto simp: list_all_iff)
  have x: "map (\<lambda>c. if c = CHR ''_'' then CHR ''.'' else c) m = m"
    using assms(2) by (intro map_idI) (auto simp: list_all_iff dest: ascii_digit_sep)
  have "take 3 (rev (base @ [d, sep] @ m @ ''.so'')) = rev ''.so''" "drop 3 (rev (base @ [d, sep] @ m @ ''.so'')) = rev m @ sep # d # rev base"
    by simp_all
  then have "module_version (base @ [d, sep] @ m @ ''.so'') =
      Some (map (\<lambda>c. if c = CHR ''_'' then CHR ''.'' else c) (d # sep # m))"
    using assms(1,3,4) unfolding module_version_def Let_def t by (simp only: t) simp
  then show ?thesis
    using x ascii_digit_sep[OF assms(1)] assms(4) by auto
qed

definition archive_entries :: "(string \<times> string) list \<Rightarrow> archive_entry list" where
  "archive_entries = map (\<lambda>(n, d). Archive_entry (Some n) (Some d))"

lemma find_module_archived:
  "create_archive read paths = Val es \<Longrightarrow>
   find_module v (archive_entries es) = Option.bind (find (\<lambda>p. module_version p = Some v) paths) read"
proof (induction paths arbitrary: es)
  case (Cons p paths)
  then show ?case
    by (auto simp: bindR_eq_Val archive_entries_def split: option.splits)
qed (simp add: archive_entries_def)

lemma archived_readable: "create_archive read paths = Val es \<Longrightarrow> p \<in> set paths \<Longrightarrow> read p \<noteq> None"
  by (induction paths arbitrary: es) (auto simp: bindR_eq_Val split: option.splits)

text \<open>
  C16: the build and the loader agree on names: a bash whose version string starts with a
  major version of one digit, a dot and a minor version finds in the archive the
  contents of the module that was built for it, whichever separator its file name has.
\<close>

theorem bash_finds_its_module:
  assumes "create_archive read paths = Val es" "base @ [d, sep] @ minor @ ''.so'' \<in> set paths"
    and "ascii_digit d" "list_all ascii_digit minor" "minor \<noteq> []" "sep = CHR ''.'' \<or> sep = CHR ''_''"
    and "\<forall>p\<in>set paths. module_version p = Some (d # CHR ''.'' # minor) \<longrightarrow> p = base @ [d, sep] @ minor @ ''.so''"
    and "patch = [] \<or> \<not> ascii_digit (List.hd patch)" "utf8_valid (d # CHR ''.'' # minor @ patch)"
  shows "\<exists>v data. version_from_string (d # CHR ''.'' # minor @ patch) = Some v \<and>
    read (base @ [d, sep] @ minor @ ''.so'') = Some data \<and> find_module v (archive_entries es) = Some data"
proof -
  let ?p = "base @ [d, sep] @ minor @ ''.so''" and ?v = "d # CHR ''.'' # minor"
  have v: "version_from_string (d # CHR ''.'' # minor @ patch) = Some ?v"
    using version_from_string_prefix[of "[d]" minor patch] assms(3,4,8,9) ascii_digit_sep[OF assms(3), THEN conjunct1, THEN not_sym]
    by (simp del: utf8_valid.simps)
  have m: "module_version ?p = Some ?v" by (rule module_version_path[OF assms(3-6)])
  then obtain q where "find (\<lambda>p. module_version p = Some ?v) paths = Some q"
    using assms(2) find_None_iff[of "\<lambda>p. module_version p = Some ?v" paths]
    by (cases "find (\<lambda>p. module_version p = Some ?v) paths") blast+
  moreover from this have "q = ?p" using assms(7) by (auto simp: find_Some_iff)
  ultimately have "find_module ?v (archive_entries es) = read ?p"
    using find_module_archived[OF assms(1), of ?v] by simp
  then show ?thesis using v archived_readable[OF assms(1,2)] by auto
qed

theorem bash_finds_its_module_witness:
  "\<exists>es. create_archive (\<lambda>p. if p = ''b/l-5.2.so'' then Some ''B'' else Some ''A'') [''b/l-4.4.so'', ''b/l-5.2.so''] = Val es \<and>
     find_module ''5.2'' (archive_entries es) = Some ''B'' \<and> version_from_string ''5.2.15(1)'' = Some ''5.2''"
proof -
  let ?read = "\<lambda>p. if p = ''b/l-5.2.so'' then Some ''B'' else Some ''A''" and ?ps = "[''b/l-4.4.so'', ''b/l-5.2.so'']"
  have m: "module_version ''b/l-4.4.so'' = Some ''4.4''" "module_version ''b/l-5.2.so'' = Some ''5.2''"
    by (simp_all add: module_version_def ascii_digit_def in_range_def Let_def)
  have c: "create_archive ?read ?ps = Val [(''4.4'', ''A''), (''5.2'', ''B'')]" by (simp add: m)
  have d: "ascii_digit (CHR ''5'')" "list_all ascii_digit ''2''" "''.15(1)'' = [] \<or> \<not> ascii_digit (List.hd ''.15(1)'')"
    by (simp_all add: ascii_digit_def in_range_def)
  have u: "utf8_valid (CHR ''5'' # CHR ''.'' # ''2'' @ ''.15(1)'')" by (simp add: in_range_def)
  have p: "''b/l-'' @ [CHR ''5'', CHR ''.''] @ ''2'' @ ''.so'' \<in> set ?ps" by simp
  have q: "\<forall>p\<in>set ?ps. module_version p = Some (CHR ''5'' # CHR ''.'' # ''2'') \<longrightarrow> p = ''b/l-'' @ [CHR ''5'', CHR ''.''] @ ''2'' @ ''.so''"
    by (simp add: m)
  have s: "CHR ''.'' = CHR ''.'' \<or> CHR ''.'' = CHR ''_''" "''2'' \<noteq> []" by simp_all
  have "version_from_string ''5.2.15(1)'' = Some ''5.2''"
    using version_from_string_prefix[of "''5''" "''2''" "''.15(1)''"] d u by simp
  then show ?thesis
    using bash_finds_its_module[OF c p d(1,2) s(2,1) q d(3) u] c by auto
qed

text \<open>A major version of two digits is archived under its last digit, and not found.\<close>

lemma two_digit_major_lost:
  "module_version ''l-10.2.so'' = Some ''0.2''" "version_from_string ''10.2'' = Some ''10.2''"
  using version_from_string_prefix[of "''10''" "''2''" "[]"]
  by (simp_all add: module_version_def ascii_digit_def in_range_def Let_def)

section \<open>Loading\<close>

text \<open>\<open>written fd w\<close> is what the memory file holds: a new one is empty, a write fails or appends
  at least a byte of what it is given.\<close>

definition memory_file_laws :: "('w, 'h, 'f) loader \<Rightarrow> (int \<Rightarrow> 'w \<Rightarrow> string) \<Rightarrow> bool" where
  "memory_file_laws L written \<longleftrightarrow>
     (\<forall>w fd w'. ld_memfd_create L w = (fd, w') \<longrightarrow> 0 \<le> fd \<longrightarrow> written fd w' = []) \<and>
     (\<forall>fd bs w n w'. bs \<noteq> [] \<longrightarrow> ld_write L fd bs w = (n, w') \<longrightarrow>
        n < 0 \<or> 0 < n \<and> n \<le> int (length bs) \<and> written fd w' = written fd w @ take (nat n) bs)"

lemma memory_file_writeD:
  assumes "memory_file_laws L written" "ld_write L fd bs w = (n, w')" "bs \<noteq> []" "\<not> n < 0"
  shows "0 < n" "n \<le> int (length bs)" "written fd w' = written fd w @ take (nat n) bs"
  using assms unfolding memory_file_laws_def by blast+

lemma write_all_fd_writes:
  assumes L: "memory_file_laws L written"
  shows "pos \<le> length data \<Longrightarrow>
    \<exists>ok w'. write_all_fd L fd data pos w = Some (ok, w') \<and> (ok \<longrightarrow> written fd w' = written fd w @ drop pos data)"
proof (induction "length data - pos" arbitrary: pos w rule: less_induct)
  case less
  show ?case
  proof (cases "pos < length data")
    case True
    obtain n w1 where w1: "ld_write L fd (drop pos data) w = (n, w1)" by force
    show ?thesis
    proof (cases "n < 0")
      case False
      note f = memory_file_writeD[OF L w1 _ False, simplified]
      have n: "0 < nat n" "pos + nat n \<le> length data" "written fd w1 = written fd w @ take (nat n) (drop pos data)"
        using f True by auto
      obtain ok w' where i: "write_all_fd L fd data (pos + nat n) w1 = Some (ok, w')"
          "ok \<longrightarrow> written fd w' = written fd w1 @ drop (pos + nat n) data"
        using less.hyps[of "pos + nat n" w1, OF _ n(2)] n(1) True by fastforce
      have "take (nat n) (drop pos data) @ drop (pos + nat n) data = drop pos data"
        by (metis append_take_drop_id drop_drop add.commute)
      then show ?thesis using True False w1 i n(3) by (subst write_all_fd.simps) auto
    qed (use True w1 in \<open>subst write_all_fd.simps, auto\<close>)
  qed (use less.prems in \<open>subst write_all_fd.simps, auto\<close>)
qed

lemma load_embedded:
  assumes L: "memory_file_laws L written"
  shows "\<exists>r w'. load_and_decompress_embedded_so L v w = Some (r, w') \<and>
    (\<forall>h. r = Some h \<longrightarrow> (\<exists>es data fd w1. embedded L = Some es \<and> find_module v es = Some data \<and>
       written fd w1 = data \<and> dlopen_fd L fd w1 = (Some h, w')))"
proof (cases "Option.bind (embedded L) (find_module v)")
  case d: (Some data)
  then obtain es where es: "embedded L = Some es" "find_module v es = Some data" by (auto simp: bind_eq_Some_conv)
  obtain fd w1 where m: "ld_memfd_create L w = (fd, w1)" by force
  show ?thesis
  proof (cases "fd < 0")
    case False
    then have "written fd w1 = []" using L m by (auto simp: memory_file_laws_def)
    then obtain ok w2 where w2: "write_all_fd L fd data 0 w1 = Some (ok, w2)" "ok \<Longrightarrow> written fd w2 = data"
      using write_all_fd_writes[OF L, of 0 data fd w1] by auto
    obtain oh w3 where h: "dlopen_fd L fd w2 = (oh, w3)" by force
    show ?thesis
      using False w2 h es by (cases ok) (auto simp: load_and_decompress_embedded_so_def m intro!: exI[of _ fd] exI[of _ w2])
  qed (simp add: load_and_decompress_embedded_so_def es m)
qed (simp add: load_and_decompress_embedded_so_def)

text \<open>
  C15: the first call of the loader returns. Either it fails with 1 and leaves the builtin
  as it was, to be tried again, or the linker has been given a file with exactly the
  bytes of the module for the running version, the builtin has the documentation and the
  function of that module, and the words went to this function.
\<close>

theorem dispatcher_loads:
  assumes L: "memory_file_laws L written" and st: "FUNC st = None"
    and call: "\<forall>f w. call_function L f list w \<noteq> None"
  shows "\<exists>rc st'. dispatcher_entrypoint L list st = Some (rc, st') \<and>
    (rc = 1 \<and> FUNC st' = None \<and> d_short_doc st' = d_short_doc st \<and> d_long_doc st' = d_long_doc st \<and> d_function st' = d_function st \<or>
     (\<exists>v es data fd w h w' f.
        version_from_string (ld_dist_version L) = Some v \<and> embedded L = Some es \<and> find_module v es = Some data \<and>
        written fd w = data \<and> dlopen_fd L fd w = (Some h, w') \<and> dlsym_impl L h w' = Some (d_short_doc st', d_long_doc st', f) \<and>
        FUNC st' = Some f \<and> d_function st' = Some f \<and> call_function L f list w' = Some (rc, d_world st')))"
proof (cases "version_from_string (ld_dist_version L)")
  case None
  then show ?thesis by (simp add: dispatcher_entrypoint_def l_entrypoint_in_def get_or_try_init_def load_function_def st)
next
  case v: (Some v)
  obtain r w' where l: "load_and_decompress_embedded_so L v (d_world st) = Some (r, w')"
      "\<And>h. r = Some h \<Longrightarrow> \<exists>es data fd w1. embedded L = Some es \<and> find_module v es = Some data \<and>
         written fd w1 = data \<and> dlopen_fd L fd w1 = (Some h, w')"
    using load_embedded[OF L, of v "d_world st"] by auto
  note defs = dispatcher_entrypoint_def l_entrypoint_in_def get_or_try_init_def load_function_def st v l(1)
  show ?thesis
  proof (cases "\<exists>h sdoc ldoc f. r = Some h \<and> dlsym_impl L h w' = Some (sdoc, ldoc, f)")
    case True
    then obtain h sdoc ldoc f where t: "r = Some h" "dlsym_impl L h w' = Some (sdoc, ldoc, f)" by blast
    obtain rc w4 where "call_function L f list w' = Some (rc, w4)" using call[rule_format, of f w'] by auto
    then show ?thesis using l(2)[OF t(1)] t v by (fastforce simp: defs)
  next
    case False
    then show ?thesis by (cases r) (auto simp: defs split: option.splits)
  qed
qed

text \<open>A memory file that takes one byte at a time; a module is its bytes.\<close>

definition demo_loader :: "(string, string, string) loader" where
  "demo_loader = \<lparr>embedded = Some [Archive_entry (Some ''4.4'') (Some ''A''), Archive_entry (Some ''5.2'') (Some ''BB'')],
     ld_dist_version = ''5.2'', ld_memfd_create = \<lambda>w. (5, []), ld_write = \<lambda>fd bs w. (1, w @ take 1 bs),
     dlopen_fd = \<lambda>fd w. (Some w, w), dlsym_impl = \<lambda>h w. Some (''s'', ''l'', h), call_function = \<lambda>f list w. Some (int (length f), w)\<rparr>"

lemma demo_loader_laws: "memory_file_laws demo_loader (\<lambda>_ w. w)"
proof -
  have "bs \<noteq> [] \<Longrightarrow> 1 \<le> int (length bs)" for bs :: string by (cases bs) auto
  then show ?thesis by (auto simp: memory_file_laws_def demo_loader_def)
qed

theorem dispatcher_loads_witness:
  "\<exists>st'. dispatcher_entrypoint demo_loader [Some ''x''] (dispatcher_new [] [] []) = Some (2, st') \<and> FUNC st' = Some ''BB''"
proof -
  let ?st = "dispatcher_new [] [] []" and ?L = demo_loader
  have c: "\<forall>f w. call_function ?L f [Some ''x''] w \<noteq> None" and n: "FUNC ?st = None"
    by (simp_all add: demo_loader_def dispatcher_new_def)
  have v: "version_from_string (ld_dist_version ?L) = Some ''5.2''"
    by (simp add: demo_loader_def version_from_string_def from_utf8_def in_range_def ascii_digit_def Let_def)
  have w: "write_all_fd ?L 5 ''BB'' 0 [] = Some (True, ''BB'')"
    by (simp add: write_all_fd.simps demo_loader_def)
  obtain rc st' where d: "dispatcher_entrypoint ?L [Some ''x''] ?st = Some (rc, st')"
      "rc = 1 \<and> FUNC st' = None \<or> (\<exists>v es data f. version_from_string (ld_dist_version ?L) = Some v \<and> embedded ?L = Some es \<and>
         find_module v es = Some data \<and> FUNC st' = Some f \<and> f = data \<and> rc = int (length f))"
    using dispatcher_loads[OF demo_loader_laws n c] by (fastforce simp: demo_loader_def)
  have "FUNC st' \<noteq> None"
  proof
    assume "FUNC st' = None"
    then show False
      using d(1) v w by (simp add: dispatcher_entrypoint_def l_entrypoint_in_def get_or_try_init_def load_function_def
          load_and_decompress_embedded_so_def dispatcher_new_def) (auto simp: demo_loader_def)
  qed
  then have "FUNC st' = Some ''BB''" "rc = 2" using d(2) v by (auto simp: demo_loader_def)
  then show ?thesis using d(1) by auto
qed

text \<open>Later calls go to the function of the module without loading anything.\<close>

lemma loaded_once:
  assumes "FUNC st = Some f"
  shows "dispatcher_entrypoint L list st = map_option (\<lambda>(rc, w). (rc, st\<lparr>d_world := w\<rparr>)) (call_function L f list (d_world st))"
  using assms by (simp add: dispatcher_entrypoint_def l_entrypoint_in_def get_or_try_init_def option.map_comp o_def case_prod_unfold)

end
