(* ===== verification/Allocator.thy ===== *)
theory Allocator
  imports Prelude "HOL-Library.Word"
begin

unbundle bit_operations_syntax

text \<open>
  The global allocator of \<open>l_builtin/src/bash_alloc.rs\<close>: every block comes from bash's
  \<open>xrealloc\<close> with room for its alignment, and the byte before the pointer that is handed
  out says how far it is from the start. A heap has the bytes of the memory and the live
  blocks of bash's allocator with their sizes; the abort of a failed allocation is \<open>Panic\<close>.
\<close>

section \<open>Definitions\<close>

type_synonym addr = "64 word"

record heap =
  bytes :: "addr \<Rightarrow> 8 word"
  blocks :: "(addr \<times> nat) list"

record xalloc_ops =
  xrealloc :: "addr \<Rightarrow> 64 word \<Rightarrow> heap \<Rightarrow> addr \<times> heap"
  xfree :: "addr \<Rightarrow> heap \<Rightarrow> heap"

definition align_up :: "addr \<Rightarrow> 64 word \<Rightarrow> addr" where
  "align_up a align = (a + align - 1) AND NOT (align - 1)"

definition alloc_aligned :: "xalloc_ops \<Rightarrow> addr \<Rightarrow> 64 word \<Rightarrow> 64 word \<Rightarrow> heap \<Rightarrow> (addr \<times> heap) run" where
  "alloc_aligned ops raw sz align h =
     (let total_size = sz + align in
      case xrealloc ops raw total_size h of
        (raw, h) \<Rightarrow>
          if raw = 0 then Panic
          else
            (let aligned_addr = align_up (raw + 1) align;
                 offset = aligned_addr - (raw + 1)
             in Val (aligned_addr, h\<lparr>bytes := (bytes h)(aligned_addr - 1 := ucast offset)\<rparr>)))"

definition raw_from_aligned :: "addr \<Rightarrow> heap \<Rightarrow> addr" where
  "raw_from_aligned ptr h = (let offset = ucast (bytes h (ptr - 1)) in ptr - 1 - offset)"

definition alloc :: "xalloc_ops \<Rightarrow> 64 word \<Rightarrow> 64 word \<Rightarrow> heap \<Rightarrow> (addr \<times> heap) run" where
  "alloc ops sz align h = alloc_aligned ops 0 sz align h"

definition dealloc :: "xalloc_ops \<Rightarrow> addr \<Rightarrow> heap \<Rightarrow> heap" where
  "dealloc ops ptr h = xfree ops (raw_from_aligned ptr h) h"

definition realloc :: "xalloc_ops \<Rightarrow> addr \<Rightarrow> 64 word \<Rightarrow> 64 word \<Rightarrow> heap \<Rightarrow> (addr \<times> heap) run" where
  "realloc ops ptr align new_size h = alloc_aligned ops (raw_from_aligned ptr h) new_size align h"

section \<open>What bash's allocator promises\<close>

text \<open>\<open>a\<close> lies in the block of \<open>n\<close> bytes at \<open>p\<close>.\<close>

definition within :: "addr \<Rightarrow> addr \<Rightarrow> nat \<Rightarrow> bool" where
  "within a p n \<longleftrightarrow> unat p \<le> unat a \<and> unat a < unat p + n"

text \<open>What a successful \<open>xrealloc\<close> returns is a block apart from the other live ones, which
  keep their bytes; it has the bytes of the block it replaces, as far as both go.\<close>

definition realloc_law :: "addr \<Rightarrow> 64 word \<Rightarrow> heap \<Rightarrow> addr \<times> heap \<Rightarrow> bool" where
  "realloc_law p n h res \<longleftrightarrow>
     (case res of (q, h') \<Rightarrow> q \<noteq> 0 \<longrightarrow>
        unat q + unat n < 2 ^ 64 \<and>
        blocks h' = (q, unat n) # filter (\<lambda>b. fst b \<noteq> p) (blocks h) \<and>
        (\<forall>b\<in>set (blocks h). fst b \<noteq> p \<longrightarrow> (\<forall>a. within a (fst b) (snd b) \<longrightarrow> \<not> within a q (unat n) \<and> bytes h' a = bytes h a)) \<and>
        (\<forall>k. (p, k) \<in> set (blocks h) \<longrightarrow> (\<forall>i<min k (unat n). bytes h' (q + of_nat i) = bytes h (p + of_nat i))))"

definition xalloc_laws :: "xalloc_ops \<Rightarrow> bool" where
  "xalloc_laws ops \<longleftrightarrow>
     (\<forall>p n h. (p = 0 \<or> p \<in> fst ` set (blocks h)) \<longrightarrow> realloc_law p n h (xrealloc ops p n h)) \<and>
     (\<forall>p h. p \<in> fst ` set (blocks h) \<longrightarrow> blocks (xfree ops p h) = filter (\<lambda>b. fst b \<noteq> p) (blocks h))"

section \<open>Alignment\<close>

lemma and_not_low: "(x :: 'a::len word) AND NOT (2 ^ k - 1) = x - take_bit k x"
proof -
  have "x AND NOT (2 ^ k - 1) = push_bit k (drop_bit k x)"
    unfolding mask_eq_exp_minus_1[symmetric] by (rule bit_word_eqI) (auto simp: bit_simps)
  also have "\<dots> = x - take_bit k x" using bits_ident[of k x] by (metis add_diff_cancel_right')
  finally show ?thesis .
qed

lemma unat_and_not_low: "unat ((x :: 'a::len word) AND NOT (2 ^ k - 1)) = unat x - unat x mod 2 ^ k"
proof -
  have "unat (take_bit k x) = unat x mod 2 ^ k"
    using unsigned_take_bit_eq[of k x, where 'a = nat] by (simp only: take_bit_eq_mod[of k "unat x"])
  moreover from this have "take_bit k x \<le> x" by (simp add: word_le_nat_alt)
  ultimately show ?thesis by (simp add: and_not_low unat_sub)
qed

lemma align_up_properties:
  assumes k: "k < 64" and room: "unat a + 2 ^ k \<le> 2 ^ 64"
  shows "2 ^ k dvd unat (align_up a (2 ^ k))" "unat a \<le> unat (align_up a (2 ^ k))" "unat (align_up a (2 ^ k)) < unat a + 2 ^ k"
proof -
  let ?x = "unat a + 2 ^ k - 1"
  have one: "(1 :: nat) \<le> 2 ^ k" by simp
  have x: "a + 2 ^ k - 1 = word_of_nat ?x"
  proof -
    have "1 \<le> unat a + 2 ^ k" using one by linarith
    from of_nat_diff[OF this, where 'a = "64 word"] show ?thesis by (simp del: One_nat_def)
  qed
  have "?x < 2 ^ 64" using room one by linarith
  then have u: "unat (a + 2 ^ k - 1) = ?x" unfolding x by (simp add: unat_of_nat)
  have v: "unat (align_up a (2 ^ k)) = ?x - ?x mod 2 ^ k" unfolding align_up_def using unat_and_not_low[of "a + 2 ^ k - 1" k] u by simp
  show "2 ^ k dvd unat (align_up a (2 ^ k))" unfolding v by (rule dvd_minus_mod)
  have m: "?x mod 2 ^ k < 2 ^ k" by simp
  show "unat a \<le> unat (align_up a (2 ^ k))" "unat (align_up a (2 ^ k)) < unat a + 2 ^ k"
    unfolding v using m by linarith+
qed


section \<open>Blocks\<close>

lemma unat_two_power: "k < 64 \<Longrightarrow> unat (2 ^ k :: 64 word) = 2 ^ k"
  using unat_of_nat[of "2 ^ k", where 'a = 64] power_strict_increasing[of k 64 "2 :: nat"] by simp

text \<open>Where the pointer lies in the block that it was taken from.\<close>

lemma alloc_aligned_block:
  assumes a: "alloc_aligned ops p sz (2 ^ k) h = Val (ptr, h')" and k: "k < 64" and room: "unat sz + 2 ^ k < 2 ^ 64"
    and law: "realloc_law p (sz + 2 ^ k) h (xrealloc ops p (sz + 2 ^ k) h)"
  obtains raw h1 where "xrealloc ops p (sz + 2 ^ k) h = (raw, h1)" "raw \<noteq> 0"
    "h' = h1\<lparr>bytes := (bytes h1)(ptr - 1 := ucast (ptr - 1 - raw))\<rparr>" "unat (sz + 2 ^ k) = unat sz + 2 ^ k"
    "2 ^ k dvd unat ptr" "unat raw < unat ptr" "unat ptr \<le> unat raw + 2 ^ k" "unat raw + unat sz + 2 ^ k < 2 ^ 64"
    "ptr = align_up (raw + 1) (2 ^ k)"
proof -
  obtain raw h1 where x: "xrealloc ops p (sz + 2 ^ k) h = (raw, h1)" by force
  have n: "unat (sz + 2 ^ k) = unat sz + 2 ^ k"
    using room unat_two_power[OF k] by (simp add: unat_plus_if_size word_size)
  have v: "raw \<noteq> 0" "ptr = align_up (raw + 1) (2 ^ k)" "h' = h1\<lparr>bytes := (bytes h1)(ptr - 1 := ucast (ptr - 1 - raw))\<rparr>"
    using a by (auto simp: alloc_aligned_def x Let_def diff_diff_eq add.commute split: if_splits)
  have b: "unat raw + unat sz + 2 ^ k < 2 ^ 64" using law v(1) n by (simp add: realloc_law_def x)
  have one: "(1 :: nat) \<le> 2 ^ k" by simp
  have "unat raw + 1 < 2 ^ 64" using b one by linarith
  then have r: "unat (raw + 1) = unat raw + 1" by (simp add: unat_plus_if_size word_size)
  have m: "unat (raw + 1) + 2 ^ k \<le> 2 ^ 64" using b r by linarith
  note al = align_up_properties[OF k m, folded v(2)]
  show ?thesis
    by (rule that[OF x v(1,3) n al(1) _ _ b v(2)]) (use al(2,3) r in linarith)+
qed

lemma unat_in_block: "unat raw < unat ptr \<Longrightarrow> unat (ptr - 1 - raw) = unat ptr - 1 - unat raw" for ptr raw :: addr
proof -
  assume l: "unat raw < unat ptr"
  have a: "1 \<le> ptr" using l by (simp add: word_le_nat_alt)
  have b: "unat (ptr - 1) = unat ptr - 1" using unat_sub[OF a] by simp
  then have "raw \<le> ptr - 1" using l by (simp add: word_le_nat_alt)
  then show ?thesis using unat_sub b by metis
qed

lemma byte_offset:
  assumes "unat raw < unat ptr" "unat ptr \<le> unat raw + 256"
  shows "ptr - 1 - ucast (ucast (ptr - 1 - raw) :: 8 word) = (raw :: addr)"
proof -
  have "unat (ptr - 1 - raw) < 256" using unat_in_block[OF assms(1)] assms by linarith
  then have "ucast (ucast (ptr - 1 - raw) :: 8 word) = ptr - 1 - raw"
    by (simp add: word_unat_eq_iff unsigned_ucast_eq unsigned_take_bit_eq take_bit_nat_eq_self)
  then show ?thesis by simp
qed

text \<open>
  C20: for alignments up to 256 an allocation is a pointer with that alignment to as many
  bytes as were asked for, inside a new block of bash's allocator; whatever is written to
  these bytes, and to nothing else, giving the pointer back frees this block; other
  blocks keep their bytes.
\<close>

theorem alloc_then_free:
  assumes L: "xalloc_laws ops" and k: "k \<le> 8" and room: "unat sz + 2 ^ k < 2 ^ 64"
    and fresh: "\<forall>b\<in>set (blocks h). fst b \<noteq> 0"
    and a: "alloc ops sz (2 ^ k) h = Val (ptr, h')"
    and user: "blocks g = blocks h'" "\<forall>x. \<not> within x ptr (unat sz) \<longrightarrow> bytes g x = bytes h' x"
  shows "\<exists>raw. blocks h' = (raw, unat sz + 2 ^ k) # blocks h \<and> 2 ^ k dvd unat ptr \<and>
    unat raw < unat ptr \<and> unat ptr + unat sz \<le> unat raw + (unat sz + 2 ^ k) \<and>
    dealloc ops ptr g = xfree ops raw g \<and> blocks (dealloc ops ptr g) = filter (\<lambda>b. fst b \<noteq> raw) (blocks h) \<and>
    (\<forall>b\<in>set (blocks h). \<forall>x. within x (fst b) (snd b) \<longrightarrow> bytes h' x = bytes h x)"
proof -
  have k64: "k < 64" using k by simp
  have law: "realloc_law 0 (sz + 2 ^ k) h (xrealloc ops 0 (sz + 2 ^ k) h)" using L by (simp add: xalloc_laws_def)
  obtain raw h1 where x: "xrealloc ops 0 (sz + 2 ^ k) h = (raw, h1)" "raw \<noteq> 0"
      "h' = h1\<lparr>bytes := (bytes h1)(ptr - 1 := ucast (ptr - 1 - raw))\<rparr>" "unat (sz + 2 ^ k) = unat sz + 2 ^ k"
      "2 ^ k dvd unat ptr" "unat raw < unat ptr" "unat ptr \<le> unat raw + 2 ^ k" "unat raw + unat sz + 2 ^ k < 2 ^ 64"
    using alloc_aligned_block[OF a[unfolded alloc_def] k64 room law] by blast
  have "filter (\<lambda>b. fst b \<noteq> 0) (blocks h) = blocks h" using fresh by (simp add: filter_id_conv)
  then have b: "blocks h1 = (raw, unat sz + 2 ^ k) # blocks h" using law x(2,4) by (simp add: realloc_law_def x(1))
  have one: "1 \<le> ptr" using x(6) by (simp add: word_le_nat_alt)
  have ctl: "unat (ptr - 1) = unat ptr - 1" using unat_sub[OF one] by simp
  have "(2 :: nat) ^ k \<le> 2 ^ 8" using k by (intro power_increasing) auto
  then have e: "unat ptr \<le> unat raw + 256" using x(7) by simp
  have "\<not> within (ptr - 1) ptr (unat sz)" using x(6) by (simp add: within_def ctl)
  then have "bytes g (ptr - 1) = ucast (ptr - 1 - raw)" using user(2) x(3) by simp
  then have d: "raw_from_aligned ptr g = raw" using byte_offset[OF x(6) e] by (simp add: raw_from_aligned_def Let_def)
  have "raw \<in> fst ` set (blocks g)" using user(1) b x(3) by simp
  then have f: "blocks (dealloc ops ptr g) = filter (\<lambda>b. fst b \<noteq> raw) (blocks h)"
    using L user(1) b x(3) d by (simp add: xalloc_laws_def dealloc_def)
  have "bytes h' y = bytes h y" if "q \<in> set (blocks h)" "within y (fst q) (snd q)" for q y
  proof -
    have "\<not> within y raw (unat sz + 2 ^ k)" "bytes h1 y = bytes h y"
      using law x(2,4) fresh that by (auto simp: realloc_law_def x(1))
    moreover have "within (ptr - 1) raw (unat sz + 2 ^ k)" using x(6,7) by (simp add: within_def ctl) linarith
    ultimately show ?thesis using x(3) by auto
  qed
  then show ?thesis using b x d f by (intro exI[of _ raw]) (auto simp: dealloc_def)
qed


section \<open>Moving a block\<close>

lemma next_multiple: "m dvd p \<Longrightarrow> r < p \<Longrightarrow> p \<le> r + m \<Longrightarrow> p = r - r mod m + m" for m p r :: nat
proof -
  assume a: "m dvd p" "r < p" "p \<le> r + m"
  then obtain c where c: "p = m * c" by auto
  define q where "q = r div m"
  have m: "0 < m" using a by (cases m) auto
  have r: "r = m * q + r mod m" "r mod m < m" using m by (simp_all add: q_def)
  have "m * q < m * c" using a(2) c r by linarith
  then have 1: "q < c" by simp
  have "m * c < m * (q + 2)" using a(3) c r by (simp add: algebra_simps)
  then have "c < q + 2" by (metis mult_less_cancel1)
  then have "c = q + 1" using 1 by simp
  then show ?thesis using c r by (simp add: algebra_simps)
qed

lemma same_offset:
  fixes m :: nat
  assumes "m dvd p" "r < p" "p \<le> r + m" "m dvd p'" "r' < p'" "p' \<le> r' + m" "r mod m = r' mod m"
  shows "p - r = p' - r'"
  using next_multiple[OF assms(1-3)] next_multiple[OF assms(4-6)] assms(2,5,7)
    mod_less_eq_dividend[of r m] mod_less_eq_dividend[of r' m] by linarith

lemma unat_add_small: "unat (p :: addr) + i < 2 ^ 64 \<Longrightarrow> unat (p + of_nat i) = unat p + i"
  by (simp add: unat_word_ariths unat_of_nat)

lemma realloc_law_bytes:
  "realloc_law p n h (q, h') \<Longrightarrow> q \<noteq> 0 \<Longrightarrow> (p, k) \<in> set (blocks h) \<Longrightarrow> i < k \<Longrightarrow> i < unat n \<Longrightarrow>
   bytes h' (q + of_nat i) = bytes h (p + of_nat i)"
  by (simp add: realloc_law_def)

text \<open>
  C21: \<open>realloc\<close> gives a pointer with the alignment into the block that replaces the old
  one, and under it the bytes at the same distance from the start of the old block. These
  are the contents exactly where the distance is the same, as it is when both blocks start
  at the same remainder modulo the alignment.
\<close>

theorem realloc_contents:
  assumes L: "xalloc_laws ops" and k: "k \<le> 8" and room: "unat new_size + 2 ^ k < 2 ^ 64"
    and live: "(raw, unat sz + 2 ^ k) \<in> set (blocks h)" "raw_from_aligned ptr h = raw"
    and ptr: "2 ^ k dvd unat ptr" "unat raw < unat ptr" "unat ptr \<le> unat raw + 2 ^ k"
    and a: "realloc ops ptr (2 ^ k) new_size h = Val (ptr', h')"
  shows "\<exists>raw'. blocks h' = (raw', unat new_size + 2 ^ k) # filter (\<lambda>b. fst b \<noteq> raw) (blocks h) \<and>
    2 ^ k dvd unat ptr' \<and> raw_from_aligned ptr' h' = raw' \<and>
    (\<forall>i<min (unat sz) (unat new_size). bytes h' (ptr' + of_nat i) = bytes h (raw + of_nat (unat ptr' - unat raw' + i))) \<and>
    (unat raw mod 2 ^ k = unat raw' mod 2 ^ k \<longrightarrow> unat ptr' - unat raw' = unat ptr - unat raw)"
proof -
  have k64: "k < 64" using k by simp
  have "raw \<in> fst ` set (blocks h)" using live(1) by force
  then have law: "realloc_law raw (new_size + 2 ^ k) h (xrealloc ops raw (new_size + 2 ^ k) h)" using L by (simp add: xalloc_laws_def)
  obtain raw' h1 where x: "xrealloc ops raw (new_size + 2 ^ k) h = (raw', h1)" "raw' \<noteq> 0"
      "h' = h1\<lparr>bytes := (bytes h1)(ptr' - 1 := ucast (ptr' - 1 - raw'))\<rparr>" "unat (new_size + 2 ^ k) = unat new_size + 2 ^ k"
      "2 ^ k dvd unat ptr'" "unat raw' < unat ptr'" "unat ptr' \<le> unat raw' + 2 ^ k" "unat raw' + unat new_size + 2 ^ k < 2 ^ 64"
    using alloc_aligned_block[OF a[unfolded realloc_def live(2)] k64 room law] by blast
  have "(2 :: nat) ^ k \<le> 2 ^ 8" using k by (intro power_increasing) auto
  then have "unat ptr' \<le> unat raw' + 256" using x(7) by simp
  then have d: "raw_from_aligned ptr' h' = raw'" using byte_offset[OF x(6)] x(3) by (simp add: raw_from_aligned_def Let_def)
  have "bytes h' (ptr' + of_nat i) = bytes h (raw + of_nat (unat ptr' - unat raw' + i))" if i: "i < min (unat sz) (unat new_size)" for i
  proof -
    let ?j = "unat ptr' - unat raw' + i"
    have "i < unat sz" "i < unat new_size" using i by simp_all
    then have j: "?j < unat sz + 2 ^ k" "?j < unat new_size + 2 ^ k" using x(6,7) by linarith+
    have p: "raw' + of_nat ?j = ptr' + of_nat i"
    proof -
      have "raw' + of_nat ?j = raw' + of_nat (unat ptr' - unat raw') + of_nat i" by simp
      also have "raw' + of_nat (unat ptr' - unat raw') = ptr'" using x(6) by (simp add: of_nat_diff)
      finally show ?thesis .
    qed
    have "unat (ptr' + of_nat i) = unat ptr' + i" using i x(7,8) by (intro unat_add_small) simp
    moreover have "unat (ptr' - 1) = unat ptr' - 1" using x(6) unat_sub[of 1 ptr'] by (simp add: word_le_nat_alt)
    ultimately have "ptr' + of_nat i \<noteq> ptr' - 1" using x(6) by (metis diff_less le_add1 less_nat_zero_code less_one not_gr_zero not_le)
    then have "bytes h' (ptr' + of_nat i) = bytes h1 (ptr' + of_nat i)" using x(3) by simp
    also have "\<dots> = bytes h1 (raw' + of_nat ?j)" by (simp only: p)
    also have "\<dots> = bytes h (raw + of_nat ?j)"
      by (rule realloc_law_bytes[OF law[unfolded x(1)] x(2) live(1) j(1)]) (use j(2) x(4) in simp)
    finally show ?thesis .
  qed
  moreover have "unat raw mod 2 ^ k = unat raw' mod 2 ^ k \<longrightarrow> unat ptr' - unat raw' = unat ptr - unat raw"
    using same_offset[OF ptr x(5-7)] by simp
  moreover have "blocks h' = (raw', unat new_size + 2 ^ k) # filter (\<lambda>b. fst b \<noteq> raw) (blocks h)"
    using law x(2,3,4) by (simp add: realloc_law_def x(1))
  ultimately show ?thesis using x(5) d by (intro exI[of _ raw']) blast
qed

section \<open>An allocator with two places\<close>

text \<open>Blocks start at 4104 and move to 8192; at most 1024 bytes, one block.\<close>

definition two_places :: xalloc_ops where
  "two_places = \<lparr>
     xrealloc = \<lambda>p n h.
       if blocks h = [] \<and> p = 0 \<and> unat n \<le> 1024 then (4104, h\<lparr>blocks := [(4104, unat n)]\<rparr>)
       else case blocks h of
         [(q, k)] \<Rightarrow>
           if p = 4104 \<and> q = 4104 \<and> unat n \<le> 1024 \<and> k \<le> 1024
           then (8192, \<lparr>bytes = \<lambda>a. if unat a < 8192 then bytes h a else bytes h (a - 8192 + 4104), blocks = [(8192, unat n)]\<rparr>)
           else (0, h)
       | _ \<Rightarrow> (0, h),
     xfree = \<lambda>p h. h\<lparr>blocks := filter (\<lambda>b. fst b \<noteq> p) (blocks h)\<rparr>\<rparr>"

lemma two_places_laws: "xalloc_laws two_places"
proof -
  have "realloc_law p n h (xrealloc two_places p n h)" if "p = 0 \<or> p \<in> fst ` set (blocks h)" for p n h
  proof -
    have "8192 \<le> unat (8192 + of_nat i :: addr)" if "i < unat n" "unat n \<le> 1024" for i
      using that by (simp add: unat_add_small)
    then show ?thesis
      by (auto simp: realloc_law_def two_places_def split: list.splits) (simp_all add: not_less[symmetric] add.commute)
  qed
  then show ?thesis by (simp add: xalloc_laws_def two_places_def)
qed


definition empty_heap :: heap where
  "empty_heap = \<lparr>bytes = \<lambda>_. 0, blocks = []\<rparr>"

lemma two_places_alloc:
  "alloc two_places 10 8 empty_heap = Val (4112, \<lparr>bytes = (\<lambda>_. 0)(4111 := 7), blocks = [(4104, 18)]\<rparr>)"
  "alloc two_places 10 16 empty_heap = Val (4112, \<lparr>bytes = (\<lambda>_. 0)(4111 := 7), blocks = [(4104, 26)]\<rparr>)"
  by (simp_all add: alloc_def alloc_aligned_def two_places_def empty_heap_def align_up_def Let_def)

theorem alloc_then_free_witness:
  "\<exists>ptr h. alloc two_places 10 8 empty_heap = Val (ptr, h) \<and> 8 dvd unat ptr \<and>
     blocks (dealloc two_places ptr (h\<lparr>bytes := (bytes h)(ptr := 255)\<rparr>)) = []"
proof -
  let ?h = "\<lparr>bytes = (\<lambda>_. 0)(4111 := 7), blocks = [(4104, 18)]\<rparr> :: heap"
  let ?g = "?h\<lparr>bytes := (bytes ?h)(4112 := 255)\<rparr>"
  have a: "alloc two_places 10 (2 ^ 3) empty_heap = Val (4112, ?h)" using two_places_alloc by simp
  have u: "blocks ?g = blocks ?h" "\<forall>x. \<not> within x 4112 (unat (10 :: 64 word)) \<longrightarrow> bytes ?g x = bytes ?h x"
    by (auto simp: within_def)
  have r: "unat (10 :: 64 word) + 2 ^ 3 < 2 ^ 64" "\<forall>b\<in>set (blocks empty_heap). fst b \<noteq> 0" "(3 :: nat) \<le> 8"
    by (simp_all add: empty_heap_def)
  show ?thesis
    using alloc_then_free[OF two_places_laws r(3,1,2) a u] two_places_alloc(1) by (auto simp: empty_heap_def)
qed

text \<open>An object of ten bytes whose first is 9 keeps its contents at alignment 8.\<close>

definition one_object :: heap where
  "one_object = \<lparr>bytes = (\<lambda>_. 0)(4111 := 7, 4112 := 9), blocks = [(4104, 18)]\<rparr>"

theorem realloc_contents_witness:
  "\<exists>ptr h. realloc two_places 4112 8 20 one_object = Val (ptr, h) \<and> 8 dvd unat ptr \<and> bytes h ptr = 9"
proof -
  obtain ptr h where a: "realloc two_places 4112 (2 ^ 3) 20 one_object = Val (ptr, h)" "unat ptr = 8200"
    by (simp add: realloc_def raw_from_aligned_def one_object_def alloc_aligned_def two_places_def align_up_def Let_def)
  have r: "unat (20 :: 64 word) + 2 ^ 3 < 2 ^ 64" "(3 :: nat) \<le> 8" "raw_from_aligned 4112 one_object = 4104"
    "(4104, unat (10 :: 64 word) + 2 ^ 3) \<in> set (blocks one_object)"
    "2 ^ 3 dvd unat (4112 :: addr)" "unat (4104 :: addr) < unat (4112 :: addr)" "unat (4112 :: addr) \<le> unat (4104 :: addr) + 2 ^ 3"
    by (simp_all add: one_object_def raw_from_aligned_def)
  obtain raw' where q: "2 ^ 3 dvd unat ptr" "raw_from_aligned ptr h = raw'" "blocks h = (raw', 28) # []"
      "\<forall>i<min 10 20. bytes h (ptr + of_nat i) = bytes one_object (4104 + of_nat (unat ptr - unat raw' + i))"
    using realloc_contents[OF two_places_laws r(2,1,4,3,5-7) a(1)] by (auto simp: one_object_def)
  have "raw' = 8192"
    using a(1) q(3) by (auto simp: realloc_def raw_from_aligned_def one_object_def alloc_aligned_def two_places_def Let_def)
  then show ?thesis using q(1) a q(4)[rule_format, of 0] by (auto simp: one_object_def)
qed

section \<open>Where the allocator fails\<close>

text \<open>If bash's allocator only aligns to 8 bytes, a block of alignment 16 that moves to an
  address of another remainder does not have its contents under the new pointer.\<close>

lemma realloc_loses_contents:
  "\<exists>ptr h. realloc two_places 4112 16 20 (one_object\<lparr>blocks := [(4104, 26)]\<rparr>) = Val (ptr, h) \<and> bytes one_object 4112 = 9 \<and> bytes h ptr = 0"
  by (simp add: realloc_def raw_from_aligned_def one_object_def alloc_aligned_def two_places_def align_up_def Let_def)

text \<open>The distance of a pointer with an alignment above 256 may not fit the byte: freeing
  it frees an address that is no block.\<close>

lemma large_alignment_frees_wrong_block:
  "\<exists>ptr h. alloc two_places 10 512 empty_heap = Val (ptr, h) \<and> raw_from_aligned ptr h \<notin> fst ` set (blocks h)"
  by (simp add: alloc_def raw_from_aligned_def empty_heap_def alloc_aligned_def two_places_def align_up_def Let_def)

end
