(* ===== verification/Shared_Session.thy ===== *)
theory Shared_Session
  imports Shm
begin

text \<open>
  Two processes with one store: an assignment to a bound variable in one
  (\<open>shm_array_setter\<close>), an expansion of the variable bound to the same store in the other
  (\<open>shm_array_getter\<close>), each with its own handle, registry and arrays of bash. A process
  may have its handle from a fork; a file or shared-memory object is then opened again
  by its first operation (\<open>flock_refresh\<close>). What the kernel shares between the
  processes is the contents of the store (\<open>db_stored\<close>). On the same terms: what
  \<open>shm drop\<close>, \<open>shm sync\<close> and \<open>shm clear\<close> leave in the store they are given.
\<close>

section \<open>Files that are opened again\<close>

text \<open>\<open>named\<close> is the contents of the file or shared-memory object that a path names.
  Opening it gives a new descriptor of this contents, \<open>F_DUPFD\<close> a new one of the same
  file, and closing one does nothing to the others.\<close>

locale reopening = file_system +
  fixes named :: "db_path \<Rightarrow> 'a \<Rightarrow> string option"
  assumes parent: "create_parent os p w = (x, w') \<Longrightarrow> calm fc os w w' \<and> named q w' = named q w"
    and opened_file: "open_rw_create os p w = (fd, w') \<Longrightarrow> 0 \<le> fd \<Longrightarrow> named (File_path p) w = Some c \<Longrightarrow>
      fc w fd = None \<and> fc w' = (fc w)(fd \<mapsto> c) \<and> getpid os w' = getpid os w"
    and opened_object: "shm_open_create os (shm_object_name nm) w = (fd, w') \<Longrightarrow> 0 \<le> fd \<Longrightarrow> named (Shm_path nm) w = Some c \<Longrightarrow>
      fc w fd = None \<and> fc w' = (fc w)(fd \<mapsto> c) \<and> getpid os w' = getpid os w"
    and dup: "dupfd os fd cx lo w = (n, w') \<Longrightarrow> 0 \<le> n \<Longrightarrow>
      fc w n = None \<and> fc w' = (fc w)(n := fc w fd) \<and> getpid os w' = getpid os w"
    and closed: "fc (close_file os fd w) = (fc w)(fd := None) \<and> getpid os (close_file os fd w) = getpid os w"
begin

lemma high_fd_opened:
  assumes o: "\<And>fd w'. op w = (fd, w') \<Longrightarrow> 0 \<le> fd \<Longrightarrow> fc w fd = None \<and> fc w' = (fc w)(fd \<mapsto> c) \<and> getpid os w' = getpid os w"
    and e: "high_fd os op w = Some (Ok fd, w')"
  shows "fc w fd = None \<and> fc w' = (fc w)(fd \<mapsto> c) \<and> getpid os w' = getpid os w"
proof -
  obtain fd1 w1 where 1: "op w = (fd1, w1)" "0 \<le> fd1"
    using e by (cases "op w") (auto simp: high_fd_def split: if_splits)
  note c1 = o[OF this]
  show ?thesis
  proof (cases "L_FD_MIN \<le> fd1")
    case True
    then show ?thesis using e c1 1 by (auto simp: high_fd_def ensure_high_fd_def split: if_splits)
  next
    case False
    obtain n w2 where d: "dupfd os fd1 True L_FD_MIN w1 = (n, w2)" by fastforce
    then have n: "0 \<le> n" "n = fd" "w' = close_file os fd1 w2"
      using e 1 False by (auto simp: high_fd_def ensure_high_fd_def Let_def split: if_splits)
    note c2 = dup[OF d n(1)]
    have "fd \<noteq> fd1" "fc w fd = None" using c1 c2 n(2) by (auto split: if_splits)
    then show ?thesis using c1 c2 closed[of fd1 w2] n by (auto simp: fun_eq_iff)
  qed
qed

lemma open_flock_fd_named:
  assumes e: "open_flock_fd os path w = Some (Ok fd, w')" and n: "named path w = Some c"
  shows "fc w fd = None \<and> fc w' = (fc w)(fd \<mapsto> c) \<and> getpid os w' = getpid os w"
proof (cases path)
  case (File_path p)
  then obtain w1 where w1: "create_parent os p w = (True, w1)" "high_fd os (open_rw_create os p) w1 = Some (Ok fd, w')"
    using e by (auto simp: open_flock_fd_def thenM_def call_def split: prod.splits if_splits)
  note 1 = parent[OF w1(1)]
  then have "named (File_path p) w1 = Some c" using n File_path by simp
  from high_fd_opened[OF opened_file[OF _ _ this] w1(2)] 1 show ?thesis
    by (auto simp: calm_def fun_eq_iff)
next
  case (Shm_path m)
  then have "named (Shm_path m) w = Some c" "high_fd os (shm_open_create os (shm_object_name m)) w = Some (Ok fd, w')"
    using e n by (simp_all add: open_flock_fd_def shm_open_obj_def)
  then show ?thesis using high_fd_opened[OF opened_object[OF _ _ \<open>named (Shm_path m) w = Some c\<close>]] by blast
qed (use e in \<open>auto simp: open_flock_fd_def fails_def\<close>)

lemma refresh_reopens:
  assumes n: "named (fb_path b) w = Some c" "take 32 c = MAGIC" and old: "fc w (fb_file b) \<noteq> None"
    and p: "fb_pid b \<noteq> getpid os w" and e: "flock_refresh os b w = Some (Ok b', w')"
  shows "fb_pid b' = getpid os w' \<and> fc w' (fb_file b') = Some c"
proof -
  obtain fd w1 where 1: "open_flock_fd_checked os (fb_path b) w = Some (Ok fd, w1)"
      "w' = close_file os (fb_file b) w1" "b' = b\<lparr>fb_file := fd, fb_pid := getpid os w'\<rparr>"
    using e p by (auto simp: flock_refresh_def thenM_def Let_def split: option.splits result.splits prod.splits)
  obtain fd2 w2 where 2: "open_flock_fd os (fb_path b) w = Some (Ok fd2, w2)"
    using 1(1) by (auto simp: open_flock_fd_checked_def thenM_def split: option.splits result.splits prod.splits)
  note o = open_flock_fd_named[OF this n(1)]
  then have "init_or_check_magic os fd2 w2 = Some (Ok (), w2)" using header_kept(1)[of w2 fd2 c] n(2) by simp
  then have "fd2 = fd" "w2 = w1" using 1(1) 2 by (simp_all add: open_flock_fd_checked_def thenM_def or_close_def ret_def)
  moreover have "fd \<noteq> fb_file b" using o old \<open>fd2 = fd\<close> by auto
  ultimately show ?thesis using o closed[of "fb_file b" w1] 1(2,3) by simp
qed

text \<open>An operation on an inherited handle is one on the handle after the refresh.\<close>

lemma flock_do_stale:
  assumes "named (fb_path b) w = Some c" "take 32 c = MAGIC" "fc w (fb_file b) \<noteq> None" "fb_pid b \<noteq> getpid os w"
    and "flock_do os lop body b w = Some (Ok x, b2, w2)"
  obtains b1 w1 where "flock_do os lop body b1 w1 = Some (Ok x, b2, w2)" "fb_pid b1 = getpid os w1" "fc w1 (fb_file b1) = Some c"
proof -
  obtain b1 w1 where r: "flock_refresh os b w = Some (Ok b1, w1)"
    using assms(5) by (auto simp: flock_do_def split: option.splits result.splits prod.splits)
  note 1 = refresh_reopens[OF assms(1-4) r]
  then have "flock_refresh os b1 w1 = Some (Ok b1, w1)" by (simp add: flock_refresh_def)
  then have "flock_do os lop body b1 w1 = Some (Ok x, b2, w2)" using assms(5) r by (auto simp: flock_do_def)
  then show ?thesis using that 1 by blast
qed

end

section \<open>What a store holds\<close>

text \<open>By the descriptor of a handle of this process, by the path of an inherited one.\<close>

fun db_stored :: "'w db_ops \<Rightarrow> ('w \<Rightarrow> int \<Rightarrow> string option) \<Rightarrow> (db_path \<Rightarrow> 'w \<Rightarrow> string option)
    \<Rightarrow> locked_database \<Rightarrow> 'w \<Rightarrow> database option" where
  "db_stored os fc named (Flock b) w =
     Option.bind (if fb_pid b = getpid os w then fc w (fb_file b) else named (fb_path b) w)
       (\<lambda>c. file_system.blob_db os (drop BLOB_OFFSET_FLOCK c))"
| "db_stored os fc named (Memfd b) w =
     Option.bind (fc w (mf_file b)) (\<lambda>c. file_system.blob_db os (drop (rwlock_size os) c))"
| "db_stored os fc named (Mmap b) w =
     (case read_blob_from_mem os (mem_at os (mm_ptr b) (mm_size b) w) (mm_len_offset b) of Ok d \<Rightarrow> Some d | Err _ \<Rightarrow> None)"

text \<open>A handle that can be used: open in this process, or inherited over a fork while the
  path still names a file with the header.\<close>

fun db_usable :: "'w db_ops \<Rightarrow> ('w \<Rightarrow> int \<Rightarrow> string option) \<Rightarrow> (db_path \<Rightarrow> 'w \<Rightarrow> string option)
    \<Rightarrow> locked_database \<Rightarrow> 'w \<Rightarrow> bool" where
  "db_usable os fc named (Flock b) w \<longleftrightarrow>
     (\<exists>c. fc w (fb_file b) = Some c \<and> MAGIC_SIZE \<le> length c) \<and>
     (fb_pid b = getpid os w \<or> (\<exists>c. named (fb_path b) w = Some c \<and> take MAGIC_SIZE c = MAGIC))"
| "db_usable os fc named b w \<longleftrightarrow> db_good os fc b w"

context reopening
begin

lemma handle_db_stored: "db_good os fc b w \<Longrightarrow> handle_db b w = db_stored os fc named b w"
  by (cases b) (auto simp: flock_db_def memfd_db_def mmap_db_def file_db_def split: option.splits)

lemma stale_handle:
  assumes "db_usable os fc named (Flock b) w" "fb_pid b \<noteq> getpid os w" "flock_do os lop body b w = Some (Ok x, b2, w2)"
  obtains b1 w1 where "flock_do os lop body b1 w1 = Some (Ok x, b2, w2)" "db_good os fc (Flock b1) w1"
    "handle_db (Flock b1) w1 = db_stored os fc named (Flock b) w"
proof -
  obtain c where c: "named (fb_path b) w = Some c" "take 32 c = MAGIC" "fc w (fb_file b) \<noteq> None"
    using assms(1,2) by (auto simp: magic_length)
  obtain b1 w1 where 1: "flock_do os lop body b1 w1 = Some (Ok x, b2, w2)" "fb_pid b1 = getpid os w1" "fc w1 (fb_file b1) = Some c"
    by (rule flock_do_stale[OF c assms(2,3)])
  moreover have "db_good os fc (Flock b1) w1" using 1 header_kept(2)[OF 1(3) c(2)] by (simp add: magic_length)
  moreover have "handle_db (Flock b1) w1 = db_stored os fc named (Flock b) w"
    using 1(3) c(1) assms(2) by (simp add: flock_db_def file_db_def)
  ultimately show ?thesis using that by blast
qed

lemma write_stored:
  fixes f :: "database \<Rightarrow> unit \<times> database"
  assumes u: "db_usable os fc named b w" and e: "db_with_write os f b w = Some (Ok u, b', w')"
  shows "\<exists>d. db_stored os fc named b w = Some d \<and> db_stored os fc named b' w' = Some (snd (f d)) \<and> db_good os fc b' w'"
proof -
  have *: ?thesis if "db_good os fc b1 w1" "db_with_write os f b1 w1 = Some (Ok u, b', w')"
    "handle_db b1 w1 = db_stored os fc named b w" for b1 w1
    using handles.updates_contents[OF that(1)[folded handle_good_eq], of f u b' w'] that(2,3)
    by (cases u) (auto simp: handle_good_eq handle_db_stored)
  show ?thesis
  proof (cases "db_good os fc b w")
    case True
    then show ?thesis using *[OF True e] by (simp add: handle_db_stored)
  next
    case False
    then obtain c where c: "b = Flock c" "fb_pid c \<noteq> getpid os w" using u by (cases b) auto
    then obtain c2 where c2: "flock_with_write os f c w = Some (Ok u, c2, w')" "b' = Flock c2"
      using e by (auto simp: db_with_write_def)
    obtain b1 w1 where "flock_with_write os f b1 w1 = Some (Ok u, c2, w')" "db_good os fc (Flock b1) w1"
        "handle_db (Flock b1) w1 = db_stored os fc named b w"
      using stale_handle[OF u[unfolded c(1)] c(2) c2(1)[unfolded flock_with_write_def]] unfolding flock_with_write_def c(1) by metis
    then show ?thesis using *[of "Flock b1" w1] c2(2) by (simp add: db_with_write_def)
  qed
qed

lemma read_stored:
  assumes u: "db_usable os fc named b w" and e: "db_read os b w = Some (Ok d, b', w')"
  shows "db_stored os fc named b w = Some d"
proof (cases "db_good os fc b w")
  case True
  then show ?thesis
    using handles.reads_contents[OF True[folded handle_good_eq] e] by (simp add: handle_db_stored)
next
  case False
  then obtain c where c: "b = Flock c" "fb_pid c \<noteq> getpid os w" using u by (cases b) auto
  then obtain c2 where c2: "flock_read os c w = Some (Ok d, c2, w')" "b' = Flock c2"
    using e by (auto simp: db_read_def)
  obtain b1 w1 where 1: "flock_read os b1 w1 = Some (Ok d, c2, w')" "db_good os fc (Flock b1) w1"
      "handle_db (Flock b1) w1 = db_stored os fc named b w"
    using stale_handle[OF u[unfolded c(1)] c(2) c2(1)[unfolded flock_read_def]] unfolding flock_read_def c(1) by metis
  then have "db_read os (Flock b1) w1 = Some (Ok d, b', w')" using c2(2) by (simp add: db_read_def)
  then show ?thesis using handles.reads_contents[OF 1(2)[folded handle_good_eq]] 1(3) by simp
qed

end

section \<open>The elements of a variable\<close>

definition elements_of :: "database \<Rightarrow> string \<Rightarrow> int \<Rightarrow> string option" where
  "elements_of d var = (case map_of d var of Some (Array_data es) \<Rightarrow> map_of es | _ \<Rightarrow> Map.empty)"

lemma elements_changed:
  "elements_of (snd (change_entry var (insert_index k x) d)) var = (elements_of d var)(k \<mapsto> x)"
proof (cases "map_of d var")
  case None
  then show ?thesis by (simp add: change_entry_def elements_of_def entry_of_def update_conv' var_default_def)
next
  case (Some vd)
  then show ?thesis by (cases vd) (simp_all add: change_entry_def elements_of_def entry_of_def update_conv')
qed

lemma others_kept: "(map_of (snd (change_entry var f d)))(var := None) = (map_of d)(var := None)"
  by (simp add: change_entry_def update_conv' fun_eq_iff)

text \<open>
  C4: when an assignment to an element of a bound variable has written its store, any
  process whose variable is bound to a handle on this store sees the element with its new
  value, and the other elements of the variable as they were, on its next expansion; the
  other variables of the store are as they were. Either process may have its handle from a
  fork, so that its file or object is opened again.
\<close>

theorem element_travels:
  assumes fs: "reopening (h_os E) fc named"
    and p: "bound_db p var = Some i" "k = array_index E var ind (shm_sys p)" "w = arr_put E var k x (shm_sys p)"
      "db_usable (h_os E) fc named (shm_dbs p ! i) w" "i < length (shm_dbs p)"
      "db_with_write (h_os E) (change_entry var (insert_index k x)) (shm_dbs p ! i) w = Some (Ok (), db, w')"
    and d0: "db_stored (h_os E) fc named (shm_dbs p ! i) w = Some d0" "typed_db d0" "nul_free var" "nul_free x"
    and q: "bound_db q var = Some j" "db_usable (h_os E) fc named (shm_dbs q ! j) (shm_sys q)"
      "db_stored (h_os E) fc named (shm_dbs q ! j) (shm_sys q) = db_stored (h_os E) fc named db w'"
      "use_db (db_read (h_os E)) j q = Some (Ok d, q1)"
    and laws: "cell_laws (arr_items E var) (arr_put E var) (arr_del E var)"
  shows "\<exists>p' q'. shm_array_setter E var (Some x) ind p = Some p' \<and> shm_sys p' = w' \<and> shm_dbs p' ! i = db \<and>
    shm_array_getter E var q = Some q' \<and> map_of (arr_items E var (shm_sys q')) = (elements_of d0 var)(k \<mapsto> x) \<and>
    (map_of d)(var := None) = (map_of d0)(var := None)"
proof -
  let ?d = "snd (change_entry var (insert_index k x) d0)"
  have s: "db_stored (h_os E) fc named db w' = Some ?d"
    using reopening.write_stored[OF fs p(4,6)] d0(1) by auto
  have "db_stored (h_os E) fc named (shm_dbs q ! j) (shm_sys q) = Some d"
    using q(4) reopening.read_stored[OF fs q(2)] by (auto simp: use_db_def)
  then have d: "d = ?d" using s q(3) by simp
  have "typed_db ?d" using typed_change[OF d0(2,3)] typed_insert(1) d0(4) by blast
  then have t: "\<And>es. map_of d var = Some (Array_data es) \<Longrightarrow> distinct (map fst es)"
    unfolding d by (auto simp: typed_db_def list_all_iff dest!: map_of_SomeD)
  obtain q' where q': "shm_array_getter E var q = Some q'"
      "map_of (arr_items E var (shm_sys q')) = elements_of d var"
    using getter_contents[OF laws q(1) q(4) t] by (auto simp: elements_of_def)
  have "shm_array_setter E var (Some x) ind p = Some (p\<lparr>shm_dbs := (shm_dbs p)[i := db], shm_sys := w'\<rparr>)"
    using p by (simp add: shm_array_setter_def shm_setter_def ptr_or_empty_def use_db_def on_os_def)
  then show ?thesis using q' p(5) others_kept[of var "insert_index k x" d0] by (simp add: d elements_changed)
qed

section \<open>What the subcommands write\<close>














section \<open>A shell and its child with one file\<close>

text \<open>Files by path next to those by descriptor. A path is opened as the descriptor 91, if
  that is free.\<close>

record path_disk = disk +
  shell_arrays :: "string \<Rightarrow> (int \<times> string) list"
  path_files :: "string \<Rightarrow> string option"

definition path_open :: "string \<Rightarrow> path_disk \<Rightarrow> int \<times> path_disk" where
  "path_open p w =
     (case path_files w p of
        Some c \<Rightarrow> if disk_files w 91 = None then (91, w\<lparr>disk_files := (disk_files w)(91 \<mapsto> c)\<rparr>) else (-1, w)
      | None \<Rightarrow> (-1, w))"

definition path_dup :: "int \<Rightarrow> path_disk \<Rightarrow> int \<times> path_disk" where
  "path_dup fd w =
     (if disk_files w (fd + 80) = None then (fd + 80, w\<lparr>disk_files := (disk_files w)(fd + 80 := disk_files w fd)\<rparr>) else (-1, w))"

definition path_ops :: "path_disk db_ops" where
  "path_ops = (disk_ops demo_enc demo_dec)\<lparr>open_rw_create := path_open, shm_open_create := path_open,
     dupfd := \<lambda>fd _ _. path_dup fd, close_file := \<lambda>fd w. w\<lparr>disk_files := (disk_files w)(fd := None)\<rparr>\<rparr>"

fun path_named :: "db_path \<Rightarrow> path_disk \<Rightarrow> string option" where
  "path_named (File_path p) w = path_files w p"
| "path_named (Shm_path n) w = path_files w (shm_object_name n)"
| "path_named _ w = None"

lemma path_file_system: "file_system path_ops disk_files"
proof -
  have "file_system (disk_ops demo_enc demo_dec) (disk_files :: path_disk \<Rightarrow> int \<Rightarrow> string option)"
    by (rule disk_file_system) (rule demo_codec)
  then show ?thesis unfolding file_system_def calm_def lock_calm_def by (simp add: path_ops_def)
qed

interpretation paths: reopening path_ops disk_files path_named
  by (intro reopening.intro path_file_system, unfold_locales)
    (auto simp: path_ops_def disk_ops_def path_open_def path_dup_def calm_def split: option.splits if_splits)

definition path_env :: "(path_disk, (char \<times> string) list) shm_env" where
  "path_env = \<lparr>h_getopt = demo_getopt [] [], h_vars = \<lparr>legal_identifier = \<lambda>_. True, var_readonly = \<lambda>_ _. False, bind_variable = \<lambda>_ _. Pair True\<rparr>,
     h_os = path_ops, h_texts = \<lambda>_. ([], []), h_lossy = \<lambda>s. s, h_print = \<lambda>_ w. w,
     find_variable = \<lambda>v w. Some (Indexed (AList.clearjunk (shell_arrays w v))), init_dynamic = \<lambda>_ _. Pair True,
     unbind_variable = \<lambda>v w. w\<lparr>shell_arrays := (shell_arrays w)(v := [])\<rparr>, prepare_array = \<lambda>_ _. Pair True,
     arr_items = \<lambda>v w. AList.clearjunk (shell_arrays w v),
     arr_put = \<lambda>v i x w. w\<lparr>shell_arrays := (shell_arrays w)(v := AList.update i x (shell_arrays w v))\<rparr>,
     arr_del = \<lambda>v i w. w\<lparr>shell_arrays := (shell_arrays w)(v := AList.delete i (shell_arrays w v))\<rparr>,
     arr_max = \<lambda>v w. fold max (map fst (shell_arrays w v)) (- 1),
     assoc_items = \<lambda>_ _. [], assoc_put = \<lambda>_ _ _ w. w, assoc_del = \<lambda>_ _ w. w\<rparr>"

lemma path_env_simps: "h_os path_env = path_ops" "h_getopt path_env = demo_getopt [] []"
  "arr_put path_env v i x w = w\<lparr>shell_arrays := (shell_arrays w)(v := AList.update i x (shell_arrays w v))\<rparr>"
  "unbind_variable path_env v w = w\<lparr>shell_arrays := (shell_arrays w)(v := [])\<rparr>"
  by (simp_all add: path_env_def)

lemma path_cells: "cell_laws (arr_items path_env v) (arr_put path_env v) (arr_del path_env v)"
  by (simp add: cell_laws_def path_env_def map_of_clearjunk distinct_clearjunk update_conv' delete_conv')

lemma path_ops_simps:
  "read_exact_at path_ops = disk_pread" "file_len path_ops fd w = map_option length (disk_files w fd)" "set_len path_ops = disk_resize"
  "write_all_at path_ops = disk_pwrite" "sync_all path_ops = (\<lambda>_. Pair True)" "getpid path_ops = disk_pid"
  "flock_call path_ops = (\<lambda>_ _. Pair Flock_ok)" "flock_unlock path_ops fd w = w" "create_parent path_ops = (\<lambda>_. Pair True)"
  "open_rw_create path_ops = path_open" "close_file path_ops fd w = w\<lparr>disk_files := (disk_files w)(fd := None)\<rparr>"
  "to_bytes path_ops = demo_enc" "from_bytes path_ops = demo_dec" "rwlock_size path_ops = 56"
  by (simp_all add: path_ops_def disk_ops_def)

lemma demo_codes [simp]: "demo_dec ''emptydat'' = Some []" "demo_dec ''demoblob'' = Some demo_repr"
  "demo_enc demo_repr = Some ''demoblob''" "demo_enc [] = Some ''emptydat''"
  by (simp_all add: demo_dec_def demo_enc_def demo_repr_def)

lemma path_flock: "flock path_ops fd lop w = Some (Ok (), w)"
  by (subst flock.simps) (simp add: path_ops_simps)

lemma magic_lengths: "length MAGIC = 32" "BLOB_OFFSET_FLOCK = 32" "MAGIC_SIZE = 32"
  by (simp_all add: MAGIC_def BLOB_OFFSET_FLOCK_def MAGIC_SIZE_def)

lemma path_file_io:
  assumes "disk_files w fd = Some (MAGIC @ c)" "length c = 8"
  shows "read_blob_into path_ops fd 32 w = Some (ok_or (demo_dec c) Bad_data, w)"
    "demo_enc d = Some bs \<Longrightarrow> length bs = 8 \<Longrightarrow> write_blob_at path_ops fd d 32 w = Some (Ok (), w\<lparr>disk_files := (disk_files w)(fd \<mapsto> MAGIC @ bs)\<rparr>)"
  using assms by (simp_all add: read_blob_into_def thenM_def read_blob_at_def path_ops_simps disk_pread_def deserialize_def
      write_blob_at_def call_def disk_resize_def disk_pwrite_def magic_lengths)

text \<open>A handle of the process 7 on the file \<open>db\<close>.\<close>

definition db_handle :: locked_database where
  "db_handle = Flock \<lparr>fb_path = File_path ''db'', fb_file = 90, fb_pid = 7\<rparr>"

lemma db_handle_write:
  assumes "disk_pid w = 7" "disk_files w 90 = Some (MAGIC @ c)" "length c = 8" "demo_dec c = Some d"
    and "f d = ((), d')" "demo_enc d' = Some bs" "length bs = 8"
  shows "db_with_write path_ops f db_handle w = Some (Ok (), db_handle, w\<lparr>disk_files := (disk_files w)(90 \<mapsto> MAGIC @ bs)\<rparr>)"
  using assms
  by (simp add: db_handle_def db_with_write_def flock_with_write_def flock_do_def flock_refresh_def with_flock_def thenM_def
      ensuring_def blob_update_def path_flock path_file_io magic_lengths ret_def path_ops_simps)

definition parent :: "string \<Rightarrow> path_disk shm_world" where
  "parent c = \<lparr>shm_registry = [(''v'', 0)], shm_dbs = [db_handle],
     shm_sys = \<lparr>disk_pid = 7, disk_files = [90 \<mapsto> MAGIC @ c], disk_mem = \<lambda>_. [], shell_arrays = \<lambda>_. [], path_files = [''db'' \<mapsto> MAGIC @ c]\<rparr>\<rparr>"

text \<open>A child of it, with the same handle and an old value of the array.\<close>

definition child :: "string \<Rightarrow> path_disk shm_world" where
  "child c = \<lparr>shm_registry = [(''v'', 0)], shm_dbs = [db_handle],
     shm_sys = \<lparr>disk_pid = 8, disk_files = [90 \<mapsto> MAGIC @ c], disk_mem = \<lambda>_. [], shell_arrays = \<lambda>_. [(3, ''old'')], path_files = [''db'' \<mapsto> MAGIC @ c]\<rparr>\<rparr>"

lemma child_read:
  "\<exists>q1. use_db (db_read path_ops) 0 (child ''demoblob'') = Some (Ok demo_repr, q1)"
proof -
  let ?w = "shm_sys (child ''demoblob'')" and ?b = "\<lparr>fb_path = File_path ''db'', fb_file = 90, fb_pid = 7\<rparr>"
  let ?w1 = "?w\<lparr>disk_files := (disk_files ?w)(91 \<mapsto> MAGIC @ ''demoblob'')\<rparr>"
  have "path_open ''db'' ?w = (91, ?w1)" by (simp add: path_open_def child_def)
  then have o: "open_flock_fd path_ops (File_path ''db'') ?w = Some (Ok 91, ?w1)"
    by (simp add: open_flock_fd_def thenM_def call_def high_fd_def ensure_high_fd_def L_FD_MIN_def path_ops_simps)
  have m: "init_or_check_magic path_ops 91 ?w1 = Some (Ok (), ?w1)"
    by (rule paths.header_kept(1)[where c = "MAGIC @ ''demoblob''"]) (simp_all add: magic_lengths)
  obtain b2 w2 where r: "flock_refresh path_ops ?b ?w = Some (Ok b2, w2)" "fb_file b2 = 91" "disk_files w2 91 = Some (MAGIC @ ''demoblob'')"
    using o m by (simp add: flock_refresh_def path_ops_simps child_def open_flock_fd_checked_def thenM_def or_close_def ret_def Let_def)
  have "read_blob_into path_ops 91 32 w2 = Some (Ok demo_repr, w2)"
    using path_file_io(1)[OF r(3)] by simp
  then have "flock_read path_ops ?b ?w = Some (Ok demo_repr, b2, w2)"
    by (simp add: flock_read_def flock_do_def r with_flock_def thenM_def ensuring_def path_flock blob_read_def magic_lengths path_ops_simps)
  moreover have "shm_dbs (child ''demoblob'') ! 0 = Flock ?b" by (simp add: child_def db_handle_def)
  ultimately show ?thesis by (simp add: use_db_def db_read_def)
qed

text \<open>The parent assigns to an element of \<open>v\<close>; the child, which has another array \<open>v\<close>,
  expands it.\<close>

theorem element_travels_witness:
  "\<exists>p' q'. shm_array_setter path_env ''v'' (Some ''a'') 0 (parent ''emptydat'') = Some p' \<and>
     disk_files (shm_sys p') 90 = Some (MAGIC @ ''demoblob'') \<and>
     shm_array_getter path_env ''v'' (child ''demoblob'') = Some q' \<and>
     map_of (arr_items path_env ''v'' (shm_sys q')) = [0 \<mapsto> ''a'']"
proof -
  let ?p = "parent ''emptydat''" and ?q = "child ''demoblob''"
  define w where "w = arr_put path_env ''v'' 0 ''a'' (shm_sys ?p)"
  define w' where "w' = w\<lparr>disk_files := (disk_files w)(90 \<mapsto> MAGIC @ ''demoblob'')\<rparr>"
  have fs: "reopening (h_os path_env) disk_files path_named"
    unfolding path_env_simps by (rule paths.reopening_axioms)
  have e: "change_entry ''v'' (insert_index 0 ''a'') [] = ((), demo_repr)"
    by (simp add: change_entry_def entry_of_def var_default_def demo_repr_def)
  have blob: "file_system.blob_db path_ops c = (if length c < 8 then Some [] else demo_dec c)" for c
    by (simp add: file_system.blob_db_def[OF path_file_system] path_ops_simps)
  have w: "disk_pid w = 7" "disk_files w 90 = Some (MAGIC @ ''emptydat'')"
    by (simp_all add: w_def path_env_simps parent_def)
  have k: "0 = array_index path_env ''v'' 0 (shm_sys ?p)" by (simp add: array_index_def)
  have p: "bound_db ?p ''v'' = Some 0" "0 < length (shm_dbs ?p)" "shm_dbs ?p ! 0 = db_handle"
    "bound_db ?q ''v'' = Some 0" "shm_dbs ?q ! 0 = db_handle"
    by (simp_all add: bound_db_def parent_def child_def)
  have g: "db_usable (h_os path_env) disk_files path_named (shm_dbs ?p ! 0) w"
    "db_usable (h_os path_env) disk_files path_named (shm_dbs ?q ! 0) (shm_sys ?q)"
    using w by (auto simp: p path_env_simps path_ops_simps db_handle_def magic_lengths child_def)
  have u: "db_with_write (h_os path_env) (change_entry ''v'' (insert_index 0 ''a'')) (shm_dbs ?p ! 0) w = Some (Ok (), db_handle, w')"
    unfolding path_env_simps p(3) w'_def by (rule db_handle_write[where d = "[]" and d' = demo_repr, OF w]) (simp_all add: e)
  have st: "db_stored (h_os path_env) disk_files path_named (shm_dbs ?p ! 0) w = Some []"
    "db_stored (h_os path_env) disk_files path_named (shm_dbs ?q ! 0) (shm_sys ?q) =
      db_stored (h_os path_env) disk_files path_named db_handle w'"
    using w by (simp_all add: p path_env_simps path_ops_simps db_handle_def magic_lengths child_def blob w'_def)
  obtain q1 where r: "use_db (db_read (h_os path_env)) 0 ?q = Some (Ok demo_repr, q1)"
    using child_read by (auto simp: path_env_simps)
  have t: "typed_db []" "nul_free ''v''" "nul_free ''a''" by (simp_all add: typed_db_def nul_free_def)
  obtain p' q' where "shm_array_setter path_env ''v'' (Some ''a'') 0 ?p = Some p'" "shm_sys p' = w'"
      "shm_array_getter path_env ''v'' ?q = Some q'" "map_of (arr_items path_env ''v'' (shm_sys q')) = (elements_of [] ''v'')(0 \<mapsto> ''a'')"
    using element_travels[OF fs p(1) k w_def g(1) p(2) u st(1) t p(4) g(2) st(2) r path_cells] by blast
  then show ?thesis by (auto simp: w'_def elements_of_def)
qed








end
