(* ===== verification/Handle_Memory.thy ===== *)
theory Handle_Memory
  imports Builtin_Runs
begin

text \<open>
  Who owns the memory behind the handles: over any sequence of calls of the barrier,
  mutex and semaphore subcommands, the mappings and the named semaphores that the
  process holds on their behalf are those of the live handles. The system calls are
  parameters; a ledger says which mappings and named semaphores the process holds.
\<close>

section \<open>What the system calls do to the memory of the process\<close>

record ('m, 'f, 'g) sync_env =
  barrier_env :: "('m, 'f, 'g) barrier_env"
  mutex_env :: "('m, 'f, 'g) mutex_env"
  semaphore_env :: "('m, 'f, 'g) semaphore_env"

text \<open>The mappings with their addresses and lengths, and the references to named
  semaphores: opening one twice gives the same address and takes two \<open>sem_close\<close>. The
  ledger counts what the process had at first and what these modules add to it.\<close>

record 'm ledger =
  mapped :: "'m \<Rightarrow> (address \<times> nat) multiset"
  opened :: "'m \<Rightarrow> address multiset"

definition same_memory :: "'m ledger \<Rightarrow> 'm \<Rightarrow> 'm \<Rightarrow> bool" where
  "same_memory L m m' \<longleftrightarrow> mapped L m' = mapped L m \<and> opened L m' = opened L m"

definition leaves :: "'m ledger \<Rightarrow> ('m \<Rightarrow> 'a \<times> 'm) \<Rightarrow> bool" where
  "leaves L f \<longleftrightarrow> (\<forall>m. same_memory L m (snd (f m)))"

text \<open>A successful mapping is at an address where none is; a failing call maps nothing.\<close>

definition maps_fresh :: "'m ledger \<Rightarrow> nat \<Rightarrow> ('m \<Rightarrow> address option \<times> 'm) \<Rightarrow> bool" where
  "maps_fresh L sz f \<longleftrightarrow>
     (\<forall>m. case f m of
        (None, m') \<Rightarrow> same_memory L m m'
      | (Some p, m') \<Rightarrow> p \<notin># image_mset fst (mapped L m) \<and> mapped L m' = add_mset (p, sz) (mapped L m) \<and> opened L m' = opened L m)"

definition map_memory :: "'m ledger \<Rightarrow> 'm map_ops \<Rightarrow> bool" where
  "map_memory L os \<longleftrightarrow>
     (\<forall>sz. maps_fresh L sz (mmap_anonymous os sz)) \<and> (\<forall>fd sz. maps_fresh L sz (mmap_shared os fd sz)) \<and>
     (\<forall>p sz m. (p, sz) \<in># mapped L m \<longrightarrow>
        mapped L (munmap os p sz m) = mapped L m - {#(p, sz)#} \<and> opened L (munmap os p sz m) = opened L m) \<and>
     (\<forall>n c. leaves L (shm_open os n c)) \<and> (\<forall>fd sz. leaves L (ftruncate os fd sz)) \<and>
     (\<forall>fd m. same_memory L m (close_fd os fd m)) \<and> (\<forall>n m. same_memory L m (shm_unlink os n m))"

definition opens_one :: "'m ledger \<Rightarrow> ('m \<Rightarrow> address option \<times> 'm) \<Rightarrow> bool" where
  "opens_one L f \<longleftrightarrow>
     (\<forall>m. case f m of
        (None, m') \<Rightarrow> same_memory L m m'
      | (Some p, m') \<Rightarrow> mapped L m' = mapped L m \<and> opened L m' = add_mset p (opened L m))"

definition sem_memory :: "'m ledger \<Rightarrow> ('m, 'f) sem_ops \<Rightarrow> bool" where
  "sem_memory L so \<longleftrightarrow>
     (\<forall>n c v. opens_one L (sem_open so n c v)) \<and>
     (\<forall>p m. p \<in># opened L m \<longrightarrow>
        mapped L (sem_close so p m) = mapped L m \<and> opened L (sem_close so p m) = opened L m - {#p#}) \<and>
     (\<forall>p v. leaves L (sem_init so p v)) \<and> (\<forall>p. leaves L (sem_wait so p)) \<and> (\<forall>p. leaves L (sem_trywait so p)) \<and>
     (\<forall>p ts. leaves L (sem_timedwait so p ts)) \<and> (\<forall>p. leaves L (sem_post so p)) \<and>
     (\<forall>p m. same_memory L m (sem_destroy so p m))"

text \<open>The pthread functions, the counters of a barrier and bash's variables map nothing.\<close>

definition pthread_memory :: "'m ledger \<Rightarrow> ('m, 'f) pthread_ops \<Rightarrow> bool" where
  "pthread_memory L pt \<longleftrightarrow>
     leaves L (mutexattr_init pt) \<and> leaves L (condattr_init pt) \<and> leaves L (mutexattr_setrobust pt) \<and>
     (\<forall>p r. leaves L (pthread_mutex_init pt p r)) \<and> (\<forall>p. leaves L (pthread_cond_init pt p)) \<and>
     (\<forall>p. leaves L (pthread_mutex_lock pt p)) \<and> (\<forall>p. leaves L (pthread_mutex_trylock pt p)) \<and>
     (\<forall>p ts. leaves L (pthread_mutex_timedlock pt p ts)) \<and> (\<forall>p. leaves L (pthread_mutex_consistent pt p)) \<and>
     (\<forall>p. leaves L (pthread_mutex_unlock pt p)) \<and> (\<forall>p. leaves L (pthread_cond_wait pt p)) \<and>
     (\<forall>p ts. leaves L (pthread_cond_timedwait pt p ts)) \<and> (\<forall>p m. same_memory L m (pthread_cond_broadcast pt p m))"

definition memory_laws :: "'m ledger \<Rightarrow> ('m, 'f, 'g) sync_env \<Rightarrow> bool" where
  "memory_laws L E \<longleftrightarrow>
     map_memory L (b_map (barrier_env E)) \<and> map_memory L (m_map (mutex_env E)) \<and> map_memory L (s_map (semaphore_env E)) \<and>
     pthread_memory L (b_pt (barrier_env E)) \<and> pthread_memory L (m_pt (mutex_env E)) \<and> sem_memory L (s_sem (semaphore_env E)) \<and>
     (\<forall>p x m. same_memory L m (bar_put (b_mem (barrier_env E)) p x m)) \<and>
     (\<forall>v x. leaves L (bind_variable (b_vars (barrier_env E)) v x)) \<and>
     (\<forall>v x. leaves L (bind_variable (m_vars (mutex_env E)) v x)) \<and>
     (\<forall>v x. leaves L (bind_variable (s_vars (semaphore_env E)) v x))"

section \<open>The calls\<close>

text \<open>\<open>n\<close> calls so far. In between, the rest of the process and other processes do
  what they want, but for the memory of the ledger.\<close>

definition proc_new :: "'m \<Rightarrow> 'm proc" where
  "proc_new k = \<lparr>barriers = registry_new, mutexes = registry_new, semaphores = registry_new, sys = k\<rparr>"

inductive handle_calls :: "'m ledger \<Rightarrow> ('m, 'f, 'g) sync_env \<Rightarrow> 'm \<Rightarrow> nat \<Rightarrow> 'm proc \<Rightarrow> bool"
  for L E k where
  none: "handle_calls L E k 0 (proc_new k)"
| barrier: "handle_calls L E k n (world s) \<Longrightarrow> barrier_subcommand (barrier_env E) list s = Some (Val (r, s')) \<Longrightarrow>
    handle_calls L E k (Suc n) (world s')"
| mutex: "handle_calls L E k n (world s) \<Longrightarrow> mutex_subcommand (mutex_env E) list s = Some (Val (r, s')) \<Longrightarrow>
    handle_calls L E k (Suc n) (world s')"
| semaphore: "handle_calls L E k n (world s) \<Longrightarrow> semaphore_subcommand (semaphore_env E) list s = Some (Val (r, s')) \<Longrightarrow>
    handle_calls L E k (Suc n) (world s')"
| elsewhere: "handle_calls L E k n p \<Longrightarrow> same_memory L (sys p) m \<Longrightarrow> handle_calls L E k n (p\<lparr>sys := m\<rparr>)"

text \<open>The memory that the live handles stand for. A semaphore with a name is one of the
  kernel, every other handle a mapping.\<close>

definition live :: "registry \<Rightarrow> handle_entry multiset" where
  "live r = image_mset snd (mset (reg_map r))"

definition regions :: "nat \<Rightarrow> handle_entry multiset \<Rightarrow> (address \<times> nat) multiset" where
  "regions sz es = image_mset (\<lambda>e. (he_ptr e, sz)) es"

definition nameless :: "handle_entry multiset \<Rightarrow> handle_entry multiset" where
  "nameless es = filter_mset (\<lambda>e. he_name e = None) es"

definition handle_mappings :: "('m, 'f, 'g) sync_env \<Rightarrow> 'm proc \<Rightarrow> (address \<times> nat) multiset" where
  "handle_mappings E p =
     regions (barrier_bytes (b_mem (barrier_env E))) (live (barriers p)) + regions (mutex_bytes (mutex_env E)) (live (mutexes p)) +
     regions (semaphore_bytes (semaphore_env E)) (nameless (live (semaphores p)))"

definition handle_semaphores :: "'m proc \<Rightarrow> address multiset" where
  "handle_semaphores p = image_mset he_ptr (filter_mset (\<lambda>e. he_name e \<noteq> None) (live (semaphores p)))"

section \<open>Registries\<close>

lemma live_store:
  assumes "registry_inv r"
  shows "live (snd (registry_store p n r)) = add_mset \<lparr>he_ptr = p, he_name = n\<rparr> (live r)"
proof -
  have u: "i \<notin> fst ` set al \<Longrightarrow> image_mset snd (mset (AList.update i e al)) = add_mset e (image_mset snd (mset al))"
    for i :: "64 word" and e :: handle_entry and al
    by (induction al) auto
  have "reg_next r \<notin> fst ` set (reg_map r)" using assms by (auto simp: registry_inv_def)
  from u[OF this] show ?thesis by (simp add: live_def registry_store_def Let_def)
qed

lemma delete_one:
  "distinct (map fst al) \<Longrightarrow> map_of al i = Some e \<Longrightarrow> mset al = add_mset (i, e) (mset (AList.delete i al))"
proof (induction al)
  case (Cons a al)
  have "i \<notin> fst ` set al \<Longrightarrow> AList.delete i al = al" by (simp add: delete_id)
  then show ?case using Cons by (cases a) (auto split: if_splits)
qed simp

lemma live_take:
  assumes "registry_inv r" "registry_take i r = (x, r')"
  shows "case x of None \<Rightarrow> live r' = live r | Some e \<Rightarrow> live r = add_mset e (live r')"
proof (cases x)
  case None
  then have "AList.delete i (reg_map r) = reg_map r"
    using assms(2) by (intro delete_id) (auto simp: registry_take_def map_of_eq_None_iff)
  then show ?thesis using assms(2) None by (auto simp: live_def registry_take_def)
next
  case (Some e)
  then show ?thesis using delete_one[of "reg_map r" i e] assms by (auto simp: live_def registry_take_def registry_inv_def)
qed

section \<open>The invariant\<close>

text \<open>\<open>xm\<close> and \<open>xs\<close> are the mappings and semaphores that a subcommand has on its hands.\<close>

definition counters :: "nat \<Rightarrow> 'm proc \<Rightarrow> bool" where
  "counters n p \<longleftrightarrow> (\<forall>r\<in>{barriers p, mutexes p, semaphores p}. registry_inv r \<and> unat (reg_next r) \<le> Suc n)"

text \<open>No other mapping in \<open>M\<close> is at the address of one of \<open>H\<close>.\<close>

definition sole :: "(address \<times> nat) multiset \<Rightarrow> (address \<times> nat) multiset \<Rightarrow> bool" where
  "sole H M \<longleftrightarrow> (\<forall>a\<in>#image_mset fst H. Multiset.count (image_mset fst M) a = 1)"

lemma sole_fresh:
  assumes "sole H M" "H \<subseteq># M" "fst x \<notin># image_mset fst M"
  shows "sole (add_mset x H) (add_mset x M)"
proof -
  have "a \<in># image_mset fst H \<Longrightarrow> a \<noteq> fst x" for a
    using assms(3) image_mset_subseteq_mono[OF assms(2), of fst] by (metis mset_subset_eqD)
  then show ?thesis using assms(1,3) unfolding sole_def not_in_iff by auto
qed

lemma sole_less:
  assumes "sole (add_mset x H) (add_mset x M)" "H \<subseteq># M"
  shows "sole H M"
  unfolding sole_def
proof
  fix a assume a: "a \<in># image_mset fst H"
  then have "a \<in># image_mset fst M" using image_mset_subseteq_mono[OF assms(2), of fst] by (rule mset_subset_eqD[rotated])
  then have "Multiset.count (image_mset fst M) a > 0" by (simp only: count_greater_zero_iff)
  moreover have "Multiset.count (image_mset fst (add_mset x M)) a = 1" using assms(1) a unfolding sole_def by auto
  moreover have "Multiset.count (image_mset fst (add_mset x M)) a = Multiset.count (image_mset fst M) a + (if fst x = a then 1 else 0)" by simp
  ultimately show "Multiset.count (image_mset fst M) a = 1" by (simp only: split: if_splits)
qed

definition owned :: "'m ledger \<Rightarrow> ('m, 'f, 'g) sync_env \<Rightarrow> 'm \<Rightarrow> nat \<Rightarrow> (address \<times> nat) multiset \<Rightarrow> address multiset \<Rightarrow> 'm proc \<Rightarrow> bool" where
  "owned L E k n xm xs p \<longleftrightarrow>
     counters n p \<and> mapped L (sys p) = mapped L k + handle_mappings E p + xm \<and> opened L (sys p) = opened L k + handle_semaphores p + xs \<and>
     sole (handle_mappings E p + xm) (mapped L (sys p))"

abbreviation settled where
  "settled L E k n p \<equiv> owned L E k n {#} {#} p"

lemma handle_multisets_sys [simp]:
  "handle_mappings E (p\<lparr>sys := m\<rparr>) = handle_mappings E p" "handle_semaphores (p\<lparr>sys := m\<rparr>) = handle_semaphores p"
  "counters n (p\<lparr>sys := m\<rparr>) = counters n p"
  by (simp_all add: handle_mappings_def handle_semaphores_def counters_def)

lemma world_set_sys [simp]: "world (set_sys m s) = (world s)\<lparr>sys := m\<rparr>"
  by (simp add: set_sys_def)

lemma owned_same: "owned L E k n xm xs p \<Longrightarrow> same_memory L (sys p) m \<Longrightarrow> owned L E k n xm xs (p\<lparr>sys := m\<rparr>)"
  by (auto simp: owned_def same_memory_def)

lemma owned_leaves:
  assumes "owned L E k n xm xs (world s)" "leaves L f" "on_sys f s = (x, s')"
  shows "owned L E k n xm xs (world s')"
  using assms(3) owned_same[OF assms(1), of "snd (f (sys (world s)))"] assms(2)
  by (auto simp: on_sys_def leaves_def split: prod.splits)

lemma owned_more: "owned L E k n xm xs p \<Longrightarrow> owned L E k (Suc n) xm xs p"
  by (auto simp: owned_def counters_def)

lemma owned_maps:
  assumes o: "owned L E k n {#} xs (world s)" and f: "maps_fresh L sz f" and e: "on_sys f s = (x, s')"
  shows "case x of None \<Rightarrow> owned L E k n {#} xs (world s') | Some p \<Rightarrow> owned L E k n {#(p, sz)#} xs (world s')"
proof -
  obtain m' where m': "f (sys (world s)) = (x, m')" "world s' = (world s)\<lparr>sys := m'\<rparr>"
    using e by (auto simp: on_sys_def split: prod.splits)
  show ?thesis
  proof (cases x)
    case None
    then show ?thesis using f m' owned_same[OF o] by (auto simp: maps_fresh_def dest!: spec[where x = "sys (world s)"])
  next
    case (Some p)
    then have "p \<notin># image_mset fst (mapped L (sys (world s)))" "mapped L m' = add_mset (p, sz) (mapped L (sys (world s)))"
      "opened L m' = opened L (sys (world s))"
      using spec[OF f[unfolded maps_fresh_def], of "sys (world s)"] m' Some by auto
    then show ?thesis
      using o Some sole_fresh[of "handle_mappings E (world s)" "mapped L k + handle_mappings E (world s)" "(p, sz)"]
      by (auto simp: owned_def m'(2) image_Un)
  qed
qed

lemma owned_unmap:
  assumes o: "owned L E k n {#(p, sz)#} xs (world s)" and L: "map_memory L os"
  shows "owned L E k n {#} xs ((world s)\<lparr>sys := munmap os p sz (sys (world s))\<rparr>)"
proof -
  let ?m = "munmap os p sz (sys (world s))"
  have "(p, sz) \<in># mapped L (sys (world s))" using o by (simp add: owned_def)
  then have m: "mapped L ?m = mapped L (sys (world s)) - {#(p, sz)#}" "opened L ?m = opened L (sys (world s))"
    using L by (auto simp: map_memory_def)
  show ?thesis
    using o sole_less[of "(p, sz)" "handle_mappings E (world s)" "mapped L k + handle_mappings E (world s)"]
    by (auto simp: owned_def m)
qed

lemma owned_opens:
  assumes o: "settled L E k n (world s)" and L: "sem_memory L so" and e: "on_sys (sem_open so nm c v) s = (x, s')"
  shows "case x of None \<Rightarrow> settled L E k n (world s') | Some p \<Rightarrow> owned L E k n {#} {#p#} (world s')"
proof -
  obtain m' where m': "sem_open so nm c v (sys (world s)) = (x, m')" "world s' = (world s)\<lparr>sys := m'\<rparr>"
    using e by (auto simp: on_sys_def split: prod.splits)
  have "opens_one L (sem_open so nm c v)" using L by (simp add: sem_memory_def)
  then have "case x of None \<Rightarrow> same_memory L (sys (world s)) m'
      | Some p \<Rightarrow> mapped L m' = mapped L (sys (world s)) \<and> opened L m' = add_mset p (opened L (sys (world s)))"
    unfolding opens_one_def using m'(1) by (auto dest!: spec[where x = "sys (world s)"] split: option.splits)
  then show ?thesis using o owned_same[OF o] by (auto simp: m'(2) owned_def split: option.splits)
qed

lemma owned_closes:
  assumes o: "owned L E k n {#} {#p#} (world s)" and L: "sem_memory L so"
  shows "settled L E k n ((world s)\<lparr>sys := sem_close so p (sys (world s))\<rparr>)"
proof -
  have "p \<in># opened L (sys (world s))" using o by (simp add: owned_def)
  then show ?thesis using o L by (auto simp: owned_def sem_memory_def)
qed

lemma counters_room:
  assumes "counters n p" "n + 2 < 2 ^ 64"
  shows "registry_room (barriers p)" "registry_room (mutexes p)" "registry_room (semaphores p)"
proof -
  have "registry_room r" if "unat (reg_next r) \<le> Suc n" for r
    using that assms(2) by (auto simp: registry_room_def unsigned_minus_1_eq_mask mask_eq_exp_minus_1)
  then show "registry_room (barriers p)" "registry_room (mutexes p)" "registry_room (semaphores p)"
    using assms(1) by (auto simp: counters_def)
qed

lemma store_counts:
  assumes "registry_inv r" "registry_room r"
  shows "registry_inv (snd (registry_store p n r)) \<and> unat (reg_next (snd (registry_store p n r))) = Suc (unat (reg_next r))"
  using reg.store_inv[OF assms] assms(2) by (simp add: registry_store_def Let_def registry_room_def unat_add_one)

lemma owned_store:
  assumes n: "n + 2 < 2 ^ 64"
  shows "owned L E k n {#(p, barrier_bytes (b_mem (barrier_env E)))#} {#} (world s) \<Longrightarrow> store_barrier p nm s = (i, s') \<Longrightarrow>
      settled L E k (Suc n) (world s')"
    "owned L E k n {#(p, mutex_bytes (mutex_env E))#} {#} (world s) \<Longrightarrow> store_mutex p nm s = (i, s') \<Longrightarrow>
      settled L E k (Suc n) (world s')"
    "owned L E k n {#(p, semaphore_bytes (semaphore_env E))#} {#} (world s) \<Longrightarrow> store_semaphore p None s = (i, s') \<Longrightarrow>
      settled L E k (Suc n) (world s')"
    "owned L E k n {#} {#p#} (world s) \<Longrightarrow> store_semaphore p (Some x) s = (i, s') \<Longrightarrow> settled L E k (Suc n) (world s')"
proof -
  have c: "counters n (world s) \<Longrightarrow> counters (Suc n) ((world s)\<lparr>barriers := snd (registry_store p nm (barriers (world s)))\<rparr>)"
    "counters n (world s) \<Longrightarrow> counters (Suc n) ((world s)\<lparr>mutexes := snd (registry_store p nm (mutexes (world s)))\<rparr>)"
    "counters n (world s) \<Longrightarrow> counters (Suc n) ((world s)\<lparr>semaphores := snd (registry_store p nm (semaphores (world s)))\<rparr>)" for nm
    using counters_room[OF _ n, of "world s"] store_counts[of "barriers (world s)" p nm]
      store_counts[of "mutexes (world s)" p nm] store_counts[of "semaphores (world s)" p nm]
    by (auto simp: counters_def)
  have i: "counters n (world s) \<Longrightarrow> registry_inv (barriers (world s)) \<and> registry_inv (mutexes (world s)) \<and> registry_inv (semaphores (world s))"
    by (simp add: counters_def)
  note d = owned_def handle_mappings_def handle_semaphores_def live_store regions_def nameless_def
  have w: "store_barrier p nm s = (i, s') \<Longrightarrow> world s' = (world s)\<lparr>barriers := snd (registry_store p nm (barriers (world s)))\<rparr>"
    "store_mutex p nm s = (i, s') \<Longrightarrow> world s' = (world s)\<lparr>mutexes := snd (registry_store p nm (mutexes (world s)))\<rparr>"
    "store_semaphore p nm s = (i, s') \<Longrightarrow> world s' = (world s)\<lparr>semaphores := snd (registry_store p nm (semaphores (world s)))\<rparr>" for nm
    by (auto simp: store_barrier_def store_mutex_def store_semaphore_def split: prod.splits)
  show "owned L E k n {#(p, barrier_bytes (b_mem (barrier_env E)))#} {#} (world s) \<Longrightarrow> store_barrier p nm s = (i, s') \<Longrightarrow>
      settled L E k (Suc n) (world s')"
    using c(1)[of nm] i w(1)[of nm] by (auto simp: d)
  show "owned L E k n {#(p, mutex_bytes (mutex_env E))#} {#} (world s) \<Longrightarrow> store_mutex p nm s = (i, s') \<Longrightarrow>
      settled L E k (Suc n) (world s')"
    using c(2)[of nm] i w(2)[of nm] by (auto simp: d)
  show "owned L E k n {#(p, semaphore_bytes (semaphore_env E))#} {#} (world s) \<Longrightarrow> store_semaphore p None s = (i, s') \<Longrightarrow>
      settled L E k (Suc n) (world s')"
    using c(3)[of None] i w(3)[of None] by (auto simp: d)
  show "owned L E k n {#} {#p#} (world s) \<Longrightarrow> store_semaphore p (Some x) s = (i, s') \<Longrightarrow> settled L E k (Suc n) (world s')"
    using c(3)[of "Some x"] i w(3)[of "Some x"] by (auto simp: d)
qed

lemma take_counts:
  "registry_inv r \<Longrightarrow> registry_inv (snd (registry_take i r)) \<and> reg_next (snd (registry_take i r)) = reg_next r"
  using reg.take_inv by (simp add: registry_take_def)

text \<open>Taking a handle out leaves its memory on the hands of the subcommand.\<close>

lemma owned_take:
  assumes o: "settled L E k n (world s)"
  shows "take_barrier i s = (Some e, s') \<Longrightarrow> owned L E k n {#(he_ptr e, barrier_bytes (b_mem (barrier_env E)))#} {#} (world s')"
    "take_barrier i s = (None, s') \<Longrightarrow> settled L E k n (world s')"
    "get_mutex_handle i s = (Ok e, s') \<Longrightarrow> owned L E k n {#(he_ptr e, mutex_bytes (mutex_env E))#} {#} (world s')"
    "get_mutex_handle i s = (Err x, s') \<Longrightarrow> settled L E k n (world s')"
    "take_semaphore i s = (Some e, s') \<Longrightarrow>
      owned L E k n (if he_name e = None then {#(he_ptr e, semaphore_bytes (semaphore_env E))#} else {#})
        (if he_name e = None then {#} else {#he_ptr e#}) (world s')"
    "take_semaphore i s = (None, s') \<Longrightarrow> settled L E k n (world s')"
proof -
  have i: "registry_inv (barriers (world s))" "registry_inv (mutexes (world s))" "registry_inv (semaphores (world s))"
    using o by (simp_all add: owned_def counters_def)
  have c: "counters n ((world s)\<lparr>barriers := snd (registry_take i (barriers (world s)))\<rparr>)"
    "counters n ((world s)\<lparr>mutexes := snd (registry_take i (mutexes (world s)))\<rparr>)"
    "counters n ((world s)\<lparr>semaphores := snd (registry_take i (semaphores (world s)))\<rparr>)"
    using o take_counts[OF i(1)] take_counts[OF i(2)] take_counts[OF i(3)] by (auto simp: owned_def counters_def)
  note t = live_take[OF i(1) prod.collapse[symmetric], of i] live_take[OF i(2) prod.collapse[symmetric], of i]
    live_take[OF i(3) prod.collapse[symmetric], of i]
  note d = owned_def handle_mappings_def handle_semaphores_def regions_def nameless_def
  have b: "take_barrier i s = (x, s') \<Longrightarrow> fst (registry_take i (barriers (world s))) = x \<and>
      world s' = (world s)\<lparr>barriers := snd (registry_take i (barriers (world s)))\<rparr>" for x
    by (auto simp: take_barrier_def split: prod.splits)
  have m: "get_mutex_handle i s = (y, s') \<Longrightarrow> ok_or (fst (registry_take i (mutexes (world s)))) EXECUTION_FAILURE = y \<and>
      world s' = (world s)\<lparr>mutexes := snd (registry_take i (mutexes (world s)))\<rparr>" for y
    by (auto simp: get_mutex_handle_def split: prod.splits)
  have e: "take_semaphore i s = (x, s') \<Longrightarrow> fst (registry_take i (semaphores (world s))) = x \<and>
      world s' = (world s)\<lparr>semaphores := snd (registry_take i (semaphores (world s)))\<rparr>" for x
    by (auto simp: take_semaphore_def split: prod.splits)
  show "take_barrier i s = (Some e, s') \<Longrightarrow> owned L E k n {#(he_ptr e, barrier_bytes (b_mem (barrier_env E)))#} {#} (world s')"
    using b[of "Some e"] t(1) c(1) o by (auto simp: d)
  show "take_barrier i s = (None, s') \<Longrightarrow> settled L E k n (world s')"
    using b[of None] t(1) c(1) o by (auto simp: d)
  show "get_mutex_handle i s = (Ok e, s') \<Longrightarrow> owned L E k n {#(he_ptr e, mutex_bytes (mutex_env E))#} {#} (world s')"
    using m[of "Ok e"] t(2) c(2) o by (auto simp: d ok_or_Ok)
  show "get_mutex_handle i s = (Err x, s') \<Longrightarrow> settled L E k n (world s')"
    using m[of "Err x"] t(2) c(2) o by (auto simp: d ok_or_Err)
  show "take_semaphore i s = (Some e, s') \<Longrightarrow>
      owned L E k n (if he_name e = None then {#(he_ptr e, semaphore_bytes (semaphore_env E))#} else {#})
        (if he_name e = None then {#} else {#he_ptr e#}) (world s')"
    using e[of "Some e"] t(3) c(3) o by (auto simp: d)
  show "take_semaphore i s = (None, s') \<Longrightarrow> settled L E k n (world s')"
    using e[of None] t(3) c(3) o by (auto simp: d)
qed

section \<open>What the operations leave\<close>

lemma same_refl: "same_memory L m m"
  by (simp add: same_memory_def)

lemma same_trans: "same_memory L m m' \<Longrightarrow> same_memory L m' m'' \<Longrightarrow> same_memory L m m''"
  by (simp add: same_memory_def)

lemma leavesD: "leaves L f \<Longrightarrow> f m = (x, m') \<Longrightarrow> same_memory L m m'"
  by (auto simp: leaves_def dest: spec[where x = m])

lemma leavesI: "(\<And>m x m'. f m = (x, m') \<Longrightarrow> same_memory L m m') \<Longrightarrow> leaves L f"
  unfolding leaves_def using prod.collapse by metis

lemma leaves_bind: "leaves L f \<Longrightarrow> (\<And>x. leaves L (g x)) \<Longrightarrow> leaves L (\<lambda>m. case f m of (x, m) \<Rightarrow> g x m)"
  unfolding leaves_def by (auto split: prod.splits) (metis same_trans snd_conv)

lemma leaves_pair: "leaves L (Pair x)"
  by (simp add: leaves_def same_refl)

lemma leaves_if: "leaves L f \<Longrightarrow> leaves L g \<Longrightarrow> leaves L (\<lambda>m. if b then f m else g m)"
  by (simp add: leaves_def)

lemma leaves_then: "(\<And>m. same_memory L m (h m)) \<Longrightarrow> leaves L (\<lambda>m. (x, h m))"
  by (simp add: leaves_def)

lemmas leaves_intros = leaves_bind leaves_pair leaves_if leaves_then

lemma map_for_create_fresh:
  assumes L: "map_memory L os"
  shows "maps_fresh L sz (map_named os n sz c)" "maps_fresh L sz (map_for_create os name sz)"
proof -
  have named: "maps_fresh L sz (map_named os n sz c)" for n c
    unfolding maps_fresh_def
  proof
    fix m
    obtain fd m1 where 1: "shm_open os n c m = (fd, m1)" by force
    obtain ok m2 where 2: "(if c then ftruncate os (the fd) sz m1 else (True, m1)) = (ok, m2)" by force
    obtain q m3 where 3: "mmap_shared os (the fd) sz m2 = (q, m3)" by force
    have s: "same_memory L m m1" "same_memory L m m2"
      using L 1 2 leavesD same_trans same_refl unfolding map_memory_def by (metis prod.inject)+
    have f: "maps_fresh L sz (mmap_shared os (the fd) sz)" "same_memory L m' (close_fd os fd' m')" for m' fd'
      using L by (simp_all add: map_memory_def)
    have m: "case q of None \<Rightarrow> same_memory L m2 m3
        | Some p \<Rightarrow> p \<notin># image_mset fst (mapped L m2) \<and> mapped L m3 = add_mset (p, sz) (mapped L m2) \<and> opened L m3 = opened L m2"
      using f(1)[unfolded maps_fresh_def, rule_format, of m2] by (simp add: 3 split: option.splits)
    have "map_named os n sz c m = (case fd of None \<Rightarrow> (None, m1) | Some fd \<Rightarrow>
        if ok then (q, close_fd os fd m3) else (None, close_fd os fd m2))"
      using 2 3 by (auto simp: map_named_def 1 split: option.splits bool.splits)
    then show "case map_named os n sz c m of
        (None, m') \<Rightarrow> same_memory L m m'
      | (Some p, m') \<Rightarrow> p \<notin># image_mset fst (mapped L m) \<and> mapped L m' = add_mset (p, sz) (mapped L m) \<and> opened L m' = opened L m"
      using s m f(2) by (auto simp: same_memory_def split: option.splits)
  qed
  then show "maps_fresh L sz (map_named os n sz c)" .
  have "maps_fresh L sz (map_anonymous os sz)" using L by (simp add: map_memory_def map_anonymous_def[abs_def])
  then show "maps_fresh L sz (map_for_create os name sz)"
    using named by (cases name) (simp_all add: map_for_create_def[abs_def])
qed

lemma bash_var_set_leaves:
  assumes "\<forall>v x. leaves L (bind_variable bv v x)"
  shows "leaves L (bash_var_set bv v x)"
  using assms unfolding bash_var_set_def l_bind_variable_check_def
  by (auto simp: leaves_def same_refl split: prod.splits bool.splits dest: spec[where x = "_"]) (metis snd_conv)+

lemma owned_var:
  assumes "owned L E k n xm xs (world s)" "\<forall>v x. leaves L (bind_variable bv v x)" "set_handle_var bv v i s = Some (Val (r, s'))"
  shows "owned L E k n xm xs (world s')"
  using assms(3) owned_same[OF assms(1)] leavesD[OF bash_var_set_leaves[OF assms(2)]]
  by (auto simp: set_handle_var_text split: prod.splits)

lemma guard_leaves:
  assumes "pthread_memory L pt"
  shows "leaves L (guard_lock pt p)" "same_memory L m (guard_unlock pt p m)"
  using assms by (auto simp: pthread_memory_def guard_lock_def guard_unlock_def leaves_def split: prod.splits) (metis snd_conv)+

lemma mutex_leaves:
  assumes "pthread_memory L pt"
  shows "leaves L (mutex_init pt p robust)" "leaves L (mutex_lock pt p timeout nonblock)" "leaves L (mutex_unlock pt p)"
    "same_memory L m (mutex_unlock_all pt r m)"
proof -
  show "leaves L (mutex_init pt p robust)"
    using assms unfolding mutex_init_def[abs_def] pthread_memory_def
    by (intro leaves_intros) auto
  show "leaves L (mutex_lock pt p timeout nonblock)"
    using assms unfolding mutex_lock_def[abs_def] pthread_memory_def
    by (cases timeout; intro leaves_intros) (auto simp: leaves_def)
  show u: "leaves L (mutex_unlock pt p)" for p
    using assms unfolding mutex_unlock_def[abs_def] pthread_memory_def
    by (intro leaves_intros) auto
  have "same_memory L m (fold (\<lambda>(i, e) m. snd (mutex_unlock pt (he_ptr e) m)) xs m)" for xs m
    using u by (induction xs arbitrary: m) (auto simp: same_refl leaves_def split: prod.splits intro: same_trans)
  then show "same_memory L m (mutex_unlock_all pt r m)" by (simp add: mutex_unlock_all_def registry_for_each_def)
qed

lemma barrier_sleep_same:
  assumes "pthread_memory L pt" "barrier_sleep pt bm p timeout m = Some (r, m')"
  shows "same_memory L m m'"
proof -
  let ?P = "\<lambda>pt' bm b timeout m y. pt' = pt \<longrightarrow> same_memory L m (snd y)"
  have "?P pt bm p timeout m (r, m')"
  proof (rule barrier_sleep.raw_induct[where P = ?P, OF _ assms(2)], rule impI)
    fix sl pt' bm b timeout m y
    assume IH: "\<And>pt' bm b timeout m y. sl pt' bm b timeout m = Some y \<Longrightarrow> ?P pt' bm b timeout m y"
      and eq: "(case barrier_cond_wait pt' b timeout m of
         (rc, m) \<Rightarrow> (case barrier_woken rc (bar_at bm b m) of Some r \<Rightarrow> Some (r, m) | None \<Rightarrow> sl pt' bm b timeout m)) = Some y"
      and pt': "pt' = pt"
    obtain rc m1 where w: "barrier_cond_wait pt b timeout m = (rc, m1)" by force
    have "leaves L (barrier_cond_wait pt b timeout)"
      using assms(1) by (auto simp: barrier_cond_wait_def pthread_memory_def leaves_def split: option.splits)
    from leavesD[OF this w] show "same_memory L m (snd y)"
      using eq IH[of pt bm b timeout m1 y] by (auto simp: pt' w split: option.splits intro: same_trans)
  qed
  then show ?thesis by simp
qed

lemma barrier_leaves:
  assumes "pthread_memory L pt" and b: "\<forall>p x m. same_memory L m (bar_put bm p x m)"
  shows "leaves L (barrier_init pt bm p n)" "leaves L (barrier_reset pt bm p)"
    "barrier_wait pt bm p timeout nonblock m = Some (r, m') \<Longrightarrow> same_memory L m m'"
proof -
  show "leaves L (barrier_init pt bm p n)"
    using assms unfolding barrier_init_def[abs_def] pthread_memory_def
    by (intro leaves_intros) auto
  have c: "same_memory L m (pthread_cond_broadcast pt p m)" for m using assms(1) by (simp add: pthread_memory_def)
  note g = guard_leaves[OF assms(1), where p = p]
  show "leaves L (barrier_reset pt bm p)"
    using leavesD[OF g(1)] g(2) b c
    by (intro leavesI) (auto simp: barrier_reset_def Let_def split: prod.splits bool.splits, (blast intro: same_trans)+)
  note e = g(2)[unfolded same_memory_def] b[unfolded same_memory_def] c[unfolded same_memory_def]
  obtain ok m1 where l: "guard_lock pt p m = (ok, m1)" by force
  have m1: "mapped L m1 = mapped L m" "opened L m1 = opened L m" using leavesD[OF g(1) l] by (simp_all add: same_memory_def)
  have "barrier_sleep pt bm p timeout m = Some (x, y) \<Longrightarrow> mapped L y = mapped L m \<and> opened L y = opened L m" for m x y
    using barrier_sleep_same[OF assms(1)] by (simp add: same_memory_def)
  then show "barrier_wait pt bm p timeout nonblock m = Some (r, m') \<Longrightarrow> same_memory L m m'"
    using m1 by (auto simp: barrier_wait_def Let_def l same_memory_def e split: prod.splits bool.splits option.splits if_splits)
qed

lemma semaphore_leaves:
  fixes L :: "'a ledger"
  assumes "sem_memory L so"
  shows "leaves L (semaphore_wait pt so p timeout nonblock)" "leaves L (semaphore_post so p)"
proof -
  have r: "leaves L f \<Longrightarrow> leaves L (\<lambda>m. ret_code (f m))" for f :: "'a \<Rightarrow> int \<times> 'a"
    by (auto simp: ret_code_def leaves_def split: prod.splits) (metis snd_conv)+
  have "leaves L (sem_wait so p)" "leaves L (sem_trywait so p)" "leaves L (sem_timedwait so p ts)" "leaves L (sem_post so p)" for ts
    using assms by (simp_all add: sem_memory_def)
  note this[THEN r]
  then show "leaves L (semaphore_wait pt so p timeout nonblock)" "leaves L (semaphore_post so p)"
    unfolding semaphore_wait_def[abs_def] semaphore_post_def[abs_def]
    by (cases timeout; auto simp: leaves_def)+
qed

lemma owned_init:
  assumes "owned L E k n {#} {#} (world s)" "map_memory L (s_map (semaphore_env E))" "sem_memory L (s_sem (semaphore_env E))"
    and "on_sys (semaphore_create (semaphore_env E) name v) s = (x, s')"
  shows "case x of None \<Rightarrow> settled L E k n (world s') | Some p \<Rightarrow>
    owned L E k n (if name = None then {#(p, semaphore_bytes (semaphore_env E))#} else {#}) (if name = None then {#} else {#p#}) (world s')"
proof (cases name)
  case None
  let ?S = "semaphore_env E"
  obtain q s1 where 1: "on_sys (map_anonymous (s_map ?S) (semaphore_bytes ?S)) s = (q, s1)" by force
  have "maps_fresh L (semaphore_bytes ?S) (map_anonymous (s_map ?S) (semaphore_bytes ?S))"
    using assms(2) by (simp add: map_memory_def map_anonymous_def[abs_def])
  note o = owned_maps[OF assms(1) this 1]
  show ?thesis
  proof (cases q)
    case (Some p)
    obtain rc s2 where 2: "on_sys (sem_init (s_sem ?S) p v) s1 = (rc, s2)" by force
    have "leaves L (sem_init (s_sem ?S) p v)" using assms(3) by (simp add: sem_memory_def)
    then have o2: "owned L E k n {#(p, semaphore_bytes ?S)#} {#} (world s2)" using owned_leaves[OF _ _ 2] o Some by auto
    note u = owned_unmap[OF o2 assms(2)]
    have "x = (if rc \<noteq> 0 then None else Some p)" "world s' =
        (if rc \<noteq> 0 then (world s2)\<lparr>sys := munmap (s_map ?S) p (semaphore_bytes ?S) (sys (world s2))\<rparr> else world s2)"
      using assms(4) 1 2 by (auto simp: None Some on_sys_def semaphore_create_def split: prod.splits if_splits)
    then show ?thesis using o2 u by (simp add: Some None)
  qed (use assms(4) 1 o in \<open>auto simp: None on_sys_def semaphore_create_def split: prod.splits\<close>)
next
  case (Some nm)
  have "on_sys (sem_open (s_sem (semaphore_env E)) nm True v) s = (x, s')"
    using assms(4) by (simp add: Some on_sys_def semaphore_create_def)
  from owned_opens[OF assms(1,3) this] show ?thesis by (cases x) (simp_all add: Some)
qed

section \<open>The subcommands\<close>

lemma owned_unlink:
  assumes "owned L E k n xm xs (p\<lparr>sys := m\<rparr>)" "map_memory L os"
  shows "owned L E k n xm xs (p\<lparr>sys := shm_unlink os nm m\<rparr>)"
  using owned_same[OF assms(1), of "shm_unlink os nm m"] assms(2) by (auto simp: map_memory_def)

lemmas handle_splits = prod.splits option.splits result.splits if_splits

lemma barrier_commands_lead:
  assumes L: "memory_laws L E" and n: "n + 2 < 2 ^ 64" and h: "h \<in> snd ` set (barrier_subcommands (barrier_env E))"
  shows "leads (settled L E k n) (settled L E k (Suc n)) h"
proof -
  let ?B = "barrier_env E" and ?P = "settled L E k n" and ?Q = "settled L E k (Suc n)"
  have m: "map_memory L (b_map ?B)" and p: "pthread_memory L (b_pt ?B)" and b: "\<forall>p x m. same_memory L m (bar_put (b_mem ?B) p x m)"
    and v: "\<forall>v x. leaves L (bind_variable (b_vars ?B) v x)"
    using L by (simp_all add: memory_laws_def)
  note mapped = owned_maps[OF _ map_for_create_fresh(1)[OF m]] owned_maps[OF _ map_for_create_fresh(2)[OF m]]
  note step = owned_leaves[OF _ barrier_leaves(1)[OF p b]] owned_leaves[OF _ barrier_leaves(2)[OF p b]]
    owned_unmap[OF _ m] owned_var[OF owned_store(1)[OF n] v, rotated 2] owned_take(1,2) owned_unlink[OF _ m] owned_more
  have "leads ?P ?Q (barrier_create_subcommand ?B)"
    by (rule leads_command, rule barrier_create_subcommand_def)
      (auto simp: Let_def done_with_def split: handle_splits dest!: mapped(2)[rotated] step(1)[rotated] intro: step)
  moreover have "leads ?P ?Q (barrier_open_subcommand ?B)"
    by (rule leads_command, rule barrier_open_subcommand_def)
      (auto simp: Let_def done_with_def split: handle_splits dest!: mapped(1)[rotated] intro: step)
  moreover have "leads ?P ?Q (barrier_wait_subcommand ?B)"
    by (rule leads_command, rule barrier_wait_subcommand_def)
      (auto simp: Let_def done_with_def split: handle_splits intro: step owned_more[OF owned_same[OF _ barrier_leaves(3)[OF p b]]])
  moreover have "leads ?P ?Q (barrier_close_subcommand ?B)"
    by (rule leads_command, rule barrier_close_subcommand_def)
      (auto simp: Let_def done_with_def split: handle_splits intro: step)
  moreover have "leads ?P ?Q (barrier_reset_subcommand ?B)"
    by (rule leads_command, rule barrier_reset_subcommand_def)
      (auto simp: Let_def done_with_def split: handle_splits intro: step)
  moreover have "leads ?P ?Q (barrier_destroy_subcommand ?B)"
    by (rule leads_command, rule barrier_destroy_subcommand_def)
      (auto simp: Let_def done_with_def split: handle_splits intro: step)
  ultimately show ?thesis using h by (auto simp: barrier_subcommands_def)
qed

lemma mutex_commands_lead:
  assumes L: "memory_laws L E" and n: "n + 2 < 2 ^ 64" and h: "h \<in> snd ` set (mutex_subcommands (mutex_env E))"
  shows "leads (settled L E k n) (settled L E k (Suc n)) h"
proof -
  let ?M = "mutex_env E" and ?P = "settled L E k n" and ?Q = "settled L E k (Suc n)"
  have m: "map_memory L (m_map ?M)" and p: "pthread_memory L (m_pt ?M)" and v: "\<forall>v x. leaves L (bind_variable (m_vars ?M) v x)"
    using L by (simp_all add: memory_laws_def)
  note mapped = owned_maps[OF _ map_for_create_fresh(1)[OF m]] owned_maps[OF _ map_for_create_fresh(2)[OF m]]
  note step = owned_leaves[OF _ mutex_leaves(1)[OF p]] owned_leaves[OF _ mutex_leaves(2)[OF p]] owned_leaves[OF _ mutex_leaves(3)[OF p]]
    owned_same[OF _ mutex_leaves(4)[OF p]] owned_unmap[OF _ m] owned_var[OF owned_store(2)[OF n] v, rotated 2] owned_take(3,4) owned_unlink[OF _ m]
    owned_more
  have "leads ?P ?Q (mutex_create_subcommand ?M)"
    by (rule leads_command, rule mutex_create_subcommand_def)
      (auto simp: Let_def done_with_def split: handle_splits dest!: mapped(2)[rotated] step(1)[rotated] intro: step)
  moreover have "leads ?P ?Q (mutex_open_subcommand ?M)"
    by (rule leads_command, rule mutex_open_subcommand_def)
      (auto simp: Let_def done_with_def split: handle_splits dest!: mapped(1)[rotated] intro: step)
  moreover have "leads ?P ?Q (mutex_lock_subcommand ?M)"
    by (rule leads_command, rule mutex_lock_subcommand_def)
      (auto simp: Let_def done_with_def split: handle_splits intro: step)
  moreover have "leads ?P ?Q (mutex_unlock_subcommand ?M)"
    by (rule leads_command, rule mutex_unlock_subcommand_def)
      (auto simp: Let_def done_with_def split: handle_splits intro: step)
  moreover have "leads ?P ?Q (mutex_close_subcommand ?M)"
    by (rule leads_command, rule mutex_close_subcommand_def)
      (auto simp: Let_def done_with_def split: handle_splits intro: step)
  moreover have "leads ?P ?Q (mutex_destroy_subcommand ?M)"
    by (rule leads_command, rule mutex_destroy_subcommand_def)
      (auto simp: Let_def done_with_def split: handle_splits intro: step)
  ultimately show ?thesis using h by (auto simp: mutex_subcommands_def)
qed

lemma owned_teardown:
  fixes s :: "'m proc shell"
  assumes o: "owned L E k n (if he_name e = None then {#(he_ptr e, semaphore_bytes (semaphore_env E))#} else {#})
      (if he_name e = None then {#} else {#he_ptr e#}) (world s)"
    and m: "map_memory L (s_map (semaphore_env E))" and S: "sem_memory L (s_sem (semaphore_env E))"
  shows "settled L E k n ((world s)\<lparr>sys := semaphore_teardown (semaphore_env E) e unlink (sys (world s))\<rparr>)"
proof (cases "he_name e")
  case None
  let ?m = "sem_destroy (s_sem (semaphore_env E)) (he_ptr e) (sys (world s))"
  have d: "same_memory L (sys (world s)) ?m" using S by (simp add: sem_memory_def)
  have "owned L E k n {#(he_ptr e, semaphore_bytes (semaphore_env E))#} {#} (world (set_sys ?m s))"
    using owned_same[OF _ d] o None by simp
  from owned_unmap[OF this m] show ?thesis by (simp add: semaphore_teardown_def None)
next
  case (Some nm)
  have "owned L E k n {#} {#he_ptr e#} (world s)" using o Some by simp
  from owned_closes[OF this S] have c: "settled L E k n ((world s)\<lparr>sys := sem_close (s_sem (semaphore_env E)) (he_ptr e) (sys (world s))\<rparr>)" .
  then show ?thesis using owned_unlink[OF c m] by (simp add: semaphore_teardown_def Some Let_def)
qed

lemma semaphore_commands_lead:
  assumes L: "memory_laws L E" and n: "n + 2 < 2 ^ 64" and h: "h \<in> snd ` set (semaphore_subcommands (semaphore_env E))"
  shows "leads (settled L E k n) (settled L E k (Suc n)) h"
proof -
  let ?S = "semaphore_env E" and ?P = "settled L E k n" and ?Q = "settled L E k (Suc n)"
  have m: "map_memory L (s_map ?S)" and S: "sem_memory L (s_sem ?S)" and v: "\<forall>v x. leaves L (bind_variable (s_vars ?S) v x)"
    using L by (simp_all add: memory_laws_def)
  note w = owned_leaves[OF _ semaphore_leaves(1)[OF S]] owned_leaves[OF _ semaphore_leaves(2)[OF S]]
  have st: "owned L E k n (if nm = None then {#(p, semaphore_bytes ?S)#} else {#}) (if nm = None then {#} else {#p#}) (world s) \<Longrightarrow>
      store_semaphore p nm s = (i, s') \<Longrightarrow> ?Q (world s')" for p nm s i s'
    using owned_store(3)[OF n] owned_store(4)[OF n] by (cases nm) auto
  note step = w owned_var[OF st v, rotated 2] owned_var[OF owned_store(4)[OF n] v, rotated 2] owned_take(6) owned_more owned_teardown[OF owned_take(5) m S]
  have "leads ?P ?Q (semaphore_create_subcommand ?S)"
    by (rule leads_command, rule semaphore_create_subcommand_def)
      (auto simp: Let_def done_with_def simp del: if_split split: prod.splits option.splits dest!: owned_init[OF _ m S, rotated] intro: step)
  moreover have "leads ?P ?Q (semaphore_open_subcommand ?S)"
    by (rule leads_command, rule semaphore_open_subcommand_def)
      (auto simp: Let_def done_with_def split: handle_splits dest!: owned_opens[OF _ S, rotated] intro: step)
  moreover have "leads ?P ?Q (semaphore_wait_subcommand ?S)"
    by (rule leads_command, rule semaphore_wait_subcommand_def)
      (auto simp: Let_def done_with_def split: handle_splits intro: step)
  moreover have "leads ?P ?Q (semaphore_post_subcommand ?S)"
    by (rule leads_command, rule semaphore_post_subcommand_def)
      (auto simp: Let_def done_with_def split: handle_splits intro: step)
  moreover have "leads ?P ?Q (semaphore_close_subcommand ?S)"
    by (rule leads_command, rule semaphore_close_subcommand_def)
      (auto simp: Let_def done_with_def split: handle_splits intro: step)
  moreover have "leads ?P ?Q (semaphore_destroy_subcommand ?S)"
    by (rule leads_command, rule semaphore_destroy_subcommand_def)
      (auto simp: Let_def done_with_def split: handle_splits intro: step)
  ultimately show ?thesis using h by (auto simp: semaphore_subcommands_def)
qed

lemma calls_settled:
  assumes c: "handle_calls L E k n p" and L: "memory_laws L E" and n: "n + 2 < 2 ^ 64"
  shows "settled L E k n p"
  using c n
proof (induction rule: handle_calls.induct)
  case none
  show ?case
    by (simp add: owned_def proc_new_def counters_def registry_new_inv handle_mappings_def handle_semaphores_def live_def
        nameless_def regions_def sole_def registry_new_def registry_inv_def)
next
  case (barrier n s list r s')
  have "leads (settled L E k n) (settled L E k (Suc n)) (barrier_subcommand (barrier_env E))"
    unfolding barrier_subcommand_def barrier_table_def
    by (rule leads_group[OF group_tables(2)]) (use barrier.prems in \<open>auto intro: barrier_commands_lead[OF L] owned_more\<close>)
  then show ?case using barrier by (auto elim: leadsD)
next
  case (mutex n s list r s')
  have "leads (settled L E k n) (settled L E k (Suc n)) (mutex_subcommand (mutex_env E))"
    unfolding mutex_subcommand_def mutex_table_def
    by (rule leads_group[OF group_tables(4)]) (use mutex.prems in \<open>auto intro: mutex_commands_lead[OF L] owned_more\<close>)
  then show ?case using mutex by (auto elim: leadsD)
next
  case (semaphore n s list r s')
  have "leads (settled L E k n) (settled L E k (Suc n)) (semaphore_subcommand (semaphore_env E))"
    unfolding semaphore_subcommand_def semaphore_table_def
    by (rule leads_group[OF group_tables(6)]) (use semaphore.prems in \<open>auto intro: semaphore_commands_lead[OF L] owned_more\<close>)
  then show ?case using semaphore by (auto elim: leadsD)
next
  case (elsewhere n p m)
  then show ?case by (blast intro: owned_same)
qed

section \<open>Memory and handles\<close>

text \<open>
  C3: Over any sequence of calls of the barrier, mutex and semaphore subcommands,
  whatever their words are and however they end, the memory that the process holds is
  what it held before, one mapping of the right length for every live handle of a
  barrier, a mutex or an anonymous semaphore, and one reference for every live handle of
  a named semaphore; and no other mapping is at the address of a handle's. So a create or
  open that fails leaks nothing, close and destroy give back what the handle had and
  nothing else, nothing is given back twice, and no live handle points to memory that is
  gone. (The handle counters have room for that many calls; a handle whose number could
  not be written to the variable stays live.)
\<close>

theorem handles_own_their_memory:
  assumes "memory_laws L E" "handle_calls L E k n p" "n + 2 < 2 ^ 64"
  shows "mapped L (sys p) = mapped L k + handle_mappings E p \<and> opened L (sys p) = opened L k + handle_semaphores p \<and>
    sole (handle_mappings E p) (mapped L (sys p))"
  using calls_settled[OF assms(2,1,3)] by (auto simp: owned_def)

text \<open>A process alone: its mappings and its named semaphores. The next mapping is above
  all others.\<close>

type_synonym host = "(address \<times> nat) multiset \<times> address multiset"

definition host_ledger :: "host ledger" where
  "host_ledger = \<lparr>mapped = fst, opened = snd\<rparr>"

definition host_mmap :: "nat \<Rightarrow> host \<Rightarrow> address option \<times> host" where
  "host_mmap sz h = (case Suc (sum_mset (image_mset fst (fst h))) of p \<Rightarrow> (Some p, (add_mset (p, sz) (fst h), snd h)))"

definition host_map :: "host map_ops" where
  "host_map = \<lparr>mmap_anonymous = host_mmap, shm_open = \<lambda>_ _. Pair (Some 90), ftruncate = \<lambda>_ _. Pair True, mmap_shared = \<lambda>_. host_mmap,
     close_fd = \<lambda>_ h. h, munmap = \<lambda>p sz h. (fst h - {#(p, sz)#}, snd h), shm_unlink = \<lambda>_ h. h\<rparr>"

definition host_sem :: "(host, unit) sem_ops" where
  "host_sem = \<lparr>sem_open = \<lambda>_ _ _ h. (Some 8, (fst h, add_mset 8 (snd h))), sem_init = \<lambda>_ _. Pair 0, sem_wait = \<lambda>_. Pair 0,
     sem_trywait = \<lambda>_. Pair 0, sem_timedwait = \<lambda>_ _. Pair 0, sem_post = \<lambda>_. Pair 0,
     sem_close = \<lambda>p h. (fst h, snd h - {#p#}), sem_destroy = \<lambda>_ h. h\<rparr>"

definition host_mutexes :: "(host, unit, unit) mutex_env" where
  "host_mutexes = \<lparr>m_getopt = operands_only, m_vars = quiet_vars, m_map = host_map, m_pt = alone, mutex_bytes = 40, m_texts = \<lambda>_. ([], [])\<rparr>"

definition host_env :: "(host, unit, unit) sync_env" where
  "host_env = \<lparr>
     barrier_env = \<lparr>b_getopt = operands_only, b_vars = quiet_vars, b_map = host_map, b_pt = alone,
       b_mem = \<lparr>barrier_bytes = 100, bar_at = \<lambda>_ _. \<lparr>count = 0, target = 1, satisfied = 0\<rparr>, bar_put = \<lambda>_ _ h. h\<rparr>, b_texts = \<lambda>_. ([], [])\<rparr>,
     mutex_env = host_mutexes,
     semaphore_env = \<lparr>s_getopt = operands_only, s_vars = quiet_vars, s_map = host_map, s_pt = alone, s_sem = host_sem,
       semaphore_bytes = 32, s_texts = \<lambda>_. ([], [])\<rparr>\<rparr>"

lemma host_fresh: "Suc (sum_mset (image_mset fst M)) \<notin># image_mset fst (M :: (nat \<times> nat) multiset)"
proof -
  have "a \<in># N \<Longrightarrow> a \<le> sum_mset N" for a :: nat and N by (auto dest!: multi_member_split)
  then show ?thesis by (metis Suc_n_not_le_n)
qed

lemma host_laws: "memory_laws host_ledger host_env"
proof -
  have m: "maps_fresh host_ledger sz (host_mmap sz)" for sz
    using host_fresh by (auto simp: maps_fresh_def host_mmap_def host_ledger_def)
  have "map_memory host_ledger host_map"
    using m by (simp add: map_memory_def host_map_def leaves_def same_memory_def host_ledger_def)
  moreover have "pthread_memory host_ledger alone"
    by (simp add: pthread_memory_def alone_def leaves_def same_memory_def)
  moreover have "sem_memory host_ledger host_sem"
    by (simp add: sem_memory_def opens_one_def host_sem_def leaves_def same_memory_def host_ledger_def)
  ultimately show ?thesis
    by (simp add: memory_laws_def host_env_def host_mutexes_def quiet_vars_def leaves_def same_memory_def)
qed

lemma host_create:
  fixes s :: "host proc shell"
  defines "s \<equiv> \<lparr>this_command = [], short_doc = [], long_doc = [], world = proc_new ({#}, {#})\<rparr>"
  shows "\<exists>s'. mutex_subcommand (mutex_env host_env) [Some ''create'', Some ''m''] s = Some (Val (Ok (), s')) \<and>
    mutexes (world s') = snd (registry_store 1 None registry_new) \<and> barriers (world s') = registry_new \<and> semaphores (world s') = registry_new"
proof -
  let ?M = "mutex_env host_env" and ?h = "({#(1, 40)#}, {#}) :: host"
  let ?s = "cmd_enter (described (m_texts ?M) ''mutex'') s"
  have E: "?M = host_mutexes" "m_getopt host_mutexes = operands_only" "m_map host_mutexes = host_map" "m_pt host_mutexes = alone" "m_vars host_mutexes = quiet_vars"
    "mutex_bytes host_mutexes = 40" by (simp_all add: host_env_def host_mutexes_def)
  have G: "scans_operands (m_getopt ?M)" using operands_only_scans by (simp add: E)
  have q: "operand ''create''" "nul_free ''create''" "operand ''m''" by (simp_all add: operand_def nul_free_def)
  have w: "world s = proc_new ({#}, {#})" by (simp add: s_def)
  have run: "mutex_subcommand ?M [Some ''create'', Some ''m''] s = mutex_create_subcommand ?M [Some ''m''] ?s"
    using mutex_group_runs[OF G q(1) _ q(2), of "[Some ''m'']" s] by (simp add: mutex_subcommand_names)
  have p: "parse operands_only (mutex_create_fields quiet_vars m :: unit arg field list) [Some ''m''] =
      Some (Ok [Boolean False, Absent, Value (Str_arg ''m'')])" for m :: host
    using mutex_words_parse(1)[OF G q(3), of m] by (simp add: E) (simp add: quiet_vars_def)
  have 1: "map_for_create host_map None 40 ({#}, {#}) = (Some 1, ?h)"
    by (simp add: map_for_create_def map_anonymous_def host_map_def host_mmap_def)
  have 2: "mutex_init alone a False h = (Ok (), h)" for a and h :: host by (simp add: mutex_init_def alone_def)
  have 3: "bash_var_set quiet_vars v x m = (Ok (), m)" for v x and m :: host
    by (simp add: bash_var_set_def l_bind_variable_check_def quiet_vars_def)
  show ?thesis
    unfolding run mutex_create_subcommand_def
    by (simp add: with_args_def p w Let_def on_sys_def proc_new_def E 1 2 3 store_mutex_def set_handle_var_text registry_store_def)
qed

theorem handles_own_their_memory_witness:
  "\<exists>p. handle_calls host_ledger host_env ({#}, {#}) 1 p \<and> registry_lookup (mutexes p) 1 = Some 1 \<and> fst (sys p) = {#(1, 40)#} \<and> snd (sys p) = {#}"
proof -
  let ?s = "\<lparr>this_command = [], short_doc = [], long_doc = [], world = proc_new ({#}, {#})\<rparr> :: host proc shell"
  obtain s' where s': "mutex_subcommand (mutex_env host_env) [Some ''create'', Some ''m''] ?s = Some (Val (Ok (), s'))"
      "mutexes (world s') = snd (registry_store 1 None registry_new)" "barriers (world s') = registry_new" "semaphores (world s') = registry_new"
    using host_create by blast
  have c: "handle_calls host_ledger host_env ({#}, {#}) 1 (world s')"
    using handle_calls.mutex[OF _ s'(1), of host_ledger "({#}, {#})" 0] by (simp add: handle_calls.none)
  have "handle_mappings host_env (world s') = {#(1, 40)#}" "handle_semaphores (world s') = {#}"
    by (simp_all add: handle_mappings_def handle_semaphores_def s' live_def regions_def nameless_def registry_store_def registry_new_def
        Let_def host_env_def host_mutexes_def)
  then have "fst (sys (world s')) = {#(1, 40)#} \<and> snd (sys (world s')) = {#}"
    using handles_own_their_memory[OF host_laws c] by (simp add: host_ledger_def)
  moreover have "registry_lookup (mutexes (world s')) 1 = Some 1"
    by (simp add: s' registry_lookup_def registry_store_def registry_new_def Let_def)
  ultimately show ?thesis using c by blast
qed

end
