(* ===== verification/Spec2Isabelle.thy ===== *)
theory Spec2Isabelle
  imports Int_Lookup Int_Str Io_Common Variadic Cmd_Args Dispatch Entry_Point Handles Sync Barrier Mutex Semaphore Vardb Backings Shm Fd_Io Fcntl New_Fd Signals Epoll Descriptors Sockets Var_Edit Lua_Api Display Utilities Process_State Builtin Builtin_Runs Bash_Api Dispatcher Allocator Shared_Session Handle_Memory
begin

text \<open>
  \<open>L_builtin\<close> is a shared object that adds one builtin of that name to a running bash.
  This library models the Rust code of the builtin (\<open>l_builtin/src\<close>), of the
  library crate beside it (\<open>llib/src\<close>), and of the macro that generates the argument
  parsers (\<open>cmdargs-derive/src\<close>). Paths are relative to the root of the
  repository; a definition has the name of the function it models where HOL
  leaves the name free.

  \<^bold>\<open>How the program works.\<close> Bash calls \<open>l_entrypoint\<close> with a list of words. The
  entry point parses \<open>-v VAR\<close>, looks the first word up in a table of packed names, in
  which a unique prefix stands for the name, and calls the handler of the
  subcommand with the other words, its output captured into \<open>VAR\<close> if \<open>-v\<close> was given.
  A handler enters the documentation of its subcommand, parses its words by a
  parser derived from an annotated struct, and either is itself a group with a
  table of subcommands or does its work: it calls the system, changes variables
  of bash, and for barriers, mutexes, semaphores and shared variables keeps
  registries of objects in static variables.

  \<^bold>\<open>How it is modelled.\<close> A handler is a function from words and a state to a result
  and a state (\<open>'w handler\<close> in \<open>Dispatch\<close>); the state is the part of bash that the
  builtin itself changes next to a world \<open>'w\<close>. A panic is the value \<open>Panic\<close> of the type
  \<open>run\<close>, which ends the process as the release profile does; an error is \<open>Err\<close> with
  an exit code; a handler that does not return is \<open>None\<close>. Loops that may not end
  are \<open>partial_function (option)\<close>, so no fuel bounds the model anywhere and a
  theorem that something returns shows \<open>Some\<close>. Machine integers are words of their
  width, also where the width is that of \<open>usize\<close> or \<open>time_t\<close> (64 bits); a length or
  a size that cannot wrap is a natural number. Strings are lists of bytes
  (\<open>char\<close>).

  What is not under \<open>src/\<close> is an argument: system calls, bash's variables, arrays,
  option scanner, traps and evaluator, the pthread and semaphore functions,
  floating-point arithmetic, \<open>rkyv\<close>'s serialization, the Lua interpreter,
  the regular expressions and the sed interpreter. They are fields of an
  environment record of each theory. What a property relies on of them is a named predicate
  (\<open>errorcheck_laws\<close>, \<open>table_laws\<close>, \<open>cell_laws\<close> and others) or the assumptions of a
  locale, and a witness shows each of them on a concrete instance. Calls that can fail may fail there
  too: what a failing \<open>dup2\<close> or \<open>F_SETFL\<close> in a destructor, whose result the code does not look at, leaves
  behind is part of the statements on captures and on \<open>read\<close> (\<open>stdout_lost\<close>, \<open>flags_stuck\<close>).

  \<^bold>\<open>The theories.\<close>
  \<^item> \<open>Prelude\<close>: \<open>run\<close>, \<open>result\<close>, checked indexing, the loop over a range, facts on lists and
    the collections of automation.
  \<^item> \<open>Rust_Std\<close>: what the sources use of the standard library on bytes: UTF-8 validation,
    parsing and printing of integers.
  \<^item> \<open>Int_Lookup\<close> (\<open>llib/src/intlookup.rs\<close>): the tables of names, packed into integers of any
    width. Shown: when building one panics, that the halving search agrees with
    the linear scan, and that a lookup refines the search for a name or unique
    prefix (\<open>prefix_lookup\<close>). The locale \<open>name_table\<close> is the contract that the
    dispatchers use, with instances at the three widths of the macro.
  \<^item> \<open>Int_Str\<close> (\<open>intstr.rs\<close>, the integers of \<open>bprint_bytes.rs\<close>), \<open>Io_Common\<close> (\<open>io_common.rs\<close>),
    \<open>Variadic\<close> (\<open>variadic.rs\<close>): decimal printing into fixed buffers, hexadecimal
    transfer formats, the compile-time check of format strings.
  \<^item> \<open>Cmd_Args\<close> (\<open>cmdargs.rs\<close>, \<open>cmdargs-derive/src/lib.rs\<close>, the word lists of \<open>bash_api.rs\<close>):
    the derive macro as an interpreter of a list of fields. Shown: what is accepted
    (arity), what an option holds, and the shape of the parsed struct.
  \<^item> \<open>Dispatch\<close> (\<open>subcmd.rs\<close>, \<open>cmd_run.rs\<close>) and \<open>Entry_Point\<close> (\<open>entrypoint.rs\<close>, \<open>Memfd\<close> of
    \<open>shared.rs\<close>): results, documentation of the running builtin, groups, the entry
    point, capture of output. Shown: which handler runs, that documentation and
    descriptors are restored, what a capture gives the variable, that \<open>run\<close> quotes
    faithfully.
  \<^item> \<open>Handles\<close> (\<open>handles.rs\<close>), \<open>Sync\<close> (\<open>shared.rs\<close>, \<open>pthread.rs\<close>), \<open>Barrier\<close>, \<open>Mutex\<close>, \<open>Semaphore\<close>
    (\<open>cmd_barrier.rs\<close>, \<open>cmd_mutex.rs\<close>, \<open>cmd_semaphore.rs\<close>): objects in shared memory behind
    handles. The locale \<open>handle_registry\<close> is the contract of a registry. A barrier is also a
    step relation \<open>bstep\<close> over the events of many processes; the properties on results
    and success hold for every run of it.
  \<^item> \<open>Vardb\<close> (\<open>vardb.rs\<close>), \<open>Backings\<close>, \<open>Shm\<close> (\<open>cmd_shm.rs\<close>): the database of shared variables, its
    three backings as instances of the locale \<open>db_backend\<close> over what the system
    promises (\<open>file_system\<close>), and the dynamic variables on top.
  \<^item> \<open>Fd_Io\<close> (\<open>read.rs\<close>, \<open>recv.rs\<close>, \<open>write.rs\<close>, \<open>send.rs\<close>), \<open>Fcntl\<close> (\<open>cmd_fcntl.rs\<close>), \<open>New_Fd\<close>
    (\<open>eventfd.rs\<close>, \<open>memfd.rs\<close>, \<open>pipe.rs\<close>), \<open>Signals\<close> (\<open>cmd_sig.rs\<close>, \<open>signalfd.rs\<close>), \<open>Epoll\<close>
    (\<open>cmd_epoll.rs\<close>), \<open>Descriptors\<close> (\<open>close.rs\<close>, \<open>lseek.rs\<close>, \<open>flock.rs\<close>, \<open>shutdown.rs\<close>, \<open>splice.rs\<close>,
    \<open>sleep.rs\<close>, \<open>timerfd.rs\<close>), \<open>Sockets\<close> (\<open>accept.rs\<close>, \<open>listen.rs\<close>, \<open>connect.rs\<close>): the subcommands
    over descriptors. Shown: what is transferred, which loops return, what is
    restored, round trips of texts, and the buffers that addresses need.
  \<^item> \<open>Var_Edit\<close> (\<open>cmd_replace.rs\<close>, \<open>cmd_sedvar.rs\<close>) and \<open>Lua_Api\<close> (\<open>cmd_lua.rs\<close>): editing of variables and the
    module that Lua scripts see.
  \<^item> \<open>Display\<close> (\<open>bprint_bytes.rs\<close>) and \<open>Utilities\<close> (\<open>cmd_core.rs\<close>, \<open>cmd_version.rs\<close>, \<open>unittest.rs\<close>): what
    the formatting macros write, which utility \<open>core\<close> runs, when the test runner succeeds.
  \<^item> \<open>Process_State\<close> and \<open>Builtin\<close>: one state for the whole process, which every handler of
    every module is shown to keep well-formed (\<open>keeps\<close>), the table of the subcommands with the real
    handlers, and the relation \<open>reachable\<close> of all ways into the code. \<open>Builtin_Runs\<close>: whole
    calls of the builtin, words in and exit code out, one after the other.
  \<^item> \<open>Handle_Memory\<close>: which memory the process holds after any sequence of calls of the barrier, mutex
    and semaphore subcommands. A ledger of mappings and named semaphores says what the system calls
    do (\<open>memory_laws\<close>); \<open>handle_calls\<close> are the runs.
  \<^item> \<open>Shared_Session\<close>: two processes with one store, from the assignment in the one to the expansion in
    the other, over a fork after which the store is opened again (the locale \<open>reopening\<close>); and what
    \<open>shm drop\<close>, \<open>sync\<close> and \<open>clear\<close> leave in the store that they are given.
  \<^item> \<open>Bash_Api\<close> (\<open>bash_api.rs\<close>): the iterators that follow the pointers of bash's word lists and
    arrays, shown to yield the lists that the other theories work on.
  \<^item> \<open>Allocator\<close> (\<open>bash_alloc.rs\<close>): the global allocator over a memory of bytes. Shown: alignment, room, that
    freeing finds the block again, and where \<open>realloc\<close> keeps the contents and where it does not.
  \<^item> \<open>Dispatcher\<close> (\<open>dispatcher/src/lib.rs\<close>, \<open>dispatcher/build.rs\<close>, \<open>nolock.rs\<close>): the loader of the module for
    the running bash, and the archive that the build gives it.
  \<^bold>\<open>Bounds.\<close> Handles are fresh until the 64-bit counter of a registry has run out
  (\<open>registry_room\<close>). The tables hold names of at most as many bytes as their word
  has. The buffers of printed integers and addresses are proved to be long enough.

  \<^bold>\<open>Not modelled.\<close> Help texts and the texts of messages; stubs for tests (\<open>test_stubs.rs\<close>) and the tests themselves; the subcommands
  written in C (\<open>poll\<close>, \<open>ppoll\<close>, \<open>ext\<close>), whose handlers are parameters; the accessors to structures of bash
  in C behind the parameters; build scripts; the mask that a jump to the top
  level of the shell restores (\<open>top_level_mask\<close> in \<open>cmd_sig.rs\<close>), since jumps out of a
  command are not part of the model.
\<close>

end
